(* ===== verification/Prelude.thy ===== *)
theory Prelude
  imports Main "HOL-Library.AList" "HOL-Library.Multiset" "HOL-Library.Monad_Syntax"
    "HOL-Library.Word"
begin

text \<open>
  Shared vocabulary of the development.

  \<^item> Results: \<open>'e + 'a\<close> is Rust's \<open>Result\<close> (\<open>Inl\<close> the error). A computation that may
    panic has type \<open>'a option\<close>, with \<open>None\<close> for the panic.
  \<^item> Hash maps: \<open>('k, 'v) hmap\<close>, an association list with distinct keys. The list
    order stands for the iteration order of the map. The locale \<open>keyed_store\<close>
    states what the program relies on, and its interpretation \<open>hm\<close> proves it.
  \<^item> Locks: \<open>'s mutex\<close> with \<open>with_lock\<close>, which is \<open>lock().expect(..)\<close> around a
    critical section: a panic inside poisons the lock, and a poisoned lock panics.
  \<^item> Invariants of event systems: the locale \<open>event_system\<close>.
\<close>

named_theorems hm_simps "lookup laws of hash maps"
named_theorems op_defs "unfolding rules of the modelled operations"

subsection \<open>Results\<close>

type_synonym ('e, 'a) result = "'e + 'a"

definition res_bind :: "('e, 'a) result \<Rightarrow> ('a \<Rightarrow> ('e, 'b) result) \<Rightarrow> ('e, 'b) result" where
  "res_bind r f = (case r of Inl e \<Rightarrow> Inl e | Inr a \<Rightarrow> f a)"

lemma res_bind_simps [simp]:
  "res_bind (Inl e) f = Inl e"
  "res_bind (Inr a) f = f a"
  by (simp_all add: res_bind_def)

lemma res_bind_eq_Inr:
  "res_bind r f = Inr b \<longleftrightarrow> (\<exists>a. r = Inr a \<and> f a = Inr b)"
  by (cases r) auto

text \<open>\<open>with_context\<close> of the error library: the value passes, the error is replaced.\<close>

definition with_context :: "'e \<Rightarrow> ('f, 'a) result \<Rightarrow> ('e, 'a) result" where
  "with_context e r = (case r of Inl _ \<Rightarrow> Inl e | Inr a \<Rightarrow> Inr a)"

lemma with_context_simps [simp]:
  "with_context e (Inl f) = Inl e"
  "with_context e (Inr a) = Inr a"
  by (simp_all add: with_context_def)

lemma with_context_eq_Inr: "with_context e r = Inr a \<longleftrightarrow> r = Inr a"
  by (cases r) auto

definition ok_or :: "'e \<Rightarrow> 'a option \<Rightarrow> ('e, 'a) result" where
  "ok_or e o' = (case o' of None \<Rightarrow> Inl e | Some a \<Rightarrow> Inr a)"

lemma ok_or_simps [simp]:
  "ok_or e None = Inl e"
  "ok_or e (Some a) = Inr a"
  by (simp_all add: ok_or_def)

subsection \<open>Hash maps\<close>

type_synonym ('k, 'v) hmap = "('k \<times> 'v) list"

abbreviation hm_get :: "('k, 'v) hmap \<Rightarrow> 'k \<Rightarrow> 'v option" where
  "hm_get \<equiv> map_of"

abbreviation hm_insert :: "'k \<Rightarrow> 'v \<Rightarrow> ('k, 'v) hmap \<Rightarrow> ('k, 'v) hmap" where
  "hm_insert \<equiv> AList.update"

abbreviation hm_remove :: "'k \<Rightarrow> ('k, 'v) hmap \<Rightarrow> ('k, 'v) hmap" where
  "hm_remove \<equiv> AList.delete"

abbreviation hm_len :: "('k, 'v) hmap \<Rightarrow> nat" where
  "hm_len \<equiv> length"

definition hm_wf :: "('k, 'v) hmap \<Rightarrow> bool" where
  "hm_wf m \<longleftrightarrow> distinct (map fst m)"

text \<open>
  \<open>HashMap::retain\<close>: the closure may change the value it keeps (\<open>Some v'\<close>) or drop the
  entry (\<open>None\<close>); the outer \<open>None\<close> is a panic of the closure.
\<close>

fun hm_retain :: "('k \<Rightarrow> 'v \<Rightarrow> 'v option option) \<Rightarrow> ('k, 'v) hmap \<Rightarrow> ('k, 'v) hmap option" where
  "hm_retain f [] = Some []"
| "hm_retain f ((k, v) # m) =
     (case f k v of
        None \<Rightarrow> None
      | Some r \<Rightarrow>
         (case hm_retain f m of
            None \<Rightarrow> None
          | Some m' \<Rightarrow> Some (case r of None \<Rightarrow> m' | Some v' \<Rightarrow> (k, v') # m')))"

text \<open>
  What the components rely on: a finite keyed store with insertion, removal and a size.
  The client facts below are proved from these laws only.
\<close>

locale keyed_store =
  fixes get :: "'m \<Rightarrow> 'k \<Rightarrow> 'v option"
    and put :: "'k \<Rightarrow> 'v \<Rightarrow> 'm \<Rightarrow> 'm"
    and del :: "'k \<Rightarrow> 'm \<Rightarrow> 'm"
    and len :: "'m \<Rightarrow> nat"
    and wf :: "'m \<Rightarrow> bool"
    and emp :: 'm
  assumes get_emp: "get emp k = None"
    and get_put: "get (put k v m) k' = (if k' = k then Some v else get m k')"
    and get_del: "get (del k m) k' = (if k' = k then None else get m k')"
    and wf_emp: "wf emp"
    and wf_put: "wf m \<Longrightarrow> wf (put k v m)"
    and wf_del: "wf m \<Longrightarrow> wf (del k m)"
    and len_emp: "len emp = 0"
    and len_put: "wf m \<Longrightarrow> len (put k v m) = (if get m k = None then Suc (len m) else len m)"
    and len_del: "wf m \<Longrightarrow> len (del k m) = (if get m k = None then len m else len m - 1)"
begin

text \<open>Entries of other keys survive any insertion and removal of a key.\<close>

lemma frame_put: "k' \<noteq> k \<Longrightarrow> get (put k v m) k' = get m k'"
  by (simp add: get_put)

lemma frame_del: "k' \<noteq> k \<Longrightarrow> get (del k m) k' = get m k'"
  by (simp add: get_del)

text \<open>A table that only inserts a fresh key below its capacity never exceeds it.\<close>

lemma put_within:
  assumes "wf m" and "len m \<le> n" and "get m k = None \<Longrightarrow> len m < n"
  shows "len (put k v m) \<le> n"
  using assms by (auto simp: len_put)

lemma put_del_fresh:
  assumes "wf m" and "get m k = None"
  shows "get (del k (put k v m)) = get m"
  using assms by (auto simp: get_put get_del)

lemma len_put_le: "wf m \<Longrightarrow> len (put k v m) \<le> Suc (len m)"
  by (simp add: len_put)

end

lemma hm_len_insert:
  "distinct (map fst m) \<Longrightarrow>
     length (AList.update k v m) = (if map_of m k = None then Suc (length m) else length m)"
  by (induction m) (auto split: if_splits simp: map_of_eq_None_iff image_iff)

lemma hm_len_remove:
  "distinct (map fst m) \<Longrightarrow>
     length (AList.delete k m) = (if map_of m k = None then length m else length m - 1)"
proof (induction m)
  case (Cons p m)
  obtain a b where p: "p = (a, b)" by (cases p)
  show ?case
  proof (cases "a = k")
    case True
    with Cons.prems p have "map_of m k = None" by (auto simp: map_of_eq_None_iff)
    with Cons p True show ?thesis by simp
  next
    case False
    have "length m \<noteq> 0" if "map_of m k \<noteq> None" using that by auto
    with Cons p False show ?thesis by auto
  qed
qed simp

interpretation hm: keyed_store "hm_get" "hm_insert" "hm_remove" "hm_len" "hm_wf" "[]"
proof unfold_locales
  fix k k' :: 'a and v :: 'b and m :: "('a \<times> 'b) list"
  show "hm_get [] k = None" by simp
  show "hm_get (hm_insert k v m) k' = (if k' = k then Some v else hm_get m k')"
    by (simp add: update_conv)
  show "hm_get (hm_remove k m) k' = (if k' = k then None else hm_get m k')"
    by (simp add: delete_conv)
  show "hm_wf ([] :: ('a \<times> 'b) list)" by (simp add: hm_wf_def)
  show "hm_wf m \<Longrightarrow> hm_wf (hm_insert k v m)" by (simp add: hm_wf_def distinct_update)
  show "hm_wf m \<Longrightarrow> hm_wf (hm_remove k m)" by (simp add: hm_wf_def distinct_delete)
  show "hm_len ([] :: ('a \<times> 'b) list) = 0" by simp
  show "hm_wf m \<Longrightarrow>
      hm_len (hm_insert k v m) = (if hm_get m k = None then Suc (hm_len m) else hm_len m)"
    by (simp add: hm_wf_def hm_len_insert)
  show "hm_wf m \<Longrightarrow>
      hm_len (hm_remove k m) = (if hm_get m k = None then hm_len m else hm_len m - 1)"
    by (simp add: hm_wf_def hm_len_remove)
qed

lemmas hm_store_simps [simp, hm_simps] =
  hm.get_emp hm.get_put hm.get_del hm.wf_emp hm.wf_put hm.wf_del

lemma hm_retain_keys:
  "hm_retain f m = Some m' \<Longrightarrow> set (map fst m') \<subseteq> set (map fst m)"
proof (induction m arbitrary: m')
  case (Cons p m)
  then show ?case by (cases p) (fastforce split: option.splits)
qed simp

lemma hm_retain_wf: "hm_retain f m = Some m' \<Longrightarrow> hm_wf m \<Longrightarrow> hm_wf m'"
proof (induction m arbitrary: m')
  case (Cons p m)
  obtain k v where p: "p = (k, v)" by (cases p)
  from Cons.prems p obtain r m'' where r: "f k v = Some r" "hm_retain f m = Some m''"
    and m': "m' = (case r of None \<Rightarrow> m'' | Some v' \<Rightarrow> (k, v') # m'')"
    by (auto split: option.splits)
  from Cons.IH [OF r(2)] Cons.prems(2) p have "hm_wf m''" by (simp add: hm_wf_def)
  moreover from hm_retain_keys [OF r(2)] Cons.prems(2) p have "k \<notin> set (map fst m'')"
    by (auto simp: hm_wf_def)
  ultimately show ?case using m' by (auto simp: hm_wf_def split: option.splits)
qed simp

text \<open>Retaining acts on each entry by itself.\<close>

lemma hm_retain_get:
  "hm_retain f m = Some m' \<Longrightarrow> hm_wf m \<Longrightarrow>
     hm_get m' k = (case hm_get m k of None \<Rightarrow> None | Some v \<Rightarrow> the (f k v))"
proof (induction m arbitrary: m')
  case (Cons p m)
  obtain a b where p: "p = (a, b)" by (cases p)
  from Cons.prems p obtain r m'' where r: "f a b = Some r" "hm_retain f m = Some m''"
    and m': "m' = (case r of None \<Rightarrow> m'' | Some v' \<Rightarrow> (a, v') # m'')"
    by (auto split: option.splits)
  have wf: "hm_wf m" and fresh: "hm_get m a = None"
    using Cons.prems(2) p by (auto simp: hm_wf_def map_of_eq_None_iff)
  from Cons.IH [OF r(2) wf]
  have IH: "hm_get m'' k = (case hm_get m k of None \<Rightarrow> None | Some v \<Rightarrow> the (f k v))" .
  show ?case
  proof (cases "k = a")
    case True
    with IH fresh r(1) m' p show ?thesis by (auto split: option.splits)
  next
    case False
    with IH m' p show ?thesis by (auto split: option.splits)
  qed
qed simp

lemma hm_retain_total:
  "(\<And>k v. (k, v) \<in> set m \<Longrightarrow> f k v \<noteq> None) \<Longrightarrow> \<exists>m'. hm_retain f m = Some m'"
proof (induction m)
  case (Cons p m)
  obtain k v where p: "p = (k, v)" by (cases p)
  from Cons.IH Cons.prems obtain m' where "hm_retain f m = Some m'" by auto
  moreover from Cons.prems [of k v] p obtain r where "f k v = Some r" by auto
  ultimately show ?case using p by simp
qed simp

lemma hm_retain_defined:
  "hm_retain f m = Some m' \<Longrightarrow> (k, v) \<in> set m \<Longrightarrow> f k v \<noteq> None"
proof (induction m arbitrary: m')
  case (Cons p m)
  then show ?case by (cases p) (auto split: option.splits)
qed simp

lemma hm_retain_len: "hm_retain f m = Some m' \<Longrightarrow> hm_len m' \<le> hm_len m"
proof (induction m arbitrary: m')
  case (Cons p m)
  obtain k v where p: "p = (k, v)" by (cases p)
  from Cons.prems p obtain r m'' where r: "f k v = Some r" "hm_retain f m = Some m''"
    and m': "m' = (case r of None \<Rightarrow> m'' | Some v' \<Rightarrow> (k, v') # m'')"
    by (auto split: option.splits)
  from Cons.IH [OF r(2)] m' show ?case by (auto split: option.splits)
qed simp

lemma hm_get_in_set: "hm_get m k = Some v \<Longrightarrow> (k, v) \<in> set m"
  by (rule map_of_SomeD)

lemma hm_wf_mem: "hm_wf m \<Longrightarrow> (k, v) \<in> set m \<longleftrightarrow> hm_get m k = Some v"
  by (auto simp: hm_wf_def dest: map_of_SomeD)

subsection \<open>Locks\<close>

datatype 's mutex = Unlocked 's | Poisoned

text \<open>
  A critical section \<open>f\<close> under \<open>lock().expect(..)\<close>: the caller gets \<open>None\<close> when it
  panics, either because the lock was poisoned or because \<open>f\<close> panicked while holding it.
\<close>

fun with_lock :: "'s mutex \<Rightarrow> ('s \<Rightarrow> ('a \<times> 's) option) \<Rightarrow> 'a option \<times> 's mutex" where
  "with_lock Poisoned f = (None, Poisoned)"
| "with_lock (Unlocked s) f =
     (case f s of None \<Rightarrow> (None, Poisoned) | Some (a, s') \<Rightarrow> (Some a, Unlocked s'))"

lemma with_lock_Some:
  "with_lock l f = (Some a, l') \<longleftrightarrow>
     (\<exists>s s'. l = Unlocked s \<and> f s = Some (a, s') \<and> l' = Unlocked s')"
  by (cases l) (auto split: option.splits prod.splits)

text \<open>A poisoned lock stays poisoned, whatever critical sections follow.\<close>

lemma with_lock_poisoned: "snd (with_lock Poisoned f) = Poisoned"
  by simp

subsection \<open>Event systems and invariants\<close>

inductive reach :: "'s \<Rightarrow> ('s \<Rightarrow> 'e \<Rightarrow> 's \<Rightarrow> bool) \<Rightarrow> 's \<Rightarrow> bool" for s0 step where
  reach_init: "reach s0 step s0"
| reach_step: "reach s0 step s \<Longrightarrow> step s e s' \<Longrightarrow> reach s0 step s'"

inductive trace :: "('s \<Rightarrow> 'e \<Rightarrow> 's \<Rightarrow> bool) \<Rightarrow> 's \<Rightarrow> 'e list \<Rightarrow> 's \<Rightarrow> bool" for step where
  trace_nil: "trace step s [] s"
| trace_cons: "step s e s' \<Longrightarrow> trace step s' es s'' \<Longrightarrow> trace step s (e # es) s''"

inductive_cases trace_nilE [elim!]: "trace step s [] t"
inductive_cases trace_consE [elim!]: "trace step s (e # es) t"

lemma trace_reach: "trace step s es t \<Longrightarrow> reach s0 step s \<Longrightarrow> reach s0 step t"
  by (induction rule: trace.induct) (auto intro: reach_step)

locale event_system =
  fixes start :: 's
    and step :: "'s \<Rightarrow> 'e \<Rightarrow> 's \<Rightarrow> bool"
    and inv :: "'s \<Rightarrow> bool"
  assumes inv_start: "inv start"
    and inv_step: "inv s \<Longrightarrow> step s e t \<Longrightarrow> inv t"
begin

lemma inv_reach: "reach start step s \<Longrightarrow> inv s"
  by (induction rule: reach.induct) (auto intro: inv_start inv_step)

lemma inv_trace: "trace step s es t \<Longrightarrow> inv s \<Longrightarrow> inv t"
  by (induction rule: trace.induct) (auto intro: inv_step)

end

end
