(* ===== verification/Net.thy ===== *)
theory Net
  imports Prelude
begin

text \<open>
  Network addresses: \<open>std::net::IpAddr\<close> with its octets or segments at their width, and
  \<open>SocketAddr\<close>. They are the keys of the admission, metrics and log-limiter tables.
\<close>

datatype IpAddr =
    V4 "8 word" "8 word" "8 word" "8 word"
  | V6 "16 word" "16 word" "16 word" "16 word" "16 word" "16 word" "16 word" "16 word"

record SocketAddr =
  ip :: IpAddr
  sock_port :: "16 word"

end
