(* ===== verification/Rust_Time.thy ===== *)
theory Rust_Time
  imports Prelude Complex_Main
begin

text \<open>
  The clock and the floating-point arithmetic of the Rust standard library, as far as
  narrowd uses them.

  \<^item> \<open>Duration\<close> is a number of nanoseconds, at most \<open>duration_max\<close>.
  \<^item> \<open>Instant\<close> is a number of nanoseconds on the monotonic clock. The range of
    representable instants depends on the platform: on Unix the seconds are a signed
    64-bit number, on Windows an instant is an unsigned \<open>Duration\<close> since the zero of the
    performance counter. Adding or subtracting a duration panics outside the range.
  \<^item> \<open>f64\<close> values are the rational numbers they denote; every operation rounds its
    exact result to 53 significant bits, ties to even (\<open>f64_round\<close>). The exponent is
    not bounded: the values the daemon computes lie between \<open>2 powi (-60)\<close> and
    \<open>2 powi 130\<close>, far inside the range of normal numbers.
\<close>

subsection \<open>Platforms, durations, instants\<close>

datatype platform = Unix | Windows

type_synonym duration = nat
type_synonym instant = int

definition nanos_per_sec :: nat where
  "nanos_per_sec = 1000000000"

definition u64_max :: nat where
  "u64_max = 2 ^ 64 - 1"

definition duration_max :: duration where
  "duration_max = u64_max * nanos_per_sec + (nanos_per_sec - 1)"

definition from_secs :: "nat \<Rightarrow> duration" where
  "from_secs n = n * nanos_per_sec"

definition from_millis :: "nat \<Rightarrow> duration" where
  "from_millis n = n * 1000000"

definition as_millis :: "duration \<Rightarrow> nat" where
  "as_millis d = d div 1000000"

fun instant_min :: "platform \<Rightarrow> instant" where
  "instant_min Unix = - (2 ^ 63) * 1000000000"
| "instant_min Windows = 0"

fun instant_max :: "platform \<Rightarrow> instant" where
  "instant_max Unix = 2 ^ 63 * 1000000000 - 1"
| "instant_max Windows = 2 ^ 64 * 1000000000 - 1"

definition instant_ok :: "platform \<Rightarrow> instant \<Rightarrow> bool" where
  "instant_ok p t \<longleftrightarrow> instant_min p \<le> t \<and> t \<le> instant_max p"

definition instant_add :: "platform \<Rightarrow> instant \<Rightarrow> duration \<Rightarrow> instant option" where
  "instant_add p t d = (if t + int d \<le> instant_max p then Some (t + int d) else None)"

definition instant_sub :: "platform \<Rightarrow> instant \<Rightarrow> duration \<Rightarrow> instant option" where
  "instant_sub p t d = (if instant_min p \<le> t - int d then Some (t - int d) else None)"

definition saturating_duration_since :: "instant \<Rightarrow> instant \<Rightarrow> duration" where
  "saturating_duration_since now earlier = nat (now - earlier)"

definition duration_saturating_mul :: "duration \<Rightarrow> nat \<Rightarrow> duration" where
  "duration_saturating_mul d n = min (d * n) duration_max"

definition saturating_add_max :: "nat \<Rightarrow> nat \<Rightarrow> nat \<Rightarrow> nat" where
  "saturating_add_max m a b = min (a + b) m"

lemma instant_add_eq_Some:
  "instant_add p t d = Some u \<longleftrightarrow> u = t + int d \<and> u \<le> instant_max p"
  by (auto simp: instant_add_def)

lemma instant_sub_eq_Some:
  "instant_sub p t d = Some u \<longleftrightarrow> u = t - int d \<and> instant_min p \<le> u"
  by (auto simp: instant_sub_def)

lemma saturating_duration_since_less:
  "saturating_duration_since now earlier < d \<longleftrightarrow> now - earlier < int d \<and> 0 < d"
  by (auto simp: saturating_duration_since_def)

text \<open>
  On Unix the clock starts near zero, so subtracting a window of up to \<open>2 ^ 63\<close> seconds
  and adding any duration that ends below \<open>2 ^ 63\<close> seconds stays in range.
\<close>

lemma instant_sub_unix:
  "0 \<le> t \<Longrightarrow> d \<le> 2 ^ 63 * nanos_per_sec \<Longrightarrow> instant_sub Unix t d = Some (t - int d)"
proof -
  assume t: "0 \<le> t" and d: "d \<le> 2 ^ 63 * nanos_per_sec"
  have "int d \<le> 2 ^ 63 * 1000000000"
    using d by (simp add: nanos_per_sec_def)
  with t show ?thesis by (simp add: instant_sub_def)
qed

subsection \<open>Rounding to 53 bits\<close>

text \<open>Round to the nearest integer, ties to the even one.\<close>

definition round_half_even :: "rat \<Rightarrow> int" where
  "round_half_even x =
     (let n = \<lfloor>x\<rfloor>; r = x - of_int n
      in if r < 1 / 2 then n
         else if 1 / 2 < r then n + 1
         else if even n then n else n + 1)"

lemma round_half_even_bounds:
  "\<lfloor>x\<rfloor> \<le> round_half_even x" "round_half_even x \<le> \<lfloor>x\<rfloor> + 1"
  by (auto simp: round_half_even_def Let_def)

lemma round_half_even_of_int [simp]: "round_half_even (of_int n) = n"
  by (simp add: round_half_even_def)

lemma round_half_even_mono: "x \<le> y \<Longrightarrow> round_half_even x \<le> round_half_even y"
proof (cases "\<lfloor>x\<rfloor> = \<lfloor>y\<rfloor>")
  case True
  assume "x \<le> y"
  with True show ?thesis by (auto simp: round_half_even_def Let_def)
next
  case False
  assume "x \<le> y"
  with False have "\<lfloor>x\<rfloor> + 1 \<le> \<lfloor>y\<rfloor>" by (meson floor_mono le_less zless_imp_add1_zle)
  with round_half_even_bounds [of x] round_half_even_bounds [of y] show ?thesis by linarith
qed

lemma round_half_even_error: "\<bar>of_int (round_half_even x) - x\<bar> \<le> 1 / 2"
proof -
  have "x - of_int \<lfloor>x\<rfloor> < 1" "0 \<le> x - of_int \<lfloor>x\<rfloor>"
    by linarith+
  then show ?thesis
    unfolding round_half_even_def Let_def abs_le_iff by (simp; linarith)
qed

text \<open>
  The binary exponent of a positive rational: \<open>2 powi e \<le> x < 2 powi (e + 1)\<close>. It is
  found from the bit lengths of numerator and denominator.
\<close>

fun bitlen :: "nat \<Rightarrow> nat" where
  "bitlen n = (if n = 0 then 0 else Suc (bitlen (n div 2)))"

declare bitlen.simps [simp del]

lemma bitlen_bounds: "0 < n \<Longrightarrow> 2 ^ (bitlen n - 1) \<le> n \<and> n < 2 ^ bitlen n \<and> 0 < bitlen n"
proof (induction n rule: bitlen.induct)
  case (1 n)
  show ?case
  proof (cases "n div 2 = 0")
    case True
    with "1.prems" have "n = 1" by simp
    then show ?thesis by (simp add: bitlen.simps)
  next
    case False
    let ?b = "bitlen (n div 2)"
    from False "1.IH" "1.prems" have IH: "2 ^ (?b - 1) \<le> n div 2" "n div 2 < 2 ^ ?b" "0 < ?b"
      by auto
    from IH(3) have "(2::nat) ^ ?b = 2 * 2 ^ (?b - 1)" by (cases ?b) auto
    with IH(1) have "2 ^ ?b \<le> n" by linarith
    moreover from IH(2) have "n < 2 * 2 ^ ?b" by linarith
    ultimately show ?thesis using "1.prems" by (simp add: bitlen.simps [of n])
  qed
qed

definition f64_exp :: "rat \<Rightarrow> int" where
  "f64_exp x =
     (let (a, b) = quotient_of x; n = int (bitlen (nat a)) - int (bitlen (nat b))
      in if 2 powi n \<le> x then n else n - 1)"

lemma f64_exp_bounds:
  assumes "0 < x"
  shows "2 powi f64_exp x \<le> x" and "x < 2 powi (f64_exp x + 1)"
proof -
  obtain a b where q: "quotient_of x = (a, b)" by (cases "quotient_of x")
  have b: "0 < b" using quotient_of_denom_pos [OF q] .
  have x: "x = of_int a / of_int b" using quotient_of_div [OF q] .
  with assms b have a: "0 < a" by (simp add: zero_less_divide_iff)
  define la lb where "la = bitlen (nat a)" and "lb = bitlen (nat b)"
  have A: "2 ^ (la - 1) \<le> a" "a < 2 ^ la" "0 < la"
    using bitlen_bounds [of "nat a"] a unfolding la_def by (auto simp: nat_less_iff le_nat_iff)
  have B: "2 ^ (lb - 1) \<le> b" "b < 2 ^ lb" "0 < lb"
    using bitlen_bounds [of "nat b"] b unfolding lb_def by (auto simp: nat_less_iff le_nat_iff)
  define n where "n = int la - int lb"
  have pa: "(2::rat) ^ (la - 1) \<le> of_int a" "of_int a < (2::rat) ^ la"
    using A by (metis of_int_le_iff of_int_numeral of_int_power,
                metis of_int_less_iff of_int_numeral of_int_power)
  have pb: "(2::rat) ^ (lb - 1) \<le> of_int b" "of_int b < (2::rat) ^ lb"
    using B by (metis of_int_le_iff of_int_numeral of_int_power,
                metis of_int_less_iff of_int_numeral of_int_power)
  have pn: "(2::rat) powi n = 2 ^ la / 2 ^ lb"
    by (simp add: n_def power_int_diff)
  have two: "(2::rat) ^ la = 2 * 2 ^ (la - 1)" "(2::rat) ^ lb = 2 * 2 ^ (lb - 1)"
    using A(3) B(3) by (simp_all add: power_eq_if [of _ la] power_eq_if [of _ lb])
  have up: "x < 2 powi (n + 1)"
  proof -
    have "x < 2 ^ la / 2 ^ (lb - 1)"
      unfolding x using pa pb a b by (intro frac_less) auto
    also have "\<dots> = 2 powi (n + 1)"
      using pn two(2) by (simp add: power_int_add)
    finally show ?thesis .
  qed
  have lo: "2 powi (n - 1) \<le> x"
  proof -
    have "2 powi (n - 1) = (2::rat) ^ (la - 1) / 2 ^ lb"
      using pn two(1) by (simp add: power_int_diff)
    also have "\<dots> \<le> x"
      unfolding x using pa pb a b by (intro frac_le) auto
    finally show ?thesis .
  qed
  have e: "f64_exp x = (if 2 powi n \<le> x then n else n - 1)"
    by (simp add: f64_exp_def q n_def la_def lb_def)
  show "2 powi f64_exp x \<le> x" using e lo by simp
  show "x < 2 powi (f64_exp x + 1)" using e up by (simp split: if_splits)
qed

lemma f64_exp_mono:
  assumes "0 < x" "x \<le> y"
  shows "f64_exp x \<le> f64_exp y"
proof (rule ccontr)
  assume "\<not> ?thesis"
  then have "f64_exp y + 1 \<le> f64_exp x" by simp
  then have "(2::rat) powi (f64_exp y + 1) \<le> 2 powi f64_exp x"
    by (intro power_int_increasing) auto
  with f64_exp_bounds(2) [of y] f64_exp_bounds(1) [of x] assms show False by linarith
qed

definition f64_round :: "rat \<Rightarrow> rat" where
  "f64_round x =
     (if x = 0 then 0
      else let q = 2 powi (f64_exp \<bar>x\<bar> - 52)
           in sgn x * (of_int (round_half_even (\<bar>x\<bar> / q)) * q))"

lemma f64_round_0 [simp]: "f64_round 0 = 0"
  by (simp add: f64_round_def)

lemma f64_round_pos:
  "0 < x \<Longrightarrow> f64_round x =
     of_int (round_half_even (x / 2 powi (f64_exp x - 52))) * 2 powi (f64_exp x - 52)"
  by (simp add: f64_round_def Let_def)

lemma f64_scaled_bounds:
  assumes "0 < x"
  shows "2 ^ 52 \<le> x / 2 powi (f64_exp x - 52)" and "x / 2 powi (f64_exp x - 52) < 2 ^ 53"
proof -
  let ?e = "f64_exp x" and ?q = "(2::rat) powi (f64_exp x - 52)"
  have q: "0 < ?q" by simp
  have p52: "2 powi ?e = 2 ^ 52 * ?q" by (simp add: power_int_diff)
  have p53: "2 powi (?e + 1) = 2 ^ 53 * ?q" by (simp add: power_int_diff power_int_add)
  show "2 ^ 52 \<le> x / ?q"
    using f64_exp_bounds(1) [OF assms] p52 q by (simp add: pos_le_divide_eq)
  show "x / ?q < 2 ^ 53"
    using f64_exp_bounds(2) [OF assms] p53 q by (simp add: pos_divide_less_eq)
qed

text \<open>Rounding never leaves the binade of its argument.\<close>

lemma f64_round_binade:
  assumes "0 < x"
  shows "2 powi f64_exp x \<le> f64_round x" and "f64_round x \<le> 2 powi (f64_exp x + 1)"
proof -
  let ?q = "(2::rat) powi (f64_exp x - 52)" and ?r = "round_half_even (x / 2 powi (f64_exp x - 52))"
  note b = f64_scaled_bounds [OF assms]
  have "round_half_even (of_int (2 ^ 52)) \<le> ?r"
    using b(1) by (intro round_half_even_mono) simp
  then have lo: "2 ^ 52 \<le> ?r" by (simp only: round_half_even_of_int)
  have "?r \<le> round_half_even (of_int (2 ^ 53))"
    using b(2) by (intro round_half_even_mono) simp
  then have hi: "?r \<le> 2 ^ 53" by (simp only: round_half_even_of_int)
  have "of_int (2 ^ 52) \<le> (of_int ?r :: rat)" "of_int ?r \<le> (of_int (2 ^ 53) :: rat)"
    using lo hi by (simp_all only: of_int_le_iff)
  then have r: "2 ^ 52 \<le> (of_int ?r :: rat)" "of_int ?r \<le> (2 ^ 53 :: rat)" by simp_all
  have "2 powi f64_exp x = (2 ^ 52) * ?q" by (simp add: power_int_diff)
  also have "\<dots> \<le> of_int ?r * ?q" by (rule mult_right_mono [OF r(1)]) simp
  finally show "2 powi f64_exp x \<le> f64_round x" using assms by (simp add: f64_round_pos)
  have "of_int ?r * ?q \<le> 2 ^ 53 * ?q" by (rule mult_right_mono [OF r(2)]) simp
  also have "\<dots> = 2 powi (f64_exp x + 1)" by (simp add: power_int_diff power_int_add)
  finally show "f64_round x \<le> 2 powi (f64_exp x + 1)" using assms by (simp add: f64_round_pos)
qed

lemma f64_round_nonneg: "0 \<le> x \<Longrightarrow> 0 \<le> f64_round x"
  using f64_round_binade(1) [of x] by (cases "x = 0") (auto intro: order_trans [rotated])

lemma f64_round_mono:
  assumes "0 \<le> x" "x \<le> y"
  shows "f64_round x \<le> f64_round y"
proof (cases "x = 0")
  case True
  with assms show ?thesis by (simp add: f64_round_nonneg)
next
  case False
  with assms have x: "0 < x" and y: "0 < y" by auto
  from f64_exp_mono [OF x assms(2)] consider
    (same) "f64_exp x = f64_exp y" | (less) "f64_exp x + 1 \<le> f64_exp y" by linarith
  then show ?thesis
  proof cases
    case same
    have "x / 2 powi (f64_exp y - 52) \<le> y / 2 powi (f64_exp y - 52)"
      using assms by (intro divide_right_mono) auto
    then show ?thesis
      using same by (simp add: f64_round_pos x y round_half_even_mono)
  next
    case less
    then have "(2::rat) powi (f64_exp x + 1) \<le> 2 powi f64_exp y"
      by (intro power_int_increasing) auto
    with f64_round_binade(2) [OF x] f64_round_binade(1) [OF y] show ?thesis by linarith
  qed
qed

text \<open>Rounding changes a value by at most one part in \<open>2 ^ 53\<close>.\<close>

lemma f64_round_error:
  assumes "0 \<le> x"
  shows "\<bar>f64_round x - x\<bar> \<le> x / 2 ^ 53"
proof (cases "x = 0")
  case False
  with assms have x: "0 < x" by simp
  let ?q = "(2::rat) powi (f64_exp x - 52)"
  have "\<bar>of_int (round_half_even (x / ?q)) * ?q - x\<bar> = \<bar>of_int (round_half_even (x / ?q)) - x / ?q\<bar> * ?q"
    by (simp add: abs_mult_pos left_diff_distrib)
  also have "\<dots> \<le> 1 / 2 * ?q"
    using round_half_even_error by (intro mult_right_mono) auto
  also have "\<dots> \<le> x / 2 ^ 53"
    using f64_scaled_bounds(1) [OF x] by (simp add: pos_le_divide_eq field_simps)
  finally show ?thesis using x by (simp add: f64_round_pos)
qed simp

text \<open>Integers up to \<open>2 ^ 53\<close> are exact.\<close>

lemma f64_round_of_nat:
  assumes "n \<le> 2 ^ 53"
  shows "f64_round (of_nat n) = of_nat n"
proof (cases "n = 0")
  case False
  let ?x = "of_nat n :: rat"
  have x: "0 < ?x" using False by simp
  have e: "f64_exp ?x \<le> 53"
  proof (rule ccontr)
    assume "\<not> f64_exp ?x \<le> 53"
    then have "(2::rat) powi 54 \<le> 2 powi f64_exp ?x" by (intro power_int_increasing) auto
    with f64_exp_bounds(1) [OF x] have "(2::rat) ^ 54 \<le> of_nat n" by simp
    with assms have "(2::rat) ^ 54 \<le> of_nat (2 ^ 53)"
      by (meson of_nat_le_iff order_trans)
    then show False by simp
  qed
  have "\<exists>m. ?x / 2 powi (f64_exp ?x - 52) = of_int m"
  proof (cases "f64_exp ?x \<le> 52")
    case True
    define k where "k = nat (52 - f64_exp ?x)"
    have "f64_exp ?x - 52 = - int k" using True by (simp add: k_def)
    then have "?x / 2 powi (f64_exp ?x - 52) = ?x * 2 ^ k"
      by (simp add: power_int_minus divide_inverse)
    also have "\<dots> = of_int (int n * 2 ^ k)" by simp
    finally show ?thesis by (rule exI)
  next
    case False
    with e have e53: "f64_exp ?x = 53" by linarith
    with f64_exp_bounds(1) [OF x] have "(2::rat) ^ 53 \<le> of_nat n" by simp
    then have "of_nat (2 ^ 53) \<le> (of_nat n :: rat)" by simp
    then have "2 ^ 53 \<le> n" by (simp only: of_nat_le_iff)
    with assms have "?x = 2 ^ 53" by simp
    with e53 have "?x / 2 powi (f64_exp ?x - 52) = of_int (2 ^ 52)" by simp
    then show ?thesis by (rule exI)
  qed
  then obtain m where m: "?x / 2 powi (f64_exp ?x - 52) = of_int m" ..
  then have "of_int m * 2 powi (f64_exp ?x - 52) = ?x" by (simp add: nonzero_divide_eq_eq)
  then show ?thesis by (simp only: f64_round_pos [OF x] m round_half_even_of_int)
qed simp

lemma f64_exp_unique:
  assumes "2 powi e \<le> x" "x < 2 powi (e + 1)"
  shows "f64_exp x = e"
proof -
  have x: "0 < x" using assms(1) by (rule less_le_trans [rotated]) simp
  note b = f64_exp_bounds [OF x]
  have "\<not> e + 1 \<le> f64_exp x"
  proof
    assume "e + 1 \<le> f64_exp x"
    then have "(2::rat) powi (e + 1) \<le> 2 powi f64_exp x" by (intro power_int_increasing) auto
    with b(1) assms(2) show False by linarith
  qed
  moreover have "\<not> f64_exp x + 1 \<le> e"
  proof
    assume "f64_exp x + 1 \<le> e"
    then have "(2::rat) powi (f64_exp x + 1) \<le> 2 powi e" by (intro power_int_increasing) auto
    with b(2) assms(1) show False by linarith
  qed
  ultimately show ?thesis by linarith
qed

text \<open>A rounded value is representable: rounding it again changes nothing.\<close>

lemma f64_round_idem:
  assumes "0 \<le> x"
  shows "f64_round (f64_round x) = f64_round x"
proof (cases "x = 0")
  case False
  with assms have x: "0 < x" by simp
  define e where "e = f64_exp x"
  define m where "m = round_half_even (x / 2 powi (e - 52))"
  have r: "f64_round x = of_int m * 2 powi (e - 52)"
    using x by (simp add: f64_round_pos e_def m_def)
  have lo: "2 powi e \<le> f64_round x" and hi: "f64_round x \<le> 2 powi (e + 1)"
    using f64_round_binade [OF x] by (simp_all add: e_def)
  have pos: "0 < f64_round x" using lo by (rule less_le_trans [rotated]) simp
  show ?thesis
  proof (cases "f64_round x = 2 powi (e + 1)")
    case True
    have e1: "f64_exp (f64_round x) = e + 1"
      unfolding True by (rule f64_exp_unique) (simp_all add: power_int_add)
    have "f64_round x / 2 powi (e + 1 - 52) = of_int (2 ^ 52)"
      unfolding True by (simp add: power_int_add power_int_diff)
    then show ?thesis
      by (simp only: f64_round_pos [OF pos] e1 round_half_even_of_int)
        (simp add: True power_int_add power_int_diff)
  next
    case False
    with hi have "f64_exp (f64_round x) = e" using lo by (intro f64_exp_unique) auto
    moreover have "f64_round x / 2 powi (e - 52) = of_int m" by (simp add: r)
    ultimately show ?thesis
      by (simp only: f64_round_pos [OF pos] round_half_even_of_int) (simp only: r)
  qed
qed simp

text \<open>
  The contract the token bucket relies on: a rounding that is monotone on non-negative
  values and exact on small integers.
\<close>

locale rounding =
  fixes rnd :: "rat \<Rightarrow> rat" and ulp :: rat
  assumes rnd_mono: "0 \<le> x \<Longrightarrow> x \<le> y \<Longrightarrow> rnd x \<le> rnd y"
    and rnd_nat: "n \<le> 2 ^ 53 \<Longrightarrow> rnd (of_nat n) = of_nat n"
    and rnd_err: "0 \<le> x \<Longrightarrow> \<bar>rnd x - x\<bar> \<le> x * ulp"
    and rnd_idem: "0 \<le> x \<Longrightarrow> rnd (rnd x) = rnd x"
begin

lemma rnd_zero: "rnd 0 = 0"
  using rnd_nat [of 0] by simp

lemma rnd_nonneg: "0 \<le> x \<Longrightarrow> 0 \<le> rnd x"
  using rnd_mono [of 0 x] by (simp add: rnd_zero)

lemma rnd_le_nat: "0 \<le> x \<Longrightarrow> x \<le> of_nat n \<Longrightarrow> n \<le> 2 ^ 53 \<Longrightarrow> rnd x \<le> of_nat n"
  using rnd_mono [of x "of_nat n"] by (simp add: rnd_nat)

lemma rnd_ge_nat: "of_nat n \<le> x \<Longrightarrow> n \<le> 2 ^ 53 \<Longrightarrow> of_nat n \<le> rnd x"
  using rnd_mono [of "of_nat n" x] by (simp add: rnd_nat)

text \<open>Spending from a balance below a representable limit stays below it.\<close>

lemma rnd_spend:
  assumes "1 \<le> x" "x \<le> rnd l" "0 \<le> l"
  shows "0 \<le> rnd (x - 1) \<and> rnd (x - 1) \<le> rnd l"
  using assms rnd_mono [of "x - 1" "rnd l"] by (simp add: rnd_nonneg rnd_idem)

lemma rnd_spend_nat:
  assumes "1 \<le> x" "x \<le> of_nat (Suc n)" "n \<le> 2 ^ 53"
  shows "rnd (x - 1) \<le> of_nat n"
  using assms by (intro rnd_le_nat) auto

lemma rnd_upper: "0 \<le> x \<Longrightarrow> rnd x \<le> x + x * ulp"
  using rnd_err [of x] by (simp add: abs_le_iff algebra_simps)

end

interpretation f64: rounding f64_round "1 / 2 ^ 53"
proof unfold_locales
  show "0 \<le> x \<Longrightarrow> x \<le> y \<Longrightarrow> f64_round x \<le> f64_round y" for x y
    by (rule f64_round_mono)
  show "n \<le> 2 ^ 53 \<Longrightarrow> f64_round (of_nat n) = of_nat n" for n
    by (rule f64_round_of_nat)
  show "0 \<le> x \<Longrightarrow> \<bar>f64_round x - x\<bar> \<le> x * (1 / 2 ^ 53)" for x
    using f64_round_error by simp
  show "0 \<le> x \<Longrightarrow> f64_round (f64_round x) = f64_round x" for x
    by (rule f64_round_idem)
qed

subsection \<open>Operations on f64\<close>

definition f64_of_nat :: "nat \<Rightarrow> rat" where
  "f64_of_nat n = f64_round (of_nat n)"

definition f64_add :: "rat \<Rightarrow> rat \<Rightarrow> rat" where
  "f64_add x y = f64_round (x + y)"

definition f64_sub :: "rat \<Rightarrow> rat \<Rightarrow> rat" where
  "f64_sub x y = f64_round (x - y)"

definition f64_mul :: "rat \<Rightarrow> rat \<Rightarrow> rat" where
  "f64_mul x y = f64_round (x * y)"

definition f64_div :: "rat \<Rightarrow> rat \<Rightarrow> rat" where
  "f64_div x y = f64_round (x / y)"

definition as_secs_f64 :: "duration \<Rightarrow> rat" where
  "as_secs_f64 d =
     f64_add (f64_of_nat (d div nanos_per_sec))
       (f64_div (f64_of_nat (d mod nanos_per_sec)) 1000000000)"

lemma f64_op_nonneg [simp]:
  "0 \<le> x \<Longrightarrow> 0 \<le> y \<Longrightarrow> 0 \<le> f64_add x y"
  "0 \<le> x \<Longrightarrow> 0 \<le> y \<Longrightarrow> 0 \<le> f64_mul x y"
  "0 \<le> x \<Longrightarrow> 0 \<le> y \<Longrightarrow> 0 \<le> f64_div x y"
  "y \<le> x \<Longrightarrow> 0 \<le> f64_sub x y"
  "0 \<le> f64_of_nat n"
  by (simp_all add: f64_add_def f64_mul_def f64_div_def f64_sub_def f64_of_nat_def f64.rnd_nonneg)

lemma as_secs_f64_nonneg [simp]: "0 \<le> as_secs_f64 d"
  by (simp add: as_secs_f64_def)

lemma as_secs_f64_0 [simp]: "as_secs_f64 0 = 0"
  by (simp add: as_secs_f64_def f64_add_def f64_div_def f64_of_nat_def)

end
