(* ===== verification/Admission.thy ===== *)
theory Admission
  imports Net Rust_Time
begin

text \<open>
  Connection admission (\<open>src/src/admission.rs\<close>): caps on unauthenticated connections
  (global, per address, per subnet), a token bucket per address, and temporary bans
  after repeated authentication failures.

  The state of \<open>AdmissionState\<close> is a record; every method is a function that returns the
  new state, and \<open>None\<close> when an \<open>Instant\<close> operation panics. The shared controller is a
  \<open>mutex\<close> around it. The specification side is the multiset of live guards, one per
  admitted connection that has not yet been released: \<open>adm_inv\<close> relates the counters
  to it, and the step relation \<open>adm_step\<close> drives both.
\<close>

subsection \<open>Configuration and data\<close>

record AdmissionConfig =
  cfg_max_global :: nat
  cfg_max_per_ip :: nat
  cfg_max_per_subnet :: nat
  cfg_per_minute :: nat
  cfg_burst :: nat
  cfg_ban_threshold :: nat
  cfg_ban_window :: duration
  cfg_ban_duration :: duration

datatype RejectReason =
    TooManyUnauthenticatedConnections
  | TooManyUnauthenticatedConnectionsForIp
  | TooManyUnauthenticatedConnectionsForSubnet
  | ConnectionRateLimited
  | TemporarilyBanned

fun reject_label :: "RejectReason \<Rightarrow> string" where
  "reject_label TooManyUnauthenticatedConnections = ''global unauthenticated connection limit reached''"
| "reject_label TooManyUnauthenticatedConnectionsForIp = ''per-IP unauthenticated connection limit reached''"
| "reject_label TooManyUnauthenticatedConnectionsForSubnet = ''per-subnet unauthenticated connection limit reached''"
| "reject_label ConnectionRateLimited = ''connection rate limited''"
| "reject_label TemporarilyBanned = ''peer temporarily banned after repeated authentication failures''"

fun reject_category :: "RejectReason \<Rightarrow> string" where
  "reject_category TooManyUnauthenticatedConnections = ''admission-global-limit''"
| "reject_category TooManyUnauthenticatedConnectionsForIp = ''admission-per-ip-limit''"
| "reject_category TooManyUnauthenticatedConnectionsForSubnet = ''admission-per-subnet-limit''"
| "reject_category ConnectionRateLimited = ''admission-rate-limit''"
| "reject_category TemporarilyBanned = ''admission-temporary-ban''"

record SubnetKey =
  addr :: IpAddr
  prefix_len :: "8 word"

fun subnet_key :: "IpAddr \<Rightarrow> SubnetKey" where
  "subnet_key (V4 a b c d) = \<lparr>addr = V4 a b c 0, prefix_len = 24\<rparr>"
| "subnet_key (V6 a b c d e f g h) = \<lparr>addr = V6 a b c d 0 0 0 0, prefix_len = 64\<rparr>"

record TokenBucket =
  tokens :: rat
  last_refill :: instant

record PeerState =
  peer_unauth :: nat
  auth_failures :: "instant list"
  banned_until :: "instant option"
  connection_bucket :: TokenBucket

record AdmissionState =
  config :: AdmissionConfig
  unauth :: nat
  per_subnet :: "(SubnetKey, nat) hmap"
  per_peer :: "(IpAddr, PeerState) hmap"
  last_peer_sweep :: instant

definition PEER_SWEEP_INTERVAL :: duration where
  "PEER_SWEEP_INTERVAL = from_secs 60"

definition admission_new :: "AdmissionConfig \<Rightarrow> instant \<Rightarrow> AdmissionState" where
  "admission_new c now =
     \<lparr>config = c, unauth = 0, per_subnet = [], per_peer = [], last_peer_sweep = now\<rparr>"

subsection \<open>Token bucket\<close>

definition bucket_new :: "nat \<Rightarrow> instant \<Rightarrow> TokenBucket" where
  "bucket_new burst_limit now = \<lparr>tokens = f64_of_nat burst_limit, last_refill = now\<rparr>"

definition refill :: "nat \<Rightarrow> nat \<Rightarrow> instant \<Rightarrow> TokenBucket \<Rightarrow> TokenBucket" where
  "refill limit_per_minute burst_limit now b =
     (let refill_rate_per_second = f64_div (f64_of_nat limit_per_minute) 60;
          elapsed = as_secs_f64 (saturating_duration_since now (last_refill b))
      in b\<lparr>tokens := min (f64_add (tokens b) (f64_mul elapsed refill_rate_per_second))
                        (f64_of_nat burst_limit),
           last_refill := now\<rparr>)"

definition try_consume :: "nat \<Rightarrow> nat \<Rightarrow> instant \<Rightarrow> TokenBucket \<Rightarrow> bool \<times> TokenBucket" where
  "try_consume limit_per_minute burst_limit now b =
     (let b' = refill limit_per_minute burst_limit now b
      in if 1 \<le> tokens b' then (True, b'\<lparr>tokens := f64_sub (tokens b') 1\<rparr>) else (False, b'))"

subsection \<open>Peers\<close>

fun prune_before :: "instant list \<Rightarrow> instant \<Rightarrow> instant list" where
  "prune_before [] oldest_allowed = []"
| "prune_before (v # vs) oldest_allowed =
     (if v < oldest_allowed then prune_before vs oldest_allowed else v # vs)"

definition peer_new :: "nat \<Rightarrow> instant \<Rightarrow> PeerState" where
  "peer_new burst_limit now =
     \<lparr>peer_unauth = 0, auth_failures = [], banned_until = None,
      connection_bucket = bucket_new burst_limit now\<rparr>"

definition is_banned :: "PeerState \<Rightarrow> instant \<Rightarrow> bool" where
  "is_banned peer now = (case banned_until peer of None \<Rightarrow> False | Some until \<Rightarrow> now < until)"

definition refresh_transient_state ::
    "platform \<Rightarrow> instant \<Rightarrow> duration \<Rightarrow> PeerState \<Rightarrow> PeerState option" where
  "refresh_transient_state p now window peer =
     (let peer' = (case banned_until peer of
                     None \<Rightarrow> peer
                   | Some until \<Rightarrow> if until \<le> now then peer\<lparr>banned_until := None\<rparr> else peer)
      in do {
        oldest \<leftarrow> instant_sub p now window;
        Some (peer'\<lparr>auth_failures := prune_before (auth_failures peer') oldest\<rparr>)
      })"

definition can_be_removed :: "PeerState \<Rightarrow> bool" where
  "can_be_removed peer \<longleftrightarrow>
     peer_unauth peer = 0 \<and> banned_until peer = None \<and> auth_failures peer = []"

subsection \<open>State operations\<close>

definition sweep_entry ::
    "platform \<Rightarrow> instant \<Rightarrow> duration \<Rightarrow> IpAddr \<Rightarrow> PeerState \<Rightarrow> PeerState option option" where
  "sweep_entry p now window k peer =
     do {
       peer' \<leftarrow> refresh_transient_state p now window peer;
       Some (if can_be_removed peer' then None else Some peer')
     }"

definition maybe_cleanup_peers :: "platform \<Rightarrow> instant \<Rightarrow> AdmissionState \<Rightarrow> AdmissionState option" where
  "maybe_cleanup_peers p now s =
     (if saturating_duration_since now (last_peer_sweep s) < PEER_SWEEP_INTERVAL then Some s
      else do {
        peers \<leftarrow> hm_retain (sweep_entry p now (cfg_ban_window (config s))) (per_peer s);
        Some (s\<lparr>per_peer := peers, last_peer_sweep := now\<rparr>)
      })"

definition cleanup_peer :: "platform \<Rightarrow> IpAddr \<Rightarrow> instant \<Rightarrow> AdmissionState \<Rightarrow> AdmissionState option" where
  "cleanup_peer p peer_ip now s =
     (case hm_get (per_peer s) peer_ip of
        None \<Rightarrow> Some s
      | Some peer \<Rightarrow> do {
          peer' \<leftarrow> refresh_transient_state p now (cfg_ban_window (config s)) peer;
          Some (if can_be_removed peer'
                then s\<lparr>per_peer := hm_remove peer_ip (per_peer s)\<rparr>
                else s\<lparr>per_peer := hm_insert peer_ip peer' (per_peer s)\<rparr>)
        })"

definition subnet_count :: "AdmissionState \<Rightarrow> SubnetKey \<Rightarrow> nat" where
  "subnet_count s k = (case hm_get (per_subnet s) k of None \<Rightarrow> 0 | Some n \<Rightarrow> n)"

definition entry_or_new :: "AdmissionState \<Rightarrow> IpAddr \<Rightarrow> instant \<Rightarrow> PeerState" where
  "entry_or_new s peer_ip now =
     (case hm_get (per_peer s) peer_ip of
        None \<Rightarrow> peer_new (cfg_burst (config s)) now
      | Some peer \<Rightarrow> peer)"

text \<open>The decisions and the update after the two clean-ups.\<close>

definition acquire_slot ::
    "IpAddr \<Rightarrow> SubnetKey \<Rightarrow> instant \<Rightarrow> AdmissionState \<Rightarrow> (RejectReason, unit) result \<times> AdmissionState" where
  "acquire_slot peer_ip subnet now s =
     (let c = config s; peer = hm_get (per_peer s) peer_ip in
      if (case peer of None \<Rightarrow> False | Some q \<Rightarrow> is_banned q now) then (Inl TemporarilyBanned, s)
      else if cfg_max_global c \<le> unauth s then (Inl TooManyUnauthenticatedConnections, s)
      else if (case peer of None \<Rightarrow> False | Some q \<Rightarrow> cfg_max_per_ip c \<le> peer_unauth q)
        then (Inl TooManyUnauthenticatedConnectionsForIp, s)
      else if cfg_max_per_subnet c \<le> subnet_count s subnet
        then (Inl TooManyUnauthenticatedConnectionsForSubnet, s)
      else
        let q = entry_or_new s peer_ip now;
            (granted, b) = try_consume (cfg_per_minute c) (cfg_burst c) now (connection_bucket q);
            q' = q\<lparr>connection_bucket := b\<rparr>
        in if \<not> granted
           then (Inl ConnectionRateLimited, s\<lparr>per_peer := hm_insert peer_ip q' (per_peer s)\<rparr>)
           else (Inr (),
                 s\<lparr>unauth := unauth s + 1,
                   per_peer := hm_insert peer_ip (q'\<lparr>peer_unauth := peer_unauth q' + 1\<rparr>) (per_peer s),
                   per_subnet := hm_insert subnet (subnet_count s subnet + 1) (per_subnet s)\<rparr>))"

definition try_acquire ::
    "platform \<Rightarrow> IpAddr \<Rightarrow> SubnetKey \<Rightarrow> instant \<Rightarrow> AdmissionState
       \<Rightarrow> ((RejectReason, unit) result \<times> AdmissionState) option" where
  "try_acquire p peer_ip subnet now s =
     do {
       s1 \<leftarrow> maybe_cleanup_peers p now s;
       s2 \<leftarrow> cleanup_peer p peer_ip now s1;
       Some (acquire_slot peer_ip subnet now s2)
     }"

text \<open>The failure is pushed, then counted against the threshold.\<close>

definition note_failure :: "platform \<Rightarrow> AdmissionConfig \<Rightarrow> instant \<Rightarrow> PeerState \<Rightarrow> (bool \<times> PeerState) option" where
  "note_failure p c now q =
     do {
       oldest \<leftarrow> instant_sub p now (cfg_ban_window c);
       let failures = prune_before (auth_failures q) oldest @ [now];
       if cfg_ban_threshold c \<le> length failures
       then do {
         until \<leftarrow> instant_add p now (cfg_ban_duration c);
         Some (True, q\<lparr>auth_failures := [], banned_until := Some until\<rparr>)
       }
       else Some (False, q\<lparr>auth_failures := failures\<rparr>)
     }"

definition record_auth_failure ::
    "platform \<Rightarrow> IpAddr \<Rightarrow> instant \<Rightarrow> AdmissionState \<Rightarrow> (bool \<times> AdmissionState) option" where
  "record_auth_failure p peer_ip now s =
     do {
       s1 \<leftarrow> maybe_cleanup_peers p now s;
       s2 \<leftarrow> cleanup_peer p peer_ip now s1;
       (banned, q) \<leftarrow> note_failure p (config s2) now (entry_or_new s2 peer_ip now);
       Some (banned, s2\<lparr>per_peer := hm_insert peer_ip q (per_peer s2)\<rparr>)
     }"

definition release_counts :: "IpAddr \<Rightarrow> SubnetKey \<Rightarrow> AdmissionState \<Rightarrow> AdmissionState" where
  "release_counts peer_ip subnet s =
     s\<lparr>unauth := (if 0 < unauth s then unauth s - 1 else unauth s),
       per_subnet :=
         (case hm_get (per_subnet s) subnet of
            None \<Rightarrow> per_subnet s
          | Some n \<Rightarrow> if 1 < n then hm_insert subnet (n - 1) (per_subnet s)
                     else hm_remove subnet (per_subnet s)),
       per_peer :=
         (case hm_get (per_peer s) peer_ip of
            None \<Rightarrow> per_peer s
          | Some q \<Rightarrow> if 0 < peer_unauth q
                     then hm_insert peer_ip (q\<lparr>peer_unauth := peer_unauth q - 1\<rparr>) (per_peer s)
                     else per_peer s)\<rparr>"

definition release ::
    "platform \<Rightarrow> IpAddr \<Rightarrow> SubnetKey \<Rightarrow> instant \<Rightarrow> AdmissionState \<Rightarrow> AdmissionState option" where
  "release p peer_ip subnet now s =
     do {
       s1 \<leftarrow> maybe_cleanup_peers p now s;
       cleanup_peer p peer_ip now (release_counts peer_ip subnet s1)
     }"

subsection \<open>The shared controller and the guards it hands out\<close>

type_synonym AdmissionController = "AdmissionState mutex"

record AdmissionGuard =
  guard_ip :: IpAddr
  guard_subnet :: SubnetKey
  released :: bool

definition controller_new :: "AdmissionConfig \<Rightarrow> instant \<Rightarrow> AdmissionController" where
  "controller_new c now = Unlocked (admission_new c now)"

definition try_acquire_at ::
    "platform \<Rightarrow> AdmissionController \<Rightarrow> IpAddr \<Rightarrow> instant
       \<Rightarrow> (RejectReason, AdmissionGuard) result option \<times> AdmissionController" where
  "try_acquire_at p ctl peer_ip now =
     (let subnet = subnet_key peer_ip;
          (r, ctl') = with_lock ctl (try_acquire p peer_ip subnet now)
      in (map_option (map_sum id (\<lambda>_. \<lparr>guard_ip = peer_ip, guard_subnet = subnet, released = False\<rparr>)) r,
          ctl'))"

definition record_auth_failure_at ::
    "platform \<Rightarrow> AdmissionController \<Rightarrow> IpAddr \<Rightarrow> instant \<Rightarrow> bool option \<times> AdmissionController" where
  "record_auth_failure_at p ctl peer_ip now = with_lock ctl (record_auth_failure p peer_ip now)"

definition controller_release ::
    "platform \<Rightarrow> AdmissionController \<Rightarrow> IpAddr \<Rightarrow> SubnetKey \<Rightarrow> instant
       \<Rightarrow> unit option \<times> AdmissionController" where
  "controller_release p ctl peer_ip subnet now =
     with_lock ctl (\<lambda>s. map_option (Pair ()) (release p peer_ip subnet now s))"

definition guard_release ::
    "platform \<Rightarrow> AdmissionController \<Rightarrow> AdmissionGuard \<Rightarrow> instant
       \<Rightarrow> AdmissionGuard option \<times> AdmissionController" where
  "guard_release p ctl g now =
     (if released g then (Some g, ctl)
      else let (r, ctl') = controller_release p ctl (guard_ip g) (guard_subnet g) now
           in (map_option (\<lambda>_. g\<lparr>released := True\<rparr>) r, ctl'))"

text \<open>
  \<open>mark_authenticated\<close> releases and then drops the guard; dropping alone releases. Each
  takes the clock readings of the two possible releases.
\<close>

definition guard_drop ::
    "platform \<Rightarrow> AdmissionController \<Rightarrow> AdmissionGuard \<Rightarrow> instant \<Rightarrow> unit option \<times> AdmissionController" where
  "guard_drop p ctl g now = (case guard_release p ctl g now of (r, ctl') \<Rightarrow> (map_option (\<lambda>_. ()) r, ctl'))"

definition mark_authenticated ::
    "platform \<Rightarrow> AdmissionController \<Rightarrow> AdmissionGuard \<Rightarrow> instant \<Rightarrow> instant
       \<Rightarrow> unit option \<times> AdmissionController" where
  "mark_authenticated p ctl g now now' =
     (case guard_release p ctl g now of
        (None, ctl') \<Rightarrow> (None, ctl')
      | (Some g', ctl') \<Rightarrow> guard_drop p ctl' g' now')"

subsection \<open>Token bucket: the balance stays between zero and the burst\<close>

definition bucket_ok :: "nat \<Rightarrow> TokenBucket \<Rightarrow> bool" where
  "bucket_ok burst b \<longleftrightarrow> 0 \<le> tokens b \<and> tokens b \<le> f64_of_nat burst"

lemma bucket_new_ok: "bucket_ok n (bucket_new n now)"
  by (simp add: bucket_ok_def bucket_new_def)

lemma refill_ok: "bucket_ok n b \<Longrightarrow> bucket_ok n (refill l n now b)"
  by (simp add: bucket_ok_def refill_def Let_def)

lemma try_consume_ok: "bucket_ok n b \<Longrightarrow> bucket_ok n (snd (try_consume l n now b))"
  using refill_ok [of n b l now] f64.rnd_spend [of "tokens (refill l n now b)" "of_nat n"]
  by (simp add: try_consume_def Let_def bucket_ok_def f64_of_nat_def f64_sub_def)

text \<open>A grant costs one token: below a whole number of tokens, the number decreases.\<close>

lemma try_consume_spends:
  assumes "try_consume l n now b = (True, b')" "bucket_ok n b"
    and "tokens (refill l n now b) \<le> of_nat (Suc k)" "k \<le> 2 ^ 53"
  shows "tokens b' \<le> of_nat k"
  using assms f64.rnd_spend_nat [of "tokens (refill l n now b)" k]
  by (auto simp: try_consume_def Let_def f64_sub_def split: if_splits)

text \<open>At the instant of the last refill the balance is not raised.\<close>

lemma refill_same_instant:
  assumes "last_refill b = now" "bucket_ok n b"
  shows "tokens (refill l n now b) = min (f64_round (tokens b)) (f64_of_nat n)"
  using assms by (simp add: refill_def Let_def saturating_duration_since_def f64_add_def f64_mul_def)

lemma try_consume_last_refill [simp]: "last_refill (snd (try_consume l n now b)) = now"
  by (simp add: try_consume_def refill_def Let_def)

subsection \<open>Clean-up keeps what matters\<close>

lemma prune_before_length: "length (prune_before vs t) \<le> length vs"
  by (induction vs t rule: prune_before.induct) auto

lemma prune_before_eq: "prune_before vs t = dropWhile (\<lambda>v. v < t) vs"
  by (induction vs t rule: prune_before.induct) auto

lemma prune_before_sorted:
  "sorted vs \<Longrightarrow> prune_before vs t = filter (\<lambda>v. t \<le> v) vs"
  by (induction vs t rule: prune_before.induct) (auto intro!: filter_True [symmetric])

lemma refresh_Some:
  "refresh_transient_state p now w q = Some q' \<longleftrightarrow>
     instant_min p \<le> now - int w \<and>
     q' = q\<lparr>banned_until := (if is_banned q now then banned_until q else None),
            auth_failures := prune_before (auth_failures q) (now - int w)\<rparr>"
  by (cases q) (auto simp: refresh_transient_state_def Let_def is_banned_def instant_sub_def
      split: option.splits if_splits)

lemma refresh_frame:
  assumes "refresh_transient_state p now w q = Some q'"
  shows "peer_unauth q' = peer_unauth q" "connection_bucket q' = connection_bucket q"
    "length (auth_failures q') \<le> length (auth_failures q)"
    "banned_until q' = (if is_banned q now then banned_until q else None)"
  using assms by (auto simp: refresh_Some prune_before_length)

definition peer_count :: "AdmissionState \<Rightarrow> IpAddr \<Rightarrow> nat" where
  "peer_count s i = (case hm_get (per_peer s) i of None \<Rightarrow> 0 | Some q \<Rightarrow> peer_unauth q)"

text \<open>
  Both clean-ups only touch the peer table: an entry is refreshed, and dropped when
  nothing of it is left.
\<close>

definition refreshed :: "platform \<Rightarrow> duration \<Rightarrow> instant \<Rightarrow> PeerState \<Rightarrow> PeerState option \<Rightarrow> bool" where
  "refreshed p w now q r \<longleftrightarrow>
     (\<exists>q'. refresh_transient_state p now w q = Some q' \<and> r = (if can_be_removed q' then None else Some q'))"

lemma maybe_cleanup_peers_Some:
  assumes "maybe_cleanup_peers p now s = Some s'" "hm_wf (per_peer s)"
  obtains m t where "s' = s\<lparr>per_peer := m, last_peer_sweep := t\<rparr>" "hm_wf m"
    "\<And>i. hm_get m i = hm_get (per_peer s) i \<or>
         (\<exists>q. hm_get (per_peer s) i = Some q \<and> refreshed p (cfg_ban_window (config s)) now q (hm_get m i))"
proof (cases "saturating_duration_since now (last_peer_sweep s) < PEER_SWEEP_INTERVAL")
  case True
  with assms that [where m = "per_peer s" and t = "last_peer_sweep s"] show ?thesis
    by (simp add: maybe_cleanup_peers_def)
next
  case False
  let ?f = "sweep_entry p now (cfg_ban_window (config s))"
  from assms(1) False obtain m where m: "hm_retain ?f (per_peer s) = Some m"
    and s': "s' = s\<lparr>per_peer := m, last_peer_sweep := now\<rparr>"
    by (auto simp: maybe_cleanup_peers_def bind_eq_Some_conv)
  have tot: "?f i q \<noteq> None" if "hm_get (per_peer s) i = Some q" for i q
    using hm_retain_defined [OF m] that by (blast dest: hm_get_in_set)
  have "hm_get m i = hm_get (per_peer s) i \<or>
      (\<exists>q. hm_get (per_peer s) i = Some q \<and> refreshed p (cfg_ban_window (config s)) now q (hm_get m i))" for i
    using hm_retain_get [OF m assms(2), of i] tot [of i]
    by (cases "hm_get (per_peer s) i")
      (auto simp: refreshed_def sweep_entry_def bind_eq_None_conv bind_eq_Some_conv)
  with that [OF s' hm_retain_wf [OF m assms(2)]] show ?thesis by blast
qed

lemma cleanup_peer_Some:
  assumes "cleanup_peer p i now s = Some s'" "hm_wf (per_peer s)"
  obtains m where "s' = s\<lparr>per_peer := m\<rparr>" "hm_wf m"
    "\<And>j. j \<noteq> i \<Longrightarrow> hm_get m j = hm_get (per_peer s) j"
    "hm_get (per_peer s) i = None \<Longrightarrow> hm_get m i = None"
    "\<And>q. hm_get (per_peer s) i = Some q \<Longrightarrow> refreshed p (cfg_ban_window (config s)) now q (hm_get m i)"
proof (cases "hm_get (per_peer s) i")
  case None
  with assms that [of "per_peer s"] show ?thesis by (simp add: cleanup_peer_def)
next
  case (Some q)
  with assms(1) obtain q' where q': "refresh_transient_state p now (cfg_ban_window (config s)) q = Some q'"
    and s': "s' = s\<lparr>per_peer := (if can_be_removed q' then hm_remove i (per_peer s) else hm_insert i q' (per_peer s))\<rparr>"
    by (auto simp: cleanup_peer_def bind_eq_Some_conv)
  from s' assms(2) Some q' show ?thesis
    by (intro that [where m = "per_peer s'"]) (auto simp: refreshed_def)
qed

subsection \<open>Counters and live guards\<close>

type_synonym adm_sys = "AdmissionState \<times> IpAddr multiset"

definition peer_ok :: "AdmissionConfig \<Rightarrow> PeerState \<Rightarrow> bool" where
  "peer_ok c q \<longleftrightarrow>
     bucket_ok (cfg_burst c) (connection_bucket q) \<and>
     length (auth_failures q) < max 1 (cfg_ban_threshold c) \<and>
     peer_unauth q \<le> max 1 (cfg_max_per_ip c)"

definition adm_counts :: "AdmissionState \<Rightarrow> IpAddr multiset \<Rightarrow> bool" where
  "adm_counts s G \<longleftrightarrow>
     unauth s = size G \<and>
     (\<forall>i. peer_count s i = count G i) \<and>
     (\<forall>k. subnet_count s k = size (filter_mset (\<lambda>i. subnet_key i = k) G)) \<and>
     (\<forall>k n. hm_get (per_subnet s) k = Some n \<longrightarrow> 0 < n)"

definition adm_caps :: "AdmissionState \<Rightarrow> bool" where
  "adm_caps s \<longleftrightarrow>
     unauth s \<le> cfg_max_global (config s) \<and>
     (\<forall>k. subnet_count s k \<le> cfg_max_per_subnet (config s)) \<and>
     (\<forall>i q. hm_get (per_peer s) i = Some q \<longrightarrow> peer_ok (config s) q)"

definition adm_inv :: "AdmissionConfig \<Rightarrow> adm_sys \<Rightarrow> bool" where
  "adm_inv c = (\<lambda>(s, G).
     config s = c \<and> hm_wf (per_peer s) \<and> hm_wf (per_subnet s) \<and> adm_counts s G \<and> adm_caps s)"

datatype adm_event = Acquire IpAddr instant | Failure IpAddr instant | Release IpAddr instant

inductive adm_step :: "platform \<Rightarrow> adm_sys \<Rightarrow> adm_event \<Rightarrow> adm_sys \<Rightarrow> bool" for p where
  admit: "try_acquire p i (subnet_key i) now s = Some (Inr (), s') \<Longrightarrow>
     adm_step p (s, G) (Acquire i now) (s', add_mset i G)"
| reject: "try_acquire p i (subnet_key i) now s = Some (Inl r, s') \<Longrightarrow>
     adm_step p (s, G) (Acquire i now) (s', G)"
| failure: "record_auth_failure p i now s = Some (b, s') \<Longrightarrow>
     adm_step p (s, G) (Failure i now) (s', G)"
| release_guard: "i \<in># G \<Longrightarrow> release p i (subnet_key i) now s = Some s' \<Longrightarrow>
     adm_step p (s, G) (Release i now) (s', G - {#i#})"

inductive_cases adm_step_AcquireE: "adm_step p (s, G) (Acquire i now) t"
inductive_cases adm_step_FailureE: "adm_step p (s, G) (Failure i now) t"
inductive_cases adm_step_ReleaseE: "adm_step p (s, G) (Release i now) t"

lemma subnet_count_frame [simp]:
  "subnet_count (s\<lparr>per_peer := m\<rparr>) k = subnet_count s k"
  "subnet_count (s\<lparr>per_peer := m, last_peer_sweep := t\<rparr>) k = subnet_count s k"
  by (simp_all add: subnet_count_def)

text \<open>Refreshing an entry, or dropping a dead one, changes no count and no bound.\<close>

lemma refreshed_count:
  "refreshed p w now q r \<Longrightarrow> (case r of None \<Rightarrow> 0 | Some q' \<Rightarrow> peer_unauth q') = peer_unauth q"
  by (auto simp: refreshed_def can_be_removed_def dest: refresh_frame(1))

lemma refreshed_ok: "refreshed p w now q (Some q') \<Longrightarrow> peer_ok c q \<Longrightarrow> peer_ok c q'"
  by (auto simp: refreshed_def peer_ok_def split: if_splits dest: refresh_frame)

text \<open>The peer table after a clean-up: every entry is the old one or its refreshed form.\<close>

lemma adm_inv_peer_update:
  assumes inv: "adm_inv c (s, G)" and wf: "hm_wf m"
    and upd: "\<And>i. hm_get m i = hm_get (per_peer s) i \<or>
         (\<exists>q. hm_get (per_peer s) i = Some q \<and> refreshed p w now q (hm_get m i))"
    and s': "s' = s\<lparr>per_peer := m\<rparr> \<or> s' = s\<lparr>per_peer := m, last_peer_sweep := t\<rparr>"
  shows "adm_inv c (s', G)"
proof -
  have count: "peer_count s' i = peer_count s i" for i
    using upd [of i] refreshed_count s' by (auto simp: peer_count_def)
  have ok: "peer_ok c q'" if "hm_get (per_peer s') i = Some q'" for i q'
    using upd [of i] that s' inv
    by (auto simp: adm_inv_def adm_caps_def intro: refreshed_ok)
  from inv wf count ok s' show ?thesis
    by (auto simp: adm_inv_def adm_counts_def adm_caps_def)
qed

lemma maybe_cleanup_peers_inv:
  assumes "adm_inv c (s, G)" "maybe_cleanup_peers p now s = Some s'"
  shows "adm_inv c (s', G)"
proof -
  have "hm_wf (per_peer s)" using assms(1) by (simp add: adm_inv_def)
  then show ?thesis
    by (rule maybe_cleanup_peers_Some [OF assms(2)])
      (rule adm_inv_peer_update [OF assms(1)], auto)
qed

lemma cleanup_peer_inv:
  assumes "adm_inv c (s, G)" "cleanup_peer p i now s = Some s'"
  shows "adm_inv c (s', G)"
proof -
  have "hm_wf (per_peer s)" using assms(1) by (simp add: adm_inv_def)
  from cleanup_peer_Some [OF assms(2) this] obtain m where m: "s' = s\<lparr>per_peer := m\<rparr>" "hm_wf m"
    "\<And>j. j \<noteq> i \<Longrightarrow> hm_get m j = hm_get (per_peer s) j"
    "hm_get (per_peer s) i = None \<Longrightarrow> hm_get m i = None"
    "\<And>q. hm_get (per_peer s) i = Some q \<Longrightarrow> refreshed p (cfg_ban_window (config s)) now q (hm_get m i)"
    by blast
  have "hm_get m j = hm_get (per_peer s) j \<or>
      (\<exists>q. hm_get (per_peer s) j = Some q \<and> refreshed p (cfg_ban_window (config s)) now q (hm_get m j))" for j
    using m(3-5) by (cases "hm_get (per_peer s) j"; cases "j = i") auto
  with adm_inv_peer_update [OF assms(1) m(2)] m(1) show ?thesis by blast
qed

lemma peer_new_ok: "peer_ok c (peer_new (cfg_burst c) now)"
  by (simp add: peer_ok_def peer_new_def bucket_new_ok)

lemma entry_or_new_ok: "adm_inv c (s, G) \<Longrightarrow> peer_ok c (entry_or_new s i now)"
  by (auto simp: entry_or_new_def adm_inv_def adm_caps_def peer_new_ok split: option.splits)

lemma entry_or_new_count: "peer_unauth (entry_or_new s i now) = peer_count s i"
  by (auto simp: entry_or_new_def peer_count_def peer_new_def split: option.splits)

text \<open>Replacing one entry by a well-formed one with the same connection count.\<close>

lemma adm_inv_put_peer:
  assumes "adm_inv c (s, G)" "peer_ok c q" "peer_unauth q = peer_count s i"
  shows "adm_inv c (s\<lparr>per_peer := hm_insert i q (per_peer s)\<rparr>, G)"
  using assms
  by (auto simp: adm_inv_def adm_counts_def adm_caps_def peer_count_def)

lemma acquire_slot_cases:
  assumes "acquire_slot i k now s = (r, s')"
  obtains (cap) "s' = s" "r \<noteq> Inr ()" "r \<noteq> Inl ConnectionRateLimited"
  | (rate) q b where "r = Inl ConnectionRateLimited" "q = entry_or_new s i now"
      "try_consume (cfg_per_minute (config s)) (cfg_burst (config s)) now (connection_bucket q) = (False, b)"
      "s' = s\<lparr>per_peer := hm_insert i (q\<lparr>connection_bucket := b\<rparr>) (per_peer s)\<rparr>"
  | (grant) q b where "r = Inr ()" "q = entry_or_new s i now"
      "try_consume (cfg_per_minute (config s)) (cfg_burst (config s)) now (connection_bucket q) = (True, b)"
      "\<not> is_banned q now"
      "unauth s < cfg_max_global (config s)" "subnet_count s k < cfg_max_per_subnet (config s)"
      "peer_count s i < max 1 (cfg_max_per_ip (config s))"
      "s' = s\<lparr>unauth := unauth s + 1,
              per_peer := hm_insert i (q\<lparr>connection_bucket := b, peer_unauth := peer_unauth q + 1\<rparr>) (per_peer s),
              per_subnet := hm_insert k (subnet_count s k + 1) (per_subnet s)\<rparr>"
proof (cases "r")
  case (Inl e)
  show ?thesis
  proof (cases "e = ConnectionRateLimited")
    case True
    with Inl assms show ?thesis
      by (intro rate [of "entry_or_new s i now" "snd (try_consume (cfg_per_minute (config s))
            (cfg_burst (config s)) now (connection_bucket (entry_or_new s i now)))"])
        (auto simp: acquire_slot_def Let_def split: if_splits option.splits prod.splits)
  next
    case False
    with Inl assms show ?thesis
      by (intro cap) (auto simp: acquire_slot_def Let_def split: if_splits option.splits prod.splits)
  qed
next
  case (Inr u)
  let ?t = "try_consume (cfg_per_minute (config s)) (cfg_burst (config s)) now
      (connection_bucket (entry_or_new s i now))"
  from Inr assms obtain b where "?t = (True, b)"
    by (auto simp: acquire_slot_def Let_def split: if_splits prod.splits)
  with Inr assms show ?thesis
    by (intro grant [of "entry_or_new s i now" b])
      (auto simp: acquire_slot_def Let_def peer_count_def entry_or_new_def peer_new_def is_banned_def
        split: if_splits option.splits)
qed

lemma acquire_slot_inv:
  assumes inv: "adm_inv c (s, G)" and acq: "acquire_slot i (subnet_key i) now s = (r, s')"
  shows "adm_inv c (s', if r = Inr () then add_mset i G else G)"
  using acq
proof (cases rule: acquire_slot_cases)
  case cap
  with inv show ?thesis by simp
next
  case (rate q b)
  have "peer_ok c (q\<lparr>connection_bucket := b\<rparr>)"
    using entry_or_new_ok [OF inv, of i now] rate inv
      try_consume_ok [of "cfg_burst c" "connection_bucket q" "cfg_per_minute c" now]
    by (simp add: peer_ok_def adm_inv_def)
  then show ?thesis
    using adm_inv_put_peer [OF inv] rate by (simp add: entry_or_new_count)
next
  case (grant q b)
  have cfg: "config s = c" using inv by (simp add: adm_inv_def)
  have "bucket_ok (cfg_burst c) b"
    using entry_or_new_ok [OF inv, of i now] grant(2,3) cfg
      try_consume_ok [of "cfg_burst c" "connection_bucket q" "cfg_per_minute c" now]
    by (simp add: peer_ok_def)
  then have ok: "peer_ok c (q\<lparr>connection_bucket := b, peer_unauth := peer_unauth q + 1\<rparr>)"
    using entry_or_new_ok [OF inv, of i now] grant(2,7) cfg
    by (simp add: peer_ok_def entry_or_new_count)
  have "peer_count s' j = count (add_mset i G) j" for j
    using inv grant(2,8)
    by (auto simp: peer_count_def adm_inv_def adm_counts_def entry_or_new_count split: if_splits)
  moreover have "subnet_count s' k = size (filter_mset (\<lambda>j. subnet_key j = k) (add_mset i G))" for k
    using inv grant(8) by (auto simp: subnet_count_def adm_inv_def adm_counts_def)
  ultimately show ?thesis
    using inv grant(1,5,6,8) ok cfg
    by (auto simp: adm_inv_def adm_counts_def adm_caps_def subnet_count_def)
qed

lemma note_failure_Some:
  assumes "note_failure p c now q = Some (b, q')"
  shows "peer_unauth q' = peer_unauth q" "connection_bucket q' = connection_bucket q"
    "length (auth_failures q') < max 1 (cfg_ban_threshold c)"
  using assms by (auto simp: note_failure_def bind_eq_Some_conv Let_def split: if_splits)

lemma note_failure_ok:
  "note_failure p c now q = Some (b, q') \<Longrightarrow> peer_ok c q \<Longrightarrow> peer_ok c q'"
  using note_failure_Some [of p c now q b q'] by (auto simp: peer_ok_def)

lemma record_auth_failure_inv:
  assumes "adm_inv c (s, G)" "record_auth_failure p i now s = Some (b, s')"
  shows "adm_inv c (s', G)"
proof -
  from assms(2) obtain s1 s2 q where s1: "maybe_cleanup_peers p now s = Some s1"
    and s2: "cleanup_peer p i now s1 = Some s2"
    and q: "note_failure p (config s2) now (entry_or_new s2 i now) = Some (b, q)"
    and s': "s' = s2\<lparr>per_peer := hm_insert i q (per_peer s2)\<rparr>"
    by (auto simp: record_auth_failure_def bind_eq_Some_conv)
  have inv2: "adm_inv c (s2, G)"
    by (rule cleanup_peer_inv [OF maybe_cleanup_peers_inv [OF assms(1) s1] s2])
  have "config s2 = c" using inv2 by (simp add: adm_inv_def)
  with q entry_or_new_ok [OF inv2] have "peer_ok c q" by (auto intro: note_failure_ok)
  with adm_inv_put_peer [OF inv2] note_failure_Some(1) [OF q] s' show ?thesis
    by (simp add: entry_or_new_count)
qed

lemma release_counts_inv:
  assumes inv: "adm_inv c (s, G)" and i: "i \<in># G"
  shows "adm_inv c (release_counts i (subnet_key i) s, G - {#i#})"
proof -
  let ?s = "release_counts i (subnet_key i) s" and ?k = "subnet_key i"
  have "G \<noteq> {#}" "filter_mset (\<lambda>j. subnet_key j = ?k) G \<noteq> {#}"
    using i by (auto simp: filter_mset_eq_mempty_iff)
  then have "0 < size G" "0 < size (filter_mset (\<lambda>j. subnet_key j = ?k) G)" "0 < count G i"
    using i by (simp_all only: nonempty_has_size count_greater_zero_iff)
  with inv have pos: "0 < unauth s" "0 < peer_count s i" "0 < subnet_count s ?k"
    by (simp_all add: adm_inv_def adm_counts_def)
  from pos(2) obtain q where q: "hm_get (per_peer s) i = Some q" "0 < peer_unauth q"
    by (auto simp: peer_count_def split: option.splits)
  from pos(3) obtain n where n: "hm_get (per_subnet s) ?k = Some n" "0 < n"
    by (auto simp: subnet_count_def split: option.splits)
  have peer: "peer_count ?s j = count (G - {#i#}) j" for j
    using inv q by (auto simp: peer_count_def release_counts_def adm_inv_def adm_counts_def
        split: option.splits if_splits)
  have "filter_mset (\<lambda>j. subnet_key j = k) (G - {#i#}) =
      filter_mset (\<lambda>j. subnet_key j = k) G - (if k = ?k then {#i#} else {#})" for k
    by (auto simp: filter_diff_mset)
  then have sub: "subnet_count ?s k = size (filter_mset (\<lambda>j. subnet_key j = k) (G - {#i#}))" for k
    using inv n i by (auto simp: subnet_count_def release_counts_def adm_inv_def adm_counts_def
        size_Diff_singleton_if split: option.splits if_splits)
  have fields: "unauth ?s = unauth s - 1" "config ?s = config s"
    "per_peer ?s = hm_insert i (q\<lparr>peer_unauth := peer_unauth q - 1\<rparr>) (per_peer s)"
    "per_subnet ?s = (if 1 < n then hm_insert ?k (n - 1) (per_subnet s) else hm_remove ?k (per_subnet s))"
    using pos q n by (simp_all add: release_counts_def)
  have "adm_counts ?s (G - {#i#})"
    unfolding adm_counts_def
    using inv i fields(1,4) peer sub
    by (auto simp: adm_inv_def adm_counts_def size_Diff_singleton split: if_splits)
  moreover have "adm_caps ?s"
  proof -
    have "subnet_count ?s k \<le> subnet_count s k" for k
      using fields(4) n by (auto simp: subnet_count_def)
    then have "subnet_count ?s k \<le> cfg_max_per_subnet c" for k
      using inv by (force simp: adm_inv_def adm_caps_def intro: order_trans)
    moreover have "peer_ok c q" using inv q by (auto simp: adm_inv_def adm_caps_def)
    then have "peer_ok c (q\<lparr>peer_unauth := peer_unauth q - 1\<rparr>)" by (auto simp: peer_ok_def)
    then have "peer_ok c q'" if "hm_get (per_peer ?s) j = Some q'" for j q'
      using that inv fields(3) by (auto simp: adm_inv_def adm_caps_def split: if_splits)
    ultimately show ?thesis
      using inv fields(1,2) by (auto simp: adm_inv_def adm_caps_def)
  qed
  ultimately show ?thesis
    using inv fields by (auto simp: adm_inv_def)
qed

lemma release_inv:
  assumes "adm_inv c (s, G)" "i \<in># G" "release p i (subnet_key i) now s = Some s'"
  shows "adm_inv c (s', G - {#i#})"
proof -
  from assms(3) obtain s1 where s1: "maybe_cleanup_peers p now s = Some s1"
    and s': "cleanup_peer p i now (release_counts i (subnet_key i) s1) = Some s'"
    by (auto simp: release_def bind_eq_Some_conv)
  from release_counts_inv [OF maybe_cleanup_peers_inv [OF assms(1) s1] assms(2)] s'
  show ?thesis by (rule cleanup_peer_inv)
qed

lemma try_acquire_inv:
  assumes "adm_inv c (s, G)" "try_acquire p i (subnet_key i) now s = Some (r, s')"
  shows "adm_inv c (s', if r = Inr () then add_mset i G else G)"
proof -
  from assms(2) obtain s1 s2 where s1: "maybe_cleanup_peers p now s = Some s1"
    and s2: "cleanup_peer p i now s1 = Some s2"
    and acq: "acquire_slot i (subnet_key i) now s2 = (r, s')"
    by (auto simp: try_acquire_def bind_eq_Some_conv)
  show ?thesis
    by (rule acquire_slot_inv [OF cleanup_peer_inv [OF maybe_cleanup_peers_inv [OF assms(1) s1] s2] acq])
qed

lemma admission_new_inv: "adm_inv c (admission_new c now, {#})"
  by (simp add: adm_inv_def adm_counts_def adm_caps_def admission_new_def peer_count_def subnet_count_def)

lemma adm_step_inv: "adm_inv c sys \<Longrightarrow> adm_step p sys e sys' \<Longrightarrow> adm_inv c sys'"
  by (erule adm_step.cases)
    (force dest: try_acquire_inv record_auth_failure_inv release_inv)+

interpretation adm: event_system "(admission_new c t0, {#})" "adm_step p" "adm_inv c" for c t0 p
  by unfold_locales (rule admission_new_inv, rule adm_step_inv)

subsection \<open>The state after both clean-ups\<close>

definition refresh_entry :: "duration \<Rightarrow> instant \<Rightarrow> PeerState \<Rightarrow> PeerState option" where
  "refresh_entry w now q =
     (let q' = q\<lparr>banned_until := (if is_banned q now then banned_until q else None),
                  auth_failures := prune_before (auth_failures q) (now - int w)\<rparr>
      in if can_be_removed q' then None else Some q')"

definition cleanup_both :: "platform \<Rightarrow> IpAddr \<Rightarrow> instant \<Rightarrow> AdmissionState \<Rightarrow> AdmissionState option" where
  "cleanup_both p i now s = Option.bind (maybe_cleanup_peers p now s) (cleanup_peer p i now)"

lemma try_acquire_cleanup:
  "try_acquire p i k now s = map_option (acquire_slot i k now) (cleanup_both p i now s)"
  by (simp add: try_acquire_def cleanup_both_def map_option_bind)
    (auto simp: bind_eq_Some_conv split: Option.bind_splits)

lemma record_auth_failure_cleanup:
  "record_auth_failure p i now s =
     do {
       s2 \<leftarrow> cleanup_both p i now s;
       (banned, q) \<leftarrow> note_failure p (config s2) now (entry_or_new s2 i now);
       Some (banned, s2\<lparr>per_peer := hm_insert i q (per_peer s2)\<rparr>)
     }"
  by (auto simp: record_auth_failure_def cleanup_both_def split: Option.bind_splits)

lemma refreshed_eq: "refreshed p w now q r \<Longrightarrow> r = refresh_entry w now q"
  by (auto simp: refreshed_def refresh_Some refresh_entry_def Let_def)

lemma prune_before_idem [simp]: "prune_before (prune_before vs t) t = prune_before vs t"
  by (induction vs t rule: prune_before.induct) auto

lemma refresh_entry_idem: "refresh_entry w now q = Some q' \<Longrightarrow> refresh_entry w now q' = Some q'"
  by (auto simp: refresh_entry_def Let_def can_be_removed_def is_banned_def split: if_splits option.splits)

text \<open>
  The entry of the peer itself is refreshed (and dropped when dead), every other entry
  is as it was or refreshed, and nothing else changes but the sweep time.
\<close>

lemma cleanup_both_Some:
  assumes "cleanup_both p i now s = Some s2" "hm_wf (per_peer s)"
  shows "config s2 = config s" "unauth s2 = unauth s" "per_subnet s2 = per_subnet s" "hm_wf (per_peer s2)"
    "hm_get (per_peer s2) i = Option.bind (hm_get (per_peer s) i) (refresh_entry (cfg_ban_window (config s)) now)"
    "hm_get (per_peer s2) j \<in> {hm_get (per_peer s) j,
        Option.bind (hm_get (per_peer s) j) (refresh_entry (cfg_ban_window (config s)) now)}"
proof -
  let ?w = "cfg_ban_window (config s)"
  from assms(1) obtain s1 where s1: "maybe_cleanup_peers p now s = Some s1"
    and s2: "cleanup_peer p i now s1 = Some s2"
    by (auto simp: cleanup_both_def bind_eq_Some_conv)
  from maybe_cleanup_peers_Some [OF s1 assms(2)] obtain m t where
    m: "s1 = s\<lparr>per_peer := m, last_peer_sweep := t\<rparr>" "hm_wf m" and
    get1: "\<And>i. hm_get m i = hm_get (per_peer s) i \<or>
         (\<exists>q. hm_get (per_peer s) i = Some q \<and> refreshed p ?w now q (hm_get m i))"
    by metis
  have wf1: "hm_wf (per_peer s1)" and cfg1: "config s1 = config s" using m by auto
  from cleanup_peer_Some [OF s2 wf1] obtain m2 where m2: "s2 = s1\<lparr>per_peer := m2\<rparr>" "hm_wf m2"
    "\<And>j. j \<noteq> i \<Longrightarrow> hm_get m2 j = hm_get (per_peer s1) j"
    "hm_get (per_peer s1) i = None \<Longrightarrow> hm_get m2 i = None"
    "\<And>q. hm_get (per_peer s1) i = Some q \<Longrightarrow> refreshed p ?w now q (hm_get m2 i)"
    unfolding cfg1 by metis
  show "config s2 = config s" "unauth s2 = unauth s" "per_subnet s2 = per_subnet s" "hm_wf (per_peer s2)"
    using m m2(1,2) by auto
  have get1': "hm_get m j = hm_get (per_peer s) j \<or>
      hm_get m j = Option.bind (hm_get (per_peer s) j) (refresh_entry ?w now)" for j
    using get1 [of j] refreshed_eq by auto
  have get2: "hm_get m2 i = Option.bind (hm_get m i) (refresh_entry ?w now)"
    using m2(4,5) m(1) refreshed_eq by (cases "hm_get m i") auto
  show i: "hm_get (per_peer s2) i = Option.bind (hm_get (per_peer s) i) (refresh_entry ?w now)"
    using get1' [of i] get2 m2(1) refresh_entry_idem [of ?w now]
    by (cases "hm_get (per_peer s) i"; cases "hm_get m i") auto
  show "hm_get (per_peer s2) j \<in> {hm_get (per_peer s) j,
        Option.bind (hm_get (per_peer s) j) (refresh_entry ?w now)}"
    using get1' [of j] m2(1,3) m(1) i by (cases "j = i") auto
qed

text \<open>On Unix, with a window of at most \<open>2 ^ 63\<close> seconds, the clean-up never panics.\<close>

lemma refresh_transient_state_total:
  "instant_min p \<le> now - int w \<Longrightarrow> \<exists>q'. refresh_transient_state p now w q = Some q'"
  by (simp add: refresh_Some)

lemma cleanup_both_total:
  assumes "instant_min p \<le> now - int (cfg_ban_window (config s))"
  shows "\<exists>s2. cleanup_both p i now s = Some s2"
proof -
  let ?w = "cfg_ban_window (config s)"
  note tot = refresh_transient_state_total [OF assms]
  have "\<exists>m. hm_retain (sweep_entry p now ?w) (per_peer s) = Some m"
  proof (rule hm_retain_total)
    fix k v
    show "sweep_entry p now ?w k v \<noteq> None"
      using tot [of v] by (auto simp: sweep_entry_def)
  qed
  then obtain m where m: "hm_retain (sweep_entry p now ?w) (per_peer s) = Some m" ..
  have "\<exists>s1. maybe_cleanup_peers p now s = Some s1 \<and> config s1 = config s"
    by (simp add: maybe_cleanup_peers_def m)
  then obtain s1 where s1: "maybe_cleanup_peers p now s = Some s1" "config s1 = config s" by blast
  have "\<exists>s2. cleanup_peer p i now s1 = Some s2"
  proof (cases "hm_get (per_peer s1) i")
    case (Some q)
    with tot [of q] s1(2) show ?thesis by (auto simp: cleanup_peer_def)
  qed (simp add: cleanup_peer_def)
  with s1(1) show ?thesis by (auto simp: cleanup_both_def)
qed

subsection \<open>Bans over a sequence of events\<close>

fun event_time :: "adm_event \<Rightarrow> instant" where
  "event_time (Acquire i t) = t"
| "event_time (Failure i t) = t"
| "event_time (Release i t) = t"

definition ban_end :: "AdmissionState \<Rightarrow> IpAddr \<Rightarrow> instant option" where
  "ban_end s i = Option.bind (hm_get (per_peer s) i) banned_until"

definition banned :: "AdmissionState \<Rightarrow> IpAddr \<Rightarrow> instant \<Rightarrow> bool" where
  "banned s i now = (case ban_end s i of None \<Rightarrow> False | Some u \<Rightarrow> now < u)"

lemma banned_entry: "banned s i now \<longleftrightarrow> (\<exists>q. hm_get (per_peer s) i = Some q \<and> is_banned q now)"
  by (cases "hm_get (per_peer s) i") (auto simp: banned_def ban_end_def is_banned_def)

lemma refresh_entry_banned:
  "is_banned q now \<Longrightarrow> \<exists>q'. refresh_entry w now q = Some q' \<and> banned_until q' = banned_until q"
  by (auto simp: refresh_entry_def Let_def can_be_removed_def is_banned_def)

lemma refresh_entry_not_banned:
  "refresh_entry w now q = Some q' \<Longrightarrow> is_banned q' now = is_banned q now"
  by (auto simp: refresh_entry_def Let_def is_banned_def split: if_splits option.splits)

lemma cleanup_both_banned:
  assumes "cleanup_both p j now s = Some s2" "hm_wf (per_peer s)"
  shows "banned s2 j now = banned s j now"
    and "banned s i now \<Longrightarrow> ban_end s2 i = ban_end s i"
proof -
  note c = cleanup_both_Some [OF assms]
  show "banned s2 j now = banned s j now"
    using c(5) refresh_entry_banned refresh_entry_not_banned
    by (cases "hm_get (per_peer s) j") (force simp: banned_entry)+
  show "ban_end s2 i = ban_end s i" if ban: "banned s i now"
  proof -
    from ban obtain q where q: "hm_get (per_peer s) i = Some q" "is_banned q now"
      by (auto simp: banned_entry)
    from refresh_entry_banned [OF q(2), of "cfg_ban_window (config s)"] c(6) [of i] q(1) show ?thesis
      by (auto simp: ban_end_def)
  qed
qed

lemma acquire_slot_ban_end: "acquire_slot j k now s = (r, s') \<Longrightarrow> ban_end s' i = ban_end s i"
  by (erule acquire_slot_cases)
    (auto simp: ban_end_def entry_or_new_def peer_new_def split: option.splits)

lemma acquire_slot_banned: "banned s j now \<Longrightarrow> acquire_slot j k now s = (Inl TemporarilyBanned, s)"
  by (auto simp: banned_entry acquire_slot_def Let_def)

lemma acquire_slot_not_banned: "\<not> banned s j now \<Longrightarrow> fst (acquire_slot j k now s) \<noteq> Inl TemporarilyBanned"
  by (auto simp: banned_entry acquire_slot_def Let_def split: option.splits prod.splits)

lemma note_failure_ban:
  assumes "note_failure p c now q = Some (b, q')"
  shows "b \<Longrightarrow> banned_until q' = Some (now + int (cfg_ban_duration c))"
    and "\<not> b \<Longrightarrow> banned_until q' = banned_until q"
  using assms by (auto simp: note_failure_def bind_eq_Some_conv Let_def instant_add_eq_Some split: if_splits)

lemma release_counts_frame:
  "config (release_counts i k s) = config s"
  "last_peer_sweep (release_counts i k s) = last_peer_sweep s"
  "hm_wf (per_peer s) \<Longrightarrow> hm_wf (per_peer (release_counts i k s))"
  "ban_end (release_counts i k s) j = ban_end s j"
  by (auto simp: release_counts_def ban_end_def split: option.splits)

lemma refreshed_ban:
  "is_banned q now \<Longrightarrow> refreshed p w now q r \<Longrightarrow> Option.bind r banned_until = banned_until q"
  using refresh_entry_banned [of q now w] by (auto dest: refreshed_eq)

lemma maybe_cleanup_peers_ban:
  assumes "maybe_cleanup_peers p now s = Some s'" "hm_wf (per_peer s)" "banned s i now"
  shows "ban_end s' i = ban_end s i \<and> hm_wf (per_peer s')"
proof -
  obtain q where q: "hm_get (per_peer s) i = Some q" "is_banned q now"
    using assms(3) by (auto simp: banned_entry)
  from assms(1,2) show ?thesis
  proof (rule maybe_cleanup_peers_Some)
    fix m t
    assume s': "s' = s\<lparr>per_peer := m, last_peer_sweep := t\<rparr>" and "hm_wf m"
      and get: "\<And>i. hm_get m i = hm_get (per_peer s) i \<or>
         (\<exists>q. hm_get (per_peer s) i = Some q \<and> refreshed p (cfg_ban_window (config s)) now q (hm_get m i))"
    with get [of i] q refreshed_ban [OF q(2)] show ?thesis
      by (auto simp: ban_end_def)
  qed
qed

lemma cleanup_peer_ban:
  assumes "cleanup_peer p j now s = Some s'" "hm_wf (per_peer s)" "banned s i now"
  shows "ban_end s' i = ban_end s i"
proof -
  obtain q where q: "hm_get (per_peer s) i = Some q" "is_banned q now"
    using assms(3) by (auto simp: banned_entry)
  from assms(1,2) show ?thesis
  proof (rule cleanup_peer_Some)
    fix m
    assume s': "s' = s\<lparr>per_peer := m\<rparr>"
      and other: "\<And>i. i \<noteq> j \<Longrightarrow> hm_get m i = hm_get (per_peer s) i"
      and own: "\<And>q. hm_get (per_peer s) j = Some q \<Longrightarrow>
          refreshed p (cfg_ban_window (config s)) now q (hm_get m j)"
    show ?thesis
      using s' other [of i] own [of q] q refreshed_ban [OF q(2)]
      by (cases "i = j") (auto simp: ban_end_def)
  qed
qed

text \<open>One step inside the ban keeps it, or extends it.\<close>

lemma adm_step_ban:
  assumes step: "adm_step p (s, G) e (s', G')" and inv: "adm_inv c (s, G)"
    and u: "ban_end s i = Some u" and t: "u - int (cfg_ban_duration c) \<le> event_time e" "event_time e < u"
  shows "\<exists>u'\<ge>u. ban_end s' i = Some u' \<and> u' - int (cfg_ban_duration c) \<le> event_time e"
  using step
proof (cases rule: adm_step.cases)
  case (admit j now)
  have wf: "hm_wf (per_peer s)" using inv by (simp add: adm_inv_def)
  from admit obtain s2 where "cleanup_both p j now s = Some s2" "acquire_slot j (subnet_key j) now s2 = (Inr (), s')"
    by (auto simp: try_acquire_cleanup)
  with cleanup_both_banned(2) [OF _ wf, of p j now s2 i] acquire_slot_ban_end u t admit show ?thesis
    by (auto simp: banned_def)
next
  case (reject j now r)
  have wf: "hm_wf (per_peer s)" using inv by (simp add: adm_inv_def)
  from reject obtain s2 where "cleanup_both p j now s = Some s2" "acquire_slot j (subnet_key j) now s2 = (Inl r, s')"
    by (auto simp: try_acquire_cleanup)
  with cleanup_both_banned(2) [OF _ wf, of p j now s2 i] acquire_slot_ban_end u t reject show ?thesis
    by (auto simp: banned_def)
next
  case (failure j now b)
  have wf: "hm_wf (per_peer s)" and cfg: "config s = c" using inv by (simp_all add: adm_inv_def)
  from failure obtain s2 q where s2: "cleanup_both p j now s = Some s2"
    and q: "note_failure p (config s2) now (entry_or_new s2 j now) = Some (b, q)"
    and s': "s' = s2\<lparr>per_peer := hm_insert j q (per_peer s2)\<rparr>"
    by (auto simp: record_auth_failure_cleanup bind_eq_Some_conv)
  have end2: "ban_end s2 i = Some u"
    using cleanup_both_banned(2) [OF s2 wf, of i] u t failure by (auto simp: banned_def)
  have cfg2: "config s2 = c" using cleanup_both_Some(1) [OF s2 wf] cfg by simp
  show ?thesis
  proof (cases "j = i")
    case True
    with end2 have "banned_until (entry_or_new s2 j now) = Some u"
      by (auto simp: ban_end_def entry_or_new_def bind_eq_Some_conv)
    with note_failure_ban [OF q] cfg2 s' True t failure show ?thesis
      by (cases b) (auto simp: ban_end_def)
  next
    case False
    with end2 s' t show ?thesis by (auto simp: ban_end_def)
  qed
next
  case (release_guard j now)
  have wf: "hm_wf (per_peer s)" using inv by (simp add: adm_inv_def)
  from release_guard obtain s1 where s1: "maybe_cleanup_peers p now s = Some s1"
    and s': "cleanup_peer p j now (release_counts j (subnet_key j) s1) = Some s'"
    by (auto simp: release_def bind_eq_Some_conv)
  have "banned s i now" using u t release_guard by (simp add: banned_def)
  from maybe_cleanup_peers_ban [OF s1 wf this] u
  have end1: "ban_end s1 i = Some u" and wf1: "hm_wf (per_peer s1)" by simp_all
  let ?s = "release_counts j (subnet_key j) s1"
  have endr: "ban_end ?s i = Some u" and wfr: "hm_wf (per_peer ?s)"
    using end1 wf1 by (simp_all add: release_counts_frame)
  have "banned ?s i now" using endr t release_guard by (simp add: banned_def)
  from cleanup_peer_ban [OF s' wfr this] endr have "ban_end s' i = Some u" by simp
  with t show ?thesis by auto
qed

text \<open>
  A whole run inside the ban. A later failure may move the end of the ban; with event
  times that do not go back before the failure that set it, the end only moves forward.
\<close>

fun times_ordered :: "instant \<Rightarrow> adm_event list \<Rightarrow> bool" where
  "times_ordered t [] = True"
| "times_ordered t (e # es) = (t \<le> event_time e \<and> times_ordered (event_time e) es)"

lemma adm_trace_ban:
  assumes "trace (adm_step p) sys es sys'" "adm_inv c sys" "ban_end (fst sys) i = Some u"
    "times_ordered t es" "u \<le> t + int (cfg_ban_duration c)" "\<forall>e \<in> set es. event_time e < u0" "u0 \<le> u"
  shows "\<exists>u'\<ge>u0. ban_end (fst sys') i = Some u'"
  using assms
proof (induction arbitrary: u t rule: trace.induct)
  case (trace_nil s)
  then show ?case by auto
next
  case (trace_cons s e s' es s'')
  obtain a G a' G' where sys: "s = (a, G)" "s' = (a', G')" by (cases s, cases s')
  let ?t = "event_time e"
  from trace_cons.prems have te: "t \<le> ?t" "?t < u0" "times_ordered ?t es" by auto
  from adm_step_ban [of p a G e a' G' c i u] trace_cons.hyps(1) trace_cons.prems te sys
  obtain u' where u': "u \<le> u'" "ban_end a' i = Some u'" "u' \<le> ?t + int (cfg_ban_duration c)" by auto
  have inv': "adm_inv c s'" using adm_step_inv trace_cons by blast
  from trace_cons.IH [OF inv' _ te(3) u'(3)] u' trace_cons.prems sys show ?case by auto
qed

lemma record_auth_failure_ban_end:
  assumes "record_auth_failure p i now s = Some (True, s')" "hm_wf (per_peer s)"
  shows "ban_end s' i = Some (now + int (cfg_ban_duration (config s)))"
proof -
  from assms(1) obtain s2 q where s2: "cleanup_both p i now s = Some s2"
    and q: "note_failure p (config s2) now (entry_or_new s2 i now) = Some (True, q)"
    and s': "s' = s2\<lparr>per_peer := hm_insert i q (per_peer s2)\<rparr>"
    by (auto simp: record_auth_failure_cleanup bind_eq_Some_conv)
  from note_failure_ban(1) [OF q] cleanup_both_Some(1) [OF s2 assms(2)] s' show ?thesis
    by (simp add: ban_end_def)
qed

end
