(* ===== verification/Admission_Policy.thy ===== *)
theory Admission_Policy
  imports Admission
begin

text \<open>
  What the admission controller promises over whole runs: the limits, the sliding
  failure window, bans and their expiry, the order of the checks, the token bucket, and
  where the clock arithmetic can panic.
\<close>

subsection \<open>Executing events\<close>

fun adm_apply :: "platform \<Rightarrow> adm_event \<Rightarrow> adm_sys \<Rightarrow> adm_sys option" where
  "adm_apply p (Acquire i now) (s, G) =
     (case try_acquire p i (subnet_key i) now s of
        None \<Rightarrow> None
      | Some (Inr _, s') \<Rightarrow> Some (s', add_mset i G)
      | Some (Inl _, s') \<Rightarrow> Some (s', G))"
| "adm_apply p (Failure i now) (s, G) = map_option (\<lambda>(b, s'). (s', G)) (record_auth_failure p i now s)"
| "adm_apply p (Release i now) (s, G) =
     (if i \<in># G then map_option (\<lambda>s'. (s', G - {#i#})) (release p i (subnet_key i) now s) else None)"

fun adm_exec :: "platform \<Rightarrow> adm_event list \<Rightarrow> adm_sys \<Rightarrow> adm_sys option" where
  "adm_exec p [] sys = Some sys"
| "adm_exec p (e # es) sys = Option.bind (adm_apply p e sys) (adm_exec p es)"

lemma adm_step_iff: "adm_step p sys e sys' \<longleftrightarrow> adm_apply p e sys = Some sys'"
proof
  assume "adm_step p sys e sys'"
  then show "adm_apply p e sys = Some sys'" by cases (simp_all)
next
  assume "adm_apply p e sys = Some sys'"
  then show "adm_step p sys e sys'"
    by (cases sys; cases e)
      (auto intro: adm_step.intros split: option.splits sum.splits if_splits)
qed

lemma trace_adm_iff: "trace (adm_step p) sys es sys' \<longleftrightarrow> adm_exec p es sys = Some sys'"
proof
  show "trace (adm_step p) sys es sys' \<Longrightarrow> adm_exec p es sys = Some sys'"
    by (induction rule: trace.induct) (simp_all add: adm_step_iff)
  show "adm_exec p es sys = Some sys' \<Longrightarrow> trace (adm_step p) sys es sys'"
    by (induction es arbitrary: sys)
      (auto simp: bind_eq_Some_conv adm_step_iff intro: trace.intros)
qed

subsection \<open>The sliding window of failures\<close>

text \<open>
  The specification: the failures of one address that are not older than the window,
  emptied when they reach the threshold. It knows nothing of sweeps, of other peers or
  of connections.
\<close>

fun recent_failures :: "AdmissionConfig \<Rightarrow> IpAddr \<Rightarrow> instant list \<Rightarrow> adm_event list \<Rightarrow> instant list" where
  "recent_failures c i fs [] = fs"
| "recent_failures c i fs (Failure j t # es) =
     recent_failures c i
       (if j = i then
          let fs' = filter (\<lambda>v. t - int (cfg_ban_window c) \<le> v) fs @ [t]
          in if cfg_ban_threshold c \<le> length fs' then [] else fs'
        else fs) es"
| "recent_failures c i fs (Acquire j t # es) = recent_failures c i fs es"
| "recent_failures c i fs (Release j t # es) = recent_failures c i fs es"

definition failures_of :: "AdmissionState \<Rightarrow> IpAddr \<Rightarrow> instant list" where
  "failures_of s i = (case hm_get (per_peer s) i of None \<Rightarrow> [] | Some q \<Rightarrow> auth_failures q)"

definition window_sim :: "AdmissionConfig \<Rightarrow> instant \<Rightarrow> instant list \<Rightarrow> instant list \<Rightarrow> bool" where
  "window_sim c t fs spec \<longleftrightarrow>
     sorted fs \<and> (\<forall>v \<in> set fs. v \<le> t) \<and>
     (\<forall>now \<ge> t. filter (\<lambda>v. now - int (cfg_ban_window c) \<le> v) fs =
               filter (\<lambda>v. now - int (cfg_ban_window c) \<le> v) spec)"

lemma window_sim_later: "window_sim c t fs spec \<Longrightarrow> t \<le> t' \<Longrightarrow> window_sim c t' fs spec"
  by (fastforce simp: window_sim_def)

lemma window_sim_prune:
  assumes "window_sim c t fs spec"
  shows "window_sim c t (prune_before fs (t - int (cfg_ban_window c))) spec"
proof -
  let ?p = "\<lambda>now v. now - int (cfg_ban_window c) \<le> (v :: instant)"
  have *: "filter (?p now) (filter (?p t) fs) = filter (?p now) fs" if "t \<le> now" for now
    using that by (auto simp: filter_filter intro: filter_cong)
  have fs: "sorted fs" "\<forall>v \<in> set fs. v \<le> t"
    and eq: "\<forall>now \<ge> t. filter (?p now) fs = filter (?p now) spec"
    using assms by (simp_all add: window_sim_def)
  have "window_sim c t (filter (?p t) fs) spec"
    unfolding window_sim_def
  proof (intro conjI)
    show "\<forall>now \<ge> t. filter (?p now) (filter (?p t) fs) = filter (?p now) spec"
      using * eq by metis
  qed (use fs in \<open>auto simp: sorted_wrt_filter\<close>)
  with fs(1) show ?thesis by (simp add: prune_before_sorted)
qed

text \<open>A clean-up leaves the failure list alone or prunes it at the current time.\<close>

lemma refreshed_failures:
  "refreshed p w now q r \<Longrightarrow>
     (case r of None \<Rightarrow> [] | Some q' \<Rightarrow> auth_failures q') = prune_before (auth_failures q) (now - int w)"
  by (auto simp: refreshed_def refresh_Some can_be_removed_def)

definition pruned_to :: "AdmissionConfig \<Rightarrow> instant \<Rightarrow> AdmissionState \<Rightarrow> AdmissionState \<Rightarrow> IpAddr \<Rightarrow> bool" where
  "pruned_to c now s s' i \<longleftrightarrow>
     failures_of s' i = failures_of s i \<or>
     failures_of s' i = prune_before (failures_of s i) (now - int (cfg_ban_window c))"

lemma pruned_to_sim:
  "window_sim c now (failures_of s i) spec \<Longrightarrow> pruned_to c now s s' i \<Longrightarrow>
     window_sim c now (failures_of s' i) spec"
  using window_sim_prune by (auto simp: pruned_to_def)

lemma maybe_cleanup_peers_failures:
  assumes "maybe_cleanup_peers p now s = Some s'" "hm_wf (per_peer s)"
  shows "pruned_to (config s) now s s' i"
  using assms
proof (rule maybe_cleanup_peers_Some)
  fix m t
  assume s': "s' = s\<lparr>per_peer := m, last_peer_sweep := t\<rparr>"
    and get: "\<And>i. hm_get m i = hm_get (per_peer s) i \<or>
       (\<exists>q. hm_get (per_peer s) i = Some q \<and> refreshed p (cfg_ban_window (config s)) now q (hm_get m i))"
  show ?thesis
    using get [of i] s' by (auto simp: pruned_to_def failures_of_def dest: refreshed_failures)
qed

lemma cleanup_peer_failures:
  assumes "cleanup_peer p j now s = Some s'" "hm_wf (per_peer s)"
  shows "pruned_to (config s) now s s' i"
  using assms
proof (rule cleanup_peer_Some)
  fix m
  assume m: "s' = s\<lparr>per_peer := m\<rparr>"
    "\<And>i. i \<noteq> j \<Longrightarrow> hm_get m i = hm_get (per_peer s) i"
    "hm_get (per_peer s) j = None \<Longrightarrow> hm_get m j = None"
    "\<And>q. hm_get (per_peer s) j = Some q \<Longrightarrow> refreshed p (cfg_ban_window (config s)) now q (hm_get m j)"
  show ?thesis
    using m(1) m(2) [of i] m(3,4)
    by (cases "i = j"; cases "hm_get (per_peer s) j")
      (auto simp: pruned_to_def failures_of_def dest: refreshed_failures)
qed

lemma cleanup_peer_config:
  "cleanup_peer p j now s = Some s' \<Longrightarrow> config s' = config s"
  by (auto simp: cleanup_peer_def bind_eq_Some_conv split: option.splits)

lemma cleanup_both_failures:
  assumes "cleanup_both p j now s = Some s2" "adm_inv c (s, G)"
    and sim: "window_sim c now (failures_of s i) spec"
  shows "window_sim c now (failures_of s2 i) spec"
proof -
  from assms(1) obtain s1 where s1: "maybe_cleanup_peers p now s = Some s1"
    and s2: "cleanup_peer p j now s1 = Some s2"
    by (auto simp: cleanup_both_def bind_eq_Some_conv)
  have inv1: "adm_inv c (s1, G)" using maybe_cleanup_peers_inv assms(2) s1 .
  then have i: "hm_wf (per_peer s)" "config s = c" "hm_wf (per_peer s1)" "config s1 = c"
    using assms(2) by (simp_all add: adm_inv_def)
  from pruned_to_sim [OF sim] maybe_cleanup_peers_failures [OF s1 i(1)] i(2)
  have "window_sim c now (failures_of s1 i) spec" by simp
  from pruned_to_sim [OF this] cleanup_peer_failures [OF s2 i(3)] i(4) show ?thesis by simp
qed

lemma acquire_slot_failures: "acquire_slot j k now s = (r, s') \<Longrightarrow> failures_of s' i = failures_of s i"
  by (erule acquire_slot_cases)
    (auto simp: failures_of_def entry_or_new_def peer_new_def split: option.splits)

lemma release_counts_failures: "failures_of (release_counts j k s) i = failures_of s i"
  by (auto simp: release_counts_def failures_of_def split: option.splits)

lemma failures_of_entry: "auth_failures (entry_or_new s i now) = failures_of s i"
  by (simp add: failures_of_def entry_or_new_def peer_new_def split: option.splits)

text \<open>The failure itself: the implementation counts what the specification counts.\<close>

lemma note_failure_spec:
  assumes "note_failure p c now q = Some (b, q')" "window_sim c now (auth_failures q) spec"
  shows "b \<longleftrightarrow> cfg_ban_threshold c \<le> length (filter (\<lambda>v. now - int (cfg_ban_window c) \<le> v) spec) + 1"
    and "auth_failures q' = recent_failures c i spec [Failure i now]"
proof -
  have "prune_before (auth_failures q) (now - int (cfg_ban_window c)) =
      filter (\<lambda>v. now - int (cfg_ban_window c) \<le> v) spec"
    using assms(2) by (simp add: window_sim_def prune_before_sorted)
  then show "b \<longleftrightarrow> cfg_ban_threshold c \<le> length (filter (\<lambda>v. now - int (cfg_ban_window c) \<le> v) spec) + 1"
    and "auth_failures q' = recent_failures c i spec [Failure i now]"
    using assms(1)
    by (auto simp: note_failure_def Let_def bind_eq_Some_conv instant_sub_eq_Some split: if_splits)
qed

lemma window_sim_failure:
  assumes "window_sim c now fs spec"
  shows "window_sim c now (recent_failures c i spec [Failure i now]) (recent_failures c i spec [Failure i now])"
proof -
  have eq: "filter (\<lambda>v. now - int (cfg_ban_window c) \<le> v) spec =
      filter (\<lambda>v. now - int (cfg_ban_window c) \<le> v) fs"
    using assms by (simp add: window_sim_def)
  have fs: "sorted fs" "\<forall>v \<in> set fs. v \<le> now" using assms by (simp_all add: window_sim_def)
  then have "sorted (filter (\<lambda>v. now - int (cfg_ban_window c) \<le> v) fs @ [now])"
    by (auto simp: sorted_append sorted_wrt_filter)
  with fs show ?thesis
    unfolding window_sim_def by (auto simp: Let_def eq)
qed

lemma record_auth_failure_spec:
  assumes "record_auth_failure p j now s = Some (b, s')" "adm_inv c (s, G)"
    and sim: "window_sim c now (failures_of s i) spec"
  shows "window_sim c now (failures_of s' i) (recent_failures c i spec [Failure j now])"
    and "j = i \<Longrightarrow> b \<longleftrightarrow>
      cfg_ban_threshold c \<le> length (filter (\<lambda>v. now - int (cfg_ban_window c) \<le> v) spec) + 1"
proof -
  have wf: "hm_wf (per_peer s)" "config s = c" using assms(2) by (simp_all add: adm_inv_def)
  from assms(1) obtain s2 q where s2: "cleanup_both p j now s = Some s2"
    and q: "note_failure p (config s2) now (entry_or_new s2 j now) = Some (b, q)"
    and s': "s' = s2\<lparr>per_peer := hm_insert j q (per_peer s2)\<rparr>"
    by (auto simp: record_auth_failure_cleanup bind_eq_Some_conv)
  have cfg2: "config s2 = c" using cleanup_both_Some(1) [OF s2 wf(1)] wf(2) by simp
  have sim2: "window_sim c now (failures_of s2 i) spec" by (rule cleanup_both_failures [OF s2 assms(2) sim])
  note spec = note_failure_spec(1) [OF q [unfolded cfg2]] note_failure_spec(2) [OF q [unfolded cfg2], where i = i]
  show "j = i \<Longrightarrow> b \<longleftrightarrow>
      cfg_ban_threshold c \<le> length (filter (\<lambda>v. now - int (cfg_ban_window c) \<le> v) spec) + 1"
    using spec(1) sim2 by (simp add: failures_of_entry)
  show "window_sim c now (failures_of s' i) (recent_failures c i spec [Failure j now])"
  proof (cases "j = i")
    case True
    have "failures_of s' i = recent_failures c i spec [Failure i now]"
      using spec(2) sim2 s' True by (simp add: failures_of_entry) (simp add: failures_of_def)
    with window_sim_failure [OF sim] True show ?thesis by metis
  next
    case False
    have "failures_of s' i = failures_of s2 i" using s' False by (simp add: failures_of_def)
    with sim2 False show ?thesis by simp
  qed
qed

lemma adm_step_failures:
  assumes step: "adm_step p (s, G) e (s', G')" and inv: "adm_inv c (s, G)"
    and sim: "window_sim c (event_time e) (failures_of s i) spec"
  shows "window_sim c (event_time e) (failures_of s' i) (recent_failures c i spec [e])"
  using step
proof (cases rule: adm_step.cases)
  case (admit j now)
  with cleanup_both_failures [OF _ inv, of p j now _ i] sim acquire_slot_failures show ?thesis
    by (fastforce simp: try_acquire_cleanup)
next
  case (reject j now r)
  with cleanup_both_failures [OF _ inv, of p j now _ i] sim acquire_slot_failures show ?thesis
    by (fastforce simp: try_acquire_cleanup)
next
  case (failure j now b)
  with record_auth_failure_spec(1) [OF _ inv, of p j now b s' i spec] sim show ?thesis by simp
next
  case (release_guard j now)
  have wf: "hm_wf (per_peer s)" "config s = c" using inv by (simp_all add: adm_inv_def)
  from release_guard obtain s1 where s1: "maybe_cleanup_peers p now s = Some s1"
    and s': "cleanup_peer p j now (release_counts j (subnet_key j) s1) = Some s'"
    by (auto simp: release_def bind_eq_Some_conv)
  have "adm_inv c (s1, G)" using maybe_cleanup_peers_inv inv s1 .
  then have wf1: "hm_wf (per_peer s1)" "config s1 = c" by (simp_all add: adm_inv_def)
  have "window_sim c now (failures_of s1 i) spec"
    using pruned_to_sim [of c now s i spec s1] maybe_cleanup_peers_failures [OF s1 wf(1)] sim wf release_guard
    by simp
  then have "window_sim c now (failures_of s' i) spec"
    using pruned_to_sim [of c now "release_counts j (subnet_key j) s1" i spec s']
      cleanup_peer_failures [OF s'] wf1
    by (simp add: release_counts_frame release_counts_failures)
  with release_guard show ?thesis by simp
qed

lemma recent_failures_append:
  "recent_failures c i fs (es @ es') = recent_failures c i (recent_failures c i fs es) es'"
  by (induction c i fs es rule: recent_failures.induct) simp_all

lemma adm_trace_failures:
  assumes "trace (adm_step p) sys es sys'" "adm_inv c sys" "times_ordered t es"
    "window_sim c t (failures_of (fst sys) i) spec" "\<forall>e \<in> set es. event_time e \<le> now" "t \<le> now"
  shows "window_sim c now (failures_of (fst sys') i) (recent_failures c i spec es)"
  using assms
proof (induction arbitrary: t spec rule: trace.induct)
  case (trace_nil s)
  then show ?case by (simp add: window_sim_later)
next
  case (trace_cons s e s' es s'')
  obtain a G a' G' where sys: "s = (a, G)" "s' = (a', G')" by (cases s, cases s')
  have inv': "adm_inv c s'" using adm_step_inv trace_cons by blast
  have "window_sim c (event_time e) (failures_of a i) spec"
    using trace_cons.prems sys window_sim_later by auto
  then have "window_sim c (event_time e) (failures_of a' i) (recent_failures c i spec [e])"
    using adm_step_failures [of p a G e a' G' c i spec] trace_cons sys by simp
  with trace_cons.IH [OF inv', of "event_time e" "recent_failures c i spec [e]"] trace_cons.prems sys
  have "window_sim c now (failures_of (fst s'') i) (recent_failures c i (recent_failures c i spec [e]) es)"
    by simp
  then show ?case by (simp flip: recent_failures_append)
qed

subsection \<open>The order of the checks\<close>

text \<open>
  The specification of a decision: the first check that fails, in the order ban, global
  cap, per-address cap, per-subnet cap, rate, over the live connections \<open>G\<close>.
\<close>

definition admission_decision ::
    "AdmissionConfig \<Rightarrow> bool \<Rightarrow> IpAddr multiset \<Rightarrow> IpAddr \<Rightarrow> bool \<Rightarrow> (RejectReason, unit) result" where
  "admission_decision c ban G i token =
     (if ban then Inl TemporarilyBanned
      else if cfg_max_global c \<le> size G then Inl TooManyUnauthenticatedConnections
      else if cfg_max_per_ip c \<le> count G i then Inl TooManyUnauthenticatedConnectionsForIp
      else if cfg_max_per_subnet c \<le> size (filter_mset (\<lambda>j. subnet_key j = subnet_key i) G)
        then Inl TooManyUnauthenticatedConnectionsForSubnet
      else if \<not> token then Inl ConnectionRateLimited
      else Inr ())"

text \<open>The bucket a decision uses: the one of the entry that survives the clean-up, or a new one.\<close>

definition effective_bucket :: "AdmissionState \<Rightarrow> IpAddr \<Rightarrow> instant \<Rightarrow> TokenBucket" where
  "effective_bucket s i now =
     (case Option.bind (hm_get (per_peer s) i) (refresh_entry (cfg_ban_window (config s)) now) of
        None \<Rightarrow> bucket_new (cfg_burst (config s)) now
      | Some q \<Rightarrow> connection_bucket q)"

definition has_token :: "AdmissionState \<Rightarrow> IpAddr \<Rightarrow> instant \<Rightarrow> bool" where
  "has_token s i now \<longleftrightarrow>
     1 \<le> tokens (refill (cfg_per_minute (config s)) (cfg_burst (config s)) now (effective_bucket s i now))"

lemma try_consume_granted: "fst (try_consume l n now b) \<longleftrightarrow> 1 \<le> tokens (refill l n now b)"
  by (simp add: try_consume_def Let_def)

lemma acquire_slot_decision:
  assumes inv: "adm_inv c (s, G)" and cap: "1 \<le> cfg_max_per_ip c"
  shows "fst (acquire_slot i (subnet_key i) now s) =
    admission_decision c (banned s i now) G i
      (fst (try_consume (cfg_per_minute c) (cfg_burst c) now (connection_bucket (entry_or_new s i now))))"
proof -
  let ?q = "hm_get (per_peer s) i"
  have cnt: "peer_count s i = count G i" "unauth s = size G" "config s = c"
    "subnet_count s (subnet_key i) = size (filter_mset (\<lambda>j. subnet_key j = subnet_key i) G)"
    using inv by (simp_all add: adm_inv_def adm_counts_def)
  have per_ip: "(case ?q of None \<Rightarrow> False | Some q \<Rightarrow> cfg_max_per_ip c \<le> peer_unauth q) \<longleftrightarrow>
      cfg_max_per_ip c \<le> count G i"
    using cnt(1) cap by (auto simp: peer_count_def split: option.splits)
  have ban: "(case ?q of None \<Rightarrow> False | Some q \<Rightarrow> is_banned q now) \<longleftrightarrow> banned s i now"
    by (auto simp: banned_entry split: option.splits)
  show ?thesis
    unfolding acquire_slot_def Let_def cnt(2-4) per_ip ban admission_decision_def
    by (simp add: split_beta)
qed

lemma try_acquire_decision:
  assumes "adm_inv c (s, G)" "1 \<le> cfg_max_per_ip c"
    and "try_acquire p i (subnet_key i) now s = Some (r, s')"
  shows "r = admission_decision c (banned s i now) G i (has_token s i now)"
proof -
  have wf: "hm_wf (per_peer s)" and cfg: "config s = c" using assms(1) by (simp_all add: adm_inv_def)
  from assms(3) obtain s2 where s2: "cleanup_both p i now s = Some s2"
    and acq: "acquire_slot i (subnet_key i) now s2 = (r, s')"
    by (auto simp: try_acquire_cleanup)
  obtain s1 where "maybe_cleanup_peers p now s = Some s1" "cleanup_peer p i now s1 = Some s2"
    using s2 by (auto simp: cleanup_both_def bind_eq_Some_conv)
  then have inv2: "adm_inv c (s2, G)"
    using maybe_cleanup_peers_inv cleanup_peer_inv assms(1) by blast
  have bucket: "connection_bucket (entry_or_new s2 i now) = effective_bucket s i now"
    using cleanup_both_Some(1,5) [OF s2 wf]
    by (simp add: effective_bucket_def entry_or_new_def peer_new_def split: option.splits)
  from acquire_slot_decision [OF inv2 assms(2), of i now] acq bucket cleanup_both_banned(1) [OF s2 wf]
  show ?thesis by (simp add: has_token_def try_consume_granted cfg)
qed

subsection \<open>Totality and panics\<close>

lemma cleanup_peer_total:
  "instant_min p \<le> now - int (cfg_ban_window (config s)) \<Longrightarrow> \<exists>s'. cleanup_peer p i now s = Some s'"
  using refresh_transient_state_total [of p now "cfg_ban_window (config s)" "the (hm_get (per_peer s) i)"]
  by (cases "hm_get (per_peer s) i") (auto simp: cleanup_peer_def)

lemma maybe_cleanup_peers_total:
  assumes "instant_min p \<le> now - int (cfg_ban_window (config s))"
  shows "\<exists>s1. maybe_cleanup_peers p now s = Some s1 \<and> config s1 = config s"
proof -
  from cleanup_both_total [OF assms] obtain s1 where "maybe_cleanup_peers p now s = Some s1"
    by (auto simp: cleanup_both_def bind_eq_Some_conv)
  then show ?thesis by (auto simp: maybe_cleanup_peers_def bind_eq_Some_conv split: if_splits)
qed

lemma release_total:
  assumes "instant_min p \<le> now - int (cfg_ban_window (config s))"
  shows "\<exists>s'. release p i k now s = Some s'"
proof -
  obtain s1 where s1: "maybe_cleanup_peers p now s = Some s1" "config s1 = config s"
    using maybe_cleanup_peers_total [OF assms] by blast
  with cleanup_peer_total [of p now "release_counts i k s1" i] assms show ?thesis
    by (simp add: release_def release_counts_frame)
qed

lemma record_auth_failure_total:
  assumes "instant_min p \<le> now - int (cfg_ban_window (config s))"
    "now + int (cfg_ban_duration (config s)) \<le> instant_max p" "hm_wf (per_peer s)"
  shows "\<exists>r. record_auth_failure p i now s = Some r"
proof -
  obtain s2 where s2: "cleanup_both p i now s = Some s2" using cleanup_both_total [OF assms(1)] by blast
  have "\<exists>b q. note_failure p (config s2) now (entry_or_new s2 i now) = Some (b, q)"
    using assms cleanup_both_Some(1) [OF s2 assms(3)]
    by (auto simp: note_failure_def Let_def instant_sub_def instant_add_def)
  with s2 show ?thesis by (auto simp: record_auth_failure_cleanup)
qed

lemma record_auth_failure_panics:
  assumes "now - int (cfg_ban_window (config s)) < instant_min p" "hm_wf (per_peer s)"
  shows "record_auth_failure p i now s = None"
proof (cases "cleanup_both p i now s")
  case (Some s2)
  with cleanup_both_Some(1) [OF Some assms(2)] assms(1) show ?thesis
    by (simp add: record_auth_failure_cleanup note_failure_def instant_sub_def)
qed (simp add: record_auth_failure_cleanup)

subsection \<open>Connect and disconnect\<close>

text \<open>\<open>n\<close> times in a row: one connection of \<open>i\<close> is admitted and its guard is dropped.\<close>

fun connect_cycles :: "platform \<Rightarrow> IpAddr \<Rightarrow> instant \<Rightarrow> nat \<Rightarrow> AdmissionState \<Rightarrow> AdmissionState option" where
  "connect_cycles p i now 0 s = Some s"
| "connect_cycles p i now (Suc n) s =
     (case try_acquire p i (subnet_key i) now s of
        Some (Inr _, s1) \<Rightarrow> Option.bind (release p i (subnet_key i) now s1) (connect_cycles p i now n)
      | _ \<Rightarrow> None)"

lemma fresh_bucket_grants:
  assumes "1 \<le> n" "n \<le> 2 ^ 53"
  shows "1 \<le> tokens (refill l n now (bucket_new n now))"
  using assms
  by (simp add: refill_def bucket_new_def Let_def saturating_duration_since_def f64_add_def
      f64_mul_def f64_of_nat_def f64.rnd_idem f64.rnd_ge_nat [of 1, simplified])

lemma maybe_cleanup_peers_get:
  assumes "maybe_cleanup_peers p now s = Some s'" "hm_wf (per_peer s)"
  shows "hm_wf (per_peer s') \<and>
    (hm_get (per_peer s') i = hm_get (per_peer s) i \<or>
     hm_get (per_peer s') i = Option.bind (hm_get (per_peer s) i) (refresh_entry (cfg_ban_window (config s)) now))"
  using assms
proof (rule maybe_cleanup_peers_Some)
  fix m t
  assume m: "s' = s\<lparr>per_peer := m, last_peer_sweep := t\<rparr>" "hm_wf m"
    and get: "\<And>i. hm_get m i = hm_get (per_peer s) i \<or>
       (\<exists>q. hm_get (per_peer s) i = Some q \<and> refreshed p (cfg_ban_window (config s)) now q (hm_get m i))"
  have "hm_get m i = hm_get (per_peer s) i \<or>
      hm_get m i = Option.bind (hm_get (per_peer s) i) (refresh_entry (cfg_ban_window (config s)) now)"
    using get [of i] refreshed_eq by auto
  with m show ?thesis by simp
qed

lemma release_forgets:
  assumes "release p i k now s = Some s'" "hm_wf (per_peer s)" "hm_get (per_peer s) i = Some q"
    "peer_unauth q = 1" "auth_failures q = []" "banned_until q = None"
  shows "hm_get (per_peer s') i = None"
proof -
  from assms(1) obtain s1 where s1: "maybe_cleanup_peers p now s = Some s1"
    and s': "cleanup_peer p i now (release_counts i k s1) = Some s'"
    by (auto simp: release_def bind_eq_Some_conv)
  have q: "refresh_entry w now q = Some q" for w
    using assms(4-6) by (cases q) (simp add: refresh_entry_def can_be_removed_def is_banned_def)
  have q1: "hm_get (per_peer s1) i = Some q" and wf1: "hm_wf (per_peer s1)"
    using maybe_cleanup_peers_get [OF s1 assms(2), of i] assms(3) q by simp_all
  let ?q = "q\<lparr>peer_unauth := 0\<rparr>"
  have get: "hm_get (per_peer (release_counts i k s1)) i = Some ?q"
    using q1 assms(4) by (simp add: release_counts_def)
  have dead: "refresh_entry w now ?q = None" for w
    using assms(5,6) by (simp add: refresh_entry_def can_be_removed_def is_banned_def)
  show ?thesis
    by (rule cleanup_peer_Some [OF s']) (use wf1 get dead in \<open>auto simp: release_counts_frame dest: refreshed_eq\<close>)
qed

lemma cycle_forgets_peer:
  assumes inv: "adm_inv c (s, {#})" and none: "hm_get (per_peer s) i = None"
    and c: "1 \<le> cfg_max_global c" "1 \<le> cfg_max_per_ip c" "1 \<le> cfg_max_per_subnet c"
      "1 \<le> cfg_burst c" "cfg_burst c \<le> 2 ^ 53"
    and clock: "instant_min p \<le> now - int (cfg_ban_window c)"
  shows "\<exists>s1 s2. try_acquire p i (subnet_key i) now s = Some (Inr (), s1) \<and>
    release p i (subnet_key i) now s1 = Some s2 \<and> adm_inv c (s2, {#}) \<and> hm_get (per_peer s2) i = None"
proof -
  have cfg: "config s = c" and wf: "hm_wf (per_peer s)" using inv by (simp_all add: adm_inv_def)
  obtain s2 where s2: "cleanup_both p i now s = Some s2" using cleanup_both_total clock cfg by blast
  obtain r s1 where acq: "acquire_slot i (subnet_key i) now s2 = (r, s1)" by fastforce
  then have acq_s: "try_acquire p i (subnet_key i) now s = Some (r, s1)"
    by (simp add: try_acquire_cleanup s2)
  have "has_token s i now"
    using none c fresh_bucket_grants by (simp add: has_token_def effective_bucket_def cfg)
  moreover have "\<not> banned s i now" using none by (simp add: banned_entry)
  ultimately have r: "r = Inr ()"
    using try_acquire_decision [OF inv c(2) acq_s] c by (simp add: admission_decision_def)
  have inv1: "adm_inv c (s1, {#i#})" using try_acquire_inv [OF inv acq_s] r by simp
  then have cfg1: "config s1 = c" by (simp add: adm_inv_def)
  obtain s3 where rel: "release p i (subnet_key i) now s1 = Some s3" using release_total clock cfg1 by metis
  have inv3: "adm_inv c (s3, {#})" using release_inv [OF inv1 _ rel] by simp
  have none2: "hm_get (per_peer s2) i = None" using cleanup_both_Some(5) [OF s2 wf] none by simp
  have q1: "\<exists>q. hm_get (per_peer s1) i = Some q \<and> peer_unauth q = 1 \<and> auth_failures q = [] \<and> banned_until q = None"
    using acq r none2
    by (auto elim!: acquire_slot_cases simp: entry_or_new_def peer_new_def)
  have "hm_get (per_peer s3) i = None" using release_forgets [OF rel] inv1 q1 by (auto simp: adm_inv_def)
  with acq_s r rel inv3 show ?thesis by blast
qed

subsection \<open>A concrete configuration\<close>

text \<open>The configuration of the unit tests of \<open>admission.rs\<close>, for the witnesses.\<close>

definition test_config :: AdmissionConfig where
  "test_config = \<lparr>cfg_max_global = 4, cfg_max_per_ip = 2, cfg_max_per_subnet = 3,
     cfg_per_minute = 12, cfg_burst = 2, cfg_ban_threshold = 3,
     cfg_ban_window = from_secs 30, cfg_ban_duration = from_secs 60\<rparr>"

definition test_peer :: IpAddr where
  "test_peer = V4 10 0 0 1"

definition test_start :: adm_sys where
  "test_start = (admission_new test_config 0, {#})"

text \<open>
  The runs below happen at one instant, where no token is refilled and the balances are
  whole numbers; the bundle evaluates them.
\<close>

lemma f64_round_one [simp]: "f64_round 1 = 1"
  using f64.rnd_nat [of 1] by simp

lemma f64_round_numeral [simp]: "numeral n \<le> (2 ^ 53 :: nat) \<Longrightarrow> f64_round (numeral n) = numeral n"
  using f64.rnd_nat [of "numeral n"] by simp

lemmas adm_eval =
  test_start_def test_config_def test_peer_def admission_new_def try_acquire_def record_auth_failure_def
  release_def maybe_cleanup_peers_def cleanup_peer_def acquire_slot_def note_failure_def release_counts_def
  entry_or_new_def peer_new_def bucket_new_def try_consume_def refill_def subnet_count_def is_banned_def
  refresh_transient_state_def can_be_removed_def instant_sub_def instant_add_def
  saturating_duration_since_def PEER_SWEEP_INTERVAL_def from_secs_def nanos_per_sec_def
  f64_of_nat_def f64_add_def f64_sub_def f64_mul_def as_secs_f64_0 Let_def

text \<open>Two connections, of which one is released.\<close>

definition test_run :: "adm_event list" where
  "test_run = [Acquire test_peer 0, Acquire test_peer 0, Release test_peer 0]"

definition test_sys :: adm_sys where
  "test_sys = the (adm_exec Unix test_run test_start)"

text \<open>Two failures, one short of the threshold of the test configuration.\<close>

definition test_failures :: "adm_event list" where
  "test_failures = [Failure test_peer 0, Acquire test_peer 0, Failure test_peer 0]"

definition test_failed :: adm_sys where
  "test_failed = the (adm_exec Unix test_failures test_start)"

lemma test_run_ok: "adm_exec Unix test_run test_start = Some test_sys"
  by (simp add: test_sys_def test_run_def adm_eval)

lemma test_failures_ok: "adm_exec Unix test_failures test_start = Some test_failed"
  by (simp add: test_failed_def test_failures_def adm_eval)

subsection \<open>Properties\<close>


lemma test_sys_reach: "reach (admission_new test_config 0, {#}) (adm_step Unix) (fst test_sys, snd test_sys)"
  using trace_reach [of "adm_step Unix" test_start test_run test_sys "(admission_new test_config 0, {#})"]
    test_run_ok by (simp add: trace_adm_iff test_start_def reach_init)


text \<open>
  Bounded memory per peer. In every reachable state each peer entry holds fewer
  failure times than the ban threshold (at most none for thresholds 0 and 1), and its
  token balance lies between zero and the burst size.
\<close>

theorem admission_peer_state_bounded:
  assumes "reach (admission_new c t0, {#}) (adm_step p) (s, G)" "hm_get (per_peer s) i = Some q"
  shows "length (auth_failures q) < max 1 (cfg_ban_threshold c) \<and>
    0 \<le> tokens (connection_bucket q) \<and> tokens (connection_bucket q) \<le> f64_of_nat (cfg_burst c)"
proof -
  have "adm_inv c (s, G)" using assms(1) by (rule adm.inv_reach)
  with assms(2) show ?thesis by (auto simp: adm_inv_def adm_caps_def peer_ok_def bucket_ok_def)
qed

theorem admission_peer_state_bounded_witness:
  "\<exists>q. hm_get (per_peer (fst test_sys)) test_peer = Some q \<and> tokens (connection_bucket q) \<le> 2"
proof -
  obtain q where q: "hm_get (per_peer (fst test_sys)) test_peer = Some q"
    by (simp add: test_sys_def test_run_def adm_eval)
  from admission_peer_state_bounded [OF test_sys_reach q] have "tokens (connection_bucket q) \<le> 2"
    by (simp add: test_config_def f64_of_nat_def)
  with q show ?thesis by blast
qed

text \<open>
  [C6] A ban holds until it expires. After a failure that issues a ban at time \<open>t\<close>,
  whatever connections, failures and releases follow (with a clock that does not run
  backwards), every connection attempt of that address before \<open>t\<close> plus the ban
  duration is rejected as temporarily banned and leaves no slot behind.
\<close>

theorem ban_blocks_until_expiry:
  assumes "adm_inv c (s0, G)"
    and "record_auth_failure p i t s0 = Some (True, s1)"
    and "trace (adm_step p) (s1, G) es (s2, G2)" "times_ordered t es"
    and "\<forall>e \<in> set es. event_time e \<le> now" "now < t + int (cfg_ban_duration c)"
    and "try_acquire p i (subnet_key i) now s2 = Some (r, s3)"
  shows "r = Inl TemporarilyBanned \<and> unauth s3 = size G2"
proof -
  let ?u = "t + int (cfg_ban_duration c)"
  have wf: "hm_wf (per_peer s0)" "config s0 = c" using assms(1) by (simp_all add: adm_inv_def)
  have inv1: "adm_inv c (s1, G)" by (rule record_auth_failure_inv [OF assms(1,2)])
  have inv2: "adm_inv c (s2, G2)" using assms(3) inv1 by (rule adm.inv_trace)
  have "ban_end s1 i = Some ?u" using record_auth_failure_ban_end [OF assms(2) wf(1)] wf(2) by simp
  with adm_trace_ban [OF assms(3) inv1, of i ?u t ?u] assms(4,5,6)
  obtain u' where u': "?u \<le> u'" "ban_end s2 i = Some u'" by fastforce
  have ban: "banned s2 i now" using u' assms(6) by (simp add: banned_def)
  from assms(7) obtain s' where s': "cleanup_both p i now s2 = Some s'"
    and acq: "acquire_slot i (subnet_key i) now s' = (r, s3)"
    by (auto simp: try_acquire_cleanup)
  have wf2: "hm_wf (per_peer s2)" using inv2 by (simp add: adm_inv_def)
  have "banned s' i now" using cleanup_both_banned(1) [OF s' wf2] ban by simp
  with acq acquire_slot_banned have "r = Inl TemporarilyBanned" "s3 = s'" by auto
  with cleanup_both_Some(2) [OF s' wf2] inv2 show ?thesis
    by (simp add: adm_inv_def adm_counts_def)
qed

text \<open>The third failure bans the peer; after a connection of another address it is still banned.\<close>

definition test_banned :: AdmissionState where
  "test_banned = snd (the (record_auth_failure Unix test_peer 0 (fst test_failed)))"

definition test_later :: adm_sys where
  "test_later = the (adm_exec Unix [Acquire (V4 10 0 1 9) 5] (test_banned, snd test_failed))"

lemma test_failed_inv: "adm_inv test_config (fst test_failed, snd test_failed)"
  using adm.inv_trace [of Unix test_start test_failures test_failed test_config] test_failures_ok
    admission_new_inv [of test_config 0]
  by (simp add: trace_adm_iff test_start_def)

theorem ban_blocks_until_expiry_witness:
  "\<exists>s3. try_acquire Unix test_peer (subnet_key test_peer) 59000000000 (fst test_later) =
      Some (Inl TemporarilyBanned, s3)"
proof -
  have ban: "record_auth_failure Unix test_peer 0 (fst test_failed) = Some (True, test_banned)"
    by (simp add: test_banned_def test_failed_def test_failures_def adm_eval)
  have run: "trace (adm_step Unix) (test_banned, snd test_failed) [Acquire (V4 10 0 1 9) 5]
      (fst test_later, snd test_later)"
    unfolding trace_adm_iff
    by (simp add: test_later_def test_banned_def test_failed_def test_failures_def adm_eval)
  obtain r s3 where last: "try_acquire Unix test_peer (subnet_key test_peer) 59000000000 (fst test_later) = Some (r, s3)"
    by (simp add: test_later_def test_banned_def test_failed_def test_failures_def adm_eval)
  have "59000000000 < (0 :: int) + int (cfg_ban_duration test_config)"
    by (simp add: test_config_def from_secs_def nanos_per_sec_def)
  from ban_blocks_until_expiry [OF test_failed_inv ban run _ _ this last] last show ?thesis by simp
qed

text \<open>
  [C7] The ban threshold counts exactly the recent failures. After any run with a clock
  that does not run backwards, a further failure of an address issues a ban if and only
  if, together with it, the failures of that address since its last ban and within the
  window reach the threshold. Sweeps, connections and other addresses play no part.
\<close>

theorem ban_issued_exactly_at_threshold:
  assumes "trace (adm_step p) (admission_new c t0, {#}) es (s, G)" "times_ordered t0 es" "t0 \<le> now"
    and "\<forall>e \<in> set es. event_time e \<le> now"
    and "record_auth_failure p i now s = Some (b, s')"
  shows "b \<longleftrightarrow> cfg_ban_threshold c \<le>
    length (filter (\<lambda>v. now - int (cfg_ban_window c) \<le> v) (recent_failures c i [] es)) + 1"
proof -
  have inv: "adm_inv c (s, G)"
    using adm.inv_trace [OF assms(1)] admission_new_inv by blast
  have "window_sim c t0 (failures_of (admission_new c t0) i) []"
    by (simp add: window_sim_def failures_of_def admission_new_def)
  with adm_trace_failures [OF assms(1) admission_new_inv assms(2) _ assms(4,3), of i "[]"]
  have "window_sim c now (failures_of s i) (recent_failures c i [] es)" by simp
  from record_auth_failure_spec(2) [OF assms(5) inv this] show ?thesis by simp
qed

theorem ban_issued_exactly_at_threshold_witness:
  "\<exists>s'. record_auth_failure Unix test_peer 0 (fst test_failed) = Some (True, s')"
proof -
  have run: "trace (adm_step Unix) (admission_new test_config 0, {#}) test_failures
      (fst test_failed, snd test_failed)"
    using test_failures_ok by (simp add: trace_adm_iff test_start_def)
  obtain b s' where fail: "record_auth_failure Unix test_peer 0 (fst test_failed) = Some (b, s')"
    by (simp add: test_failed_def test_failures_def adm_eval)
  from ban_issued_exactly_at_threshold [OF run _ _ _ fail] fail show ?thesis
    by (simp add: test_failures_def test_config_def from_secs_def nanos_per_sec_def)
qed



text \<open>
  No panic on Unix. With a non-negative clock, a ban window of at most \<open>2 ^ 63\<close>
  seconds and a ban that ends before the largest \<open>Instant\<close>, every operation on every
  reachable state returns.
\<close>

theorem admission_total_on_unix:
  assumes "reach (admission_new c t0, {#}) (adm_step Unix) (s, G)"
    and "0 \<le> now" "cfg_ban_window c \<le> from_secs (2 ^ 63)"
    and "now + int (cfg_ban_duration c) \<le> instant_max Unix"
  shows "try_acquire Unix i k now s \<noteq> None \<and> record_auth_failure Unix i now s \<noteq> None \<and>
    release Unix i k now s \<noteq> None"
proof -
  have inv: "config s = c" "hm_wf (per_peer s)"
    using adm.inv_reach [OF assms(1)] by (simp_all add: adm_inv_def)
  have clock: "instant_min Unix \<le> now - int (cfg_ban_window (config s))"
    using assms(2,3) inv(1) by (simp add: from_secs_def nanos_per_sec_def)
  from cleanup_both_total [OF clock, of i] release_total [OF clock, of i k]
    record_auth_failure_total [OF clock _ inv(2), of i] inv(1) assms(4)
  show ?thesis by (auto simp: try_acquire_cleanup)
qed

theorem admission_total_on_unix_witness:
  "release Unix test_peer (subnet_key test_peer) 7 (fst test_sys) \<noteq> None"
  using admission_total_on_unix [OF test_sys_reach, of 7]
  by (simp add: test_config_def from_secs_def nanos_per_sec_def)

text \<open>
  [C28] A clock younger than the ban window poisons the controller. Where \<open>Instant\<close>
  starts at zero (Windows counts from boot) the first authentication failure within the
  first window panics in \<open>now - auth_failure_ban_window\<close> while holding the lock, and
  from then on every operation of the controller panics, the release of a guard
  included.
\<close>

theorem early_failure_poisons_controller:
  assumes "adm_inv c (s, G)" "now < int (cfg_ban_window c)"
  shows "record_auth_failure_at Windows (Unlocked s) i now = (None, Poisoned) \<and>
    (\<forall>j t. try_acquire_at p Poisoned j t = (None, Poisoned) \<and>
           record_auth_failure_at p Poisoned j t = (None, Poisoned)) \<and>
    (\<forall>g t. \<not> released g \<longrightarrow> guard_drop p Poisoned g t = (None, Poisoned))"
  using assms record_auth_failure_panics [of now s Windows i]
  by (simp add: adm_inv_def record_auth_failure_at_def try_acquire_at_def guard_drop_def
      guard_release_def controller_release_def)

theorem early_failure_poisons_controller_witness:
  "record_auth_failure_at Windows (controller_new test_config 0) test_peer 29000000000 = (None, Poisoned)"
  using early_failure_poisons_controller [OF admission_new_inv [of test_config 0], of 29000000000 test_peer Windows]
  by (simp add: controller_new_def test_config_def from_secs_def nanos_per_sec_def)

text \<open>
  [C29] The rate limit does not bind an address that disconnects. Releasing the last
  connection of an address without failures drops its entry together with its token
  bucket, so any number of connect and disconnect cycles is admitted at one instant,
  whatever the configured rate.
\<close>

theorem reconnects_are_never_rate_limited:
  assumes "1 \<le> cfg_max_global c" "1 \<le> cfg_max_per_ip c" "1 \<le> cfg_max_per_subnet c"
    and "1 \<le> cfg_burst c" "cfg_burst c \<le> 2 ^ 53"
    and "instant_min p \<le> now - int (cfg_ban_window c)"
  shows "\<exists>s. connect_cycles p i now n (admission_new c t0) = Some s \<and> unauth s = 0"
proof -
  have "\<exists>s'. connect_cycles p i now n s = Some s' \<and> unauth s' = 0"
    if "adm_inv c (s, {#})" "hm_get (per_peer s) i = None" for s
    using that
  proof (induction n arbitrary: s)
    case 0
    then show ?case by (simp add: adm_inv_def adm_counts_def)
  next
    case (Suc n)
    from cycle_forgets_peer [OF Suc.prems assms] Suc.IH show ?case by fastforce
  qed
  with admission_new_inv [of c t0] show ?thesis by (simp add: admission_new_def)
qed

theorem reconnects_are_never_rate_limited_witness:
  "\<exists>s. connect_cycles Unix test_peer 0 100000 (admission_new test_config 0) = Some s \<and> unauth s = 0"
  by (rule reconnects_are_never_rate_limited) (simp_all add: test_config_def from_secs_def nanos_per_sec_def)

text \<open>
  A guard gives its slot back exactly once. Marking the connection authenticated
  releases the guard and then drops it; the controller ends with the live guards minus
  this one, the same as if the guard had only been dropped.
\<close>

theorem guard_released_exactly_once:
  assumes "adm_inv c (s, G)" "guard_ip g \<in># G" "guard_subnet g = subnet_key (guard_ip g)" "\<not> released g"
    and "mark_authenticated p (Unlocked s) g now now' = (Some (), ctl)"
  shows "guard_drop p (Unlocked s) g now = (Some (), ctl) \<and>
    (\<exists>s'. ctl = Unlocked s' \<and> adm_inv c (s', G - {#guard_ip g#}))"
proof -
  from assms(4,5) obtain s' where s': "release p (guard_ip g) (guard_subnet g) now s = Some s'" "ctl = Unlocked s'"
    by (auto simp: mark_authenticated_def guard_drop_def guard_release_def controller_release_def
        split: option.splits prod.splits)
  with release_inv [OF assms(1,2)] assms(3,4) show ?thesis
    by (simp add: guard_drop_def guard_release_def controller_release_def)
qed

theorem guard_released_exactly_once_witness:
  "\<exists>s'. guard_drop Unix (Unlocked (fst test_sys))
        \<lparr>guard_ip = test_peer, guard_subnet = subnet_key test_peer, released = False\<rparr> 0 = (Some (), Unlocked s') \<and>
      unauth s' = 0"
proof -
  let ?g = "\<lparr>guard_ip = test_peer, guard_subnet = subnet_key test_peer, released = False\<rparr>"
  have inv: "adm_inv test_config (fst test_sys, snd test_sys)" by (rule adm.inv_reach [OF test_sys_reach])
  have live: "snd test_sys = {#test_peer#}" by (simp add: test_sys_def test_run_def adm_eval)
  obtain ctl where "mark_authenticated Unix (Unlocked (fst test_sys)) ?g 0 0 = (Some (), ctl)"
    by (simp add: mark_authenticated_def guard_drop_def guard_release_def controller_release_def
        test_sys_def test_run_def adm_eval)
  from guard_released_exactly_once [OF inv _ _ _ this] live show ?thesis
    by (auto simp: adm_inv_def adm_counts_def)
qed

end
