(* ===== verification/Rust_Text.thy ===== *)
theory Rust_Text
  imports Prelude
begin

text \<open>
  The string and path functions of the Rust standard library that the daemon uses.

  A \<open>str\<close> is the list of its UTF-8 bytes (\<open>string\<close>); white space is recognised on byte
  prefixes, so that the multi-byte white space of Unicode is treated as \<open>str::trim\<close> and
  \<open>str::split_whitespace\<close> treat it. Paths are Unix paths: a \<open>Path\<close> is its string, and
  \<open>components\<close>, \<open>join\<close>, \<open>parent\<close>, \<open>file_stem\<close> follow \<open>std::path\<close>.
\<close>

subsection \<open>White space\<close>

definition byte :: "nat \<Rightarrow> char" where
  "byte n = char_of n"

definition ascii_ws :: "char \<Rightarrow> bool" where
  "ascii_ws c \<longleftrightarrow> c = CHR '' '' \<or> c = CHR 0x09 \<or> c = CHR 0x0A \<or> c = CHR 0x0B \<or> c = CHR 0x0C \<or> c = CHR 0x0D"

definition ws2 :: "char \<Rightarrow> char \<Rightarrow> bool" where
  "ws2 a b \<longleftrightarrow> a = CHR 0xC2 \<and> (b = CHR 0x85 \<or> b = CHR 0xA0)"

definition ws3 :: "char \<Rightarrow> char \<Rightarrow> char \<Rightarrow> bool" where
  "ws3 a b c \<longleftrightarrow>
     (a = CHR 0xE1 \<and> b = CHR 0x9A \<and> c = CHR 0x80) \<or>
     (a = CHR 0xE2 \<and> b = CHR 0x80 \<and>
        ((0x80 \<le> (of_char c :: nat) \<and> (of_char c :: nat) \<le> 0x8A) \<or> c = CHR 0xA8 \<or> c = CHR 0xA9 \<or> c = CHR 0xAF)) \<or>
     (a = CHR 0xE2 \<and> b = CHR 0x81 \<and> c = CHR 0x9F) \<or>
     (a = CHR 0xE3 \<and> b = CHR 0x80 \<and> c = CHR 0x80)"

text \<open>The length in bytes of the white space character a string starts or ends with, 0 if none.\<close>

definition ws_len :: "string \<Rightarrow> nat" where
  "ws_len s =
     (case s of
        [] \<Rightarrow> 0
      | a # s1 \<Rightarrow>
         if ascii_ws a then 1
         else (case s1 of
             [] \<Rightarrow> 0
           | b # s2 \<Rightarrow>
              if ws2 a b then 2
              else (case s2 of [] \<Rightarrow> 0 | c # _ \<Rightarrow> if ws3 a b c then 3 else 0)))"

definition ws_len_back :: "string \<Rightarrow> nat" where
  "ws_len_back r =
     (case r of
        [] \<Rightarrow> 0
      | a # r1 \<Rightarrow>
         if ascii_ws a then 1
         else (case r1 of
             [] \<Rightarrow> 0
           | b # r2 \<Rightarrow>
              if ws2 b a then 2
              else (case r2 of [] \<Rightarrow> 0 | c # _ \<Rightarrow> if ws3 c b a then 3 else 0)))"

lemma ws_len_le: "ws_len s \<le> length s"
  by (auto simp: ws_len_def split: list.splits)

lemma ws_len_back_le: "ws_len_back s \<le> length s"
  by (auto simp: ws_len_back_def split: list.splits)

function trim_start :: "string \<Rightarrow> string" where
  "trim_start s = (if ws_len s = 0 then s else trim_start (drop (ws_len s) s))"
  by pat_completeness auto

termination trim_start
proof (relation "measure length")
  show "wf (measure length)" by simp
next
  fix s :: string
  assume "ws_len s \<noteq> 0"
  with ws_len_le [of s] show "(drop (ws_len s) s, s) \<in> measure length" by simp
qed

function trim_back :: "string \<Rightarrow> string" where
  "trim_back r = (if ws_len_back r = 0 then r else trim_back (drop (ws_len_back r) r))"
  by pat_completeness auto

termination trim_back
proof (relation "measure length")
  show "wf (measure length)" by simp
next
  fix r :: string
  assume "ws_len_back r \<noteq> 0"
  with ws_len_back_le [of r] show "(drop (ws_len_back r) r, r) \<in> measure length" by simp
qed

declare trim_start.simps [simp del] trim_back.simps [simp del]

definition trim_end :: "string \<Rightarrow> string" where
  "trim_end s = rev (trim_back (rev s))"

definition trim :: "string \<Rightarrow> string" where
  "trim s = trim_end (trim_start s)"

text \<open>\<open>split_whitespace\<close>: the words between white space; \<open>w\<close> is the word being read.\<close>

function words_from :: "string \<Rightarrow> string \<Rightarrow> string list" where
  "words_from w s =
     (case s of
        [] \<Rightarrow> if w = [] then [] else [w]
      | c # s' \<Rightarrow>
         if ws_len s = 0 then words_from (w @ [c]) s'
         else (if w = [] then [] else [w]) @ words_from [] (drop (ws_len s) s))"
  by pat_completeness auto

termination words_from
proof (relation "measure (\<lambda>(w, s). length s)")
  show "wf (measure (\<lambda>(w, s). length s))" by simp
next
  fix w s :: string and c s'
  assume "s = c # s'" "ws_len s \<noteq> 0"
  with ws_len_le [of s] show "(([], drop (ws_len s) s), w, s) \<in> measure (\<lambda>(w, s). length s)" by simp
qed simp

declare words_from.simps [simp del]

definition split_whitespace :: "string \<Rightarrow> string list" where
  "split_whitespace s = words_from [] s"

subsection \<open>Lines, case, joining\<close>

text \<open>\<open>str::lines\<close>: the line feed ends a line, a carriage return before it belongs to the ending.\<close>

definition strip_cr :: "string \<Rightarrow> string" where
  "strip_cr s = (if s \<noteq> [] \<and> last s = CHR 0x0D then butlast s else s)"

fun lines_from :: "string \<Rightarrow> string \<Rightarrow> string list" where
  "lines_from l [] = (if l = [] then [] else [l])"
| "lines_from l (c # s) = (if c = CHR 0x0A then strip_cr l # lines_from [] s else lines_from (l @ [c]) s)"

definition str_lines :: "string \<Rightarrow> string list" where
  "str_lines s = lines_from [] s"

definition to_lower :: "char \<Rightarrow> char" where
  "to_lower c = (let n = of_char c :: nat in if 65 \<le> n \<and> n \<le> 90 then char_of (n + 32) else c)"

definition to_ascii_lowercase :: "string \<Rightarrow> string" where
  "to_ascii_lowercase s = map to_lower s"

fun join_with :: "string \<Rightarrow> string list \<Rightarrow> string" where
  "join_with sep [] = []"
| "join_with sep [s] = s"
| "join_with sep (s # t # ss) = s @ sep @ join_with sep (t # ss)"

definition starts_with :: "string \<Rightarrow> string \<Rightarrow> bool" where
  "starts_with p s \<longleftrightarrow> take (length p) s = p"

text \<open>\<open>trim_start_matches\<close> removes the prefix as often as it occurs.\<close>

function trim_start_matches :: "string \<Rightarrow> string \<Rightarrow> string" where
  "trim_start_matches p s =
     (if p \<noteq> [] \<and> starts_with p s then trim_start_matches p (drop (length p) s) else s)"
  by pat_completeness auto

termination trim_start_matches
proof (relation "measure (\<lambda>(p, s). length s)")
  show "wf (measure (\<lambda>(p, s). length s))" by simp
next
  fix p s :: string
  assume *: "p \<noteq> [] \<and> starts_with p s"
  then have "s \<noteq> []" by (auto simp: starts_with_def)
  with * show "((p, drop (length p) s), p, s) \<in> measure (\<lambda>(p, s). length s)" by simp
qed

declare trim_start_matches.simps [simp del]

subsection \<open>Decimal numbers\<close>

datatype IntErrorKind = IntEmpty | InvalidDigit | PosOverflow

definition is_digit :: "char \<Rightarrow> bool" where
  "is_digit c \<longleftrightarrow> 48 \<le> (of_char c :: nat) \<and> (of_char c :: nat) \<le> 57"

definition digit_val :: "char \<Rightarrow> nat" where
  "digit_val c = of_char c - 48"

definition digit_char :: "nat \<Rightarrow> char" where
  "digit_char d = char_of (48 + d)"

fun digits_from :: "nat \<Rightarrow> nat \<Rightarrow> string \<Rightarrow> (IntErrorKind, nat) result" where
  "digits_from m acc [] = Inr acc"
| "digits_from m acc (c # cs) =
     (if \<not> is_digit c then Inl InvalidDigit
      else if m < acc * 10 + digit_val c then Inl PosOverflow
      else digits_from m (acc * 10 + digit_val c) cs)"

text \<open>\<open>from_str\<close> of an unsigned integer type with largest value \<open>m\<close>; a leading plus is allowed.\<close>

definition parse_uint :: "nat \<Rightarrow> string \<Rightarrow> (IntErrorKind, nat) result" where
  "parse_uint m s =
     (case s of
        [] \<Rightarrow> Inl IntEmpty
      | c # cs \<Rightarrow>
         if c = CHR ''+'' then (if cs = [] then Inl InvalidDigit else digits_from m 0 cs)
         else digits_from m 0 s)"

fun show_nat :: "nat \<Rightarrow> string" where
  "show_nat n = (if n < 10 then [digit_char n] else show_nat (n div 10) @ [digit_char (n mod 10)])"

declare show_nat.simps [simp del]

lemma digit_char_facts [simp]:
  assumes "d < 10"
  shows "is_digit (digit_char d)" "digit_val (digit_char d) = d"
  using assms by (simp_all add: is_digit_def digit_char_def digit_val_def)

lemma digits_from_append:
  "digits_from m acc (xs @ ys) = res_bind (digits_from m acc xs) (\<lambda>a. digits_from m a ys)"
  by (induction m acc xs rule: digits_from.induct) simp_all

lemma digits_from_show: "n \<le> m \<Longrightarrow> digits_from m 0 (show_nat n) = Inr n"
proof (induction n rule: show_nat.induct)
  case (1 n)
  show ?case
  proof (cases "n < 10")
    case True
    with "1.prems" show ?thesis by (simp add: show_nat.simps [of n])
  next
    case False
    have "n div 10 \<le> m" using "1.prems" by simp
    with 1 False show ?thesis
      by (simp add: show_nat.simps [of n] digits_from_append)
  qed
qed

lemma digits_from_bound: "digits_from m acc s = Inr n \<Longrightarrow> acc \<le> m \<Longrightarrow> n \<le> m"
  by (induction m acc s rule: digits_from.induct) (auto split: if_splits)

lemma parse_uint_bound: "parse_uint m s = Inr n \<Longrightarrow> n \<le> m"
  by (auto simp: parse_uint_def digits_from_bound split: list.splits if_splits)

lemma show_nat_digits: "c \<in> set (show_nat n) \<Longrightarrow> is_digit c"
proof (induction n rule: show_nat.induct)
  case (1 n)
  then show ?case
    by (subst (asm) (2) show_nat.simps) (auto split: if_splits)
qed

lemma show_nat_not_Nil [simp]: "show_nat n \<noteq> []"
  by (subst show_nat.simps) simp

lemma parse_uint_show: "n \<le> m \<Longrightarrow> parse_uint m (show_nat n) = Inr n"
proof -
  assume n: "n \<le> m"
  obtain c cs where s: "show_nat n = c # cs" using show_nat_not_Nil by (cases "show_nat n") blast+
  have "is_digit c" using show_nat_digits [of c n] s by simp
  then have "c \<noteq> CHR ''+''" by (auto simp: is_digit_def)
  with digits_from_show [OF n] s show ?thesis by (simp add: parse_uint_def)
qed

subsection \<open>What trimming and splitting leave\<close>

lemma trim_start_ws: "ws_len (trim_start s) = 0"
proof (induction s rule: trim_start.induct)
  case (1 s)
  then show ?case by (cases "ws_len s = 0") (simp_all add: trim_start.simps [of s])
qed

lemma trim_back_ws: "ws_len_back (trim_back r) = 0"
proof (induction r rule: trim_back.induct)
  case (1 r)
  then show ?case by (cases "ws_len_back r = 0") (simp_all add: trim_back.simps [of r])
qed

lemma trim_start_id: "ws_len s = 0 \<Longrightarrow> trim_start s = s"
  by (simp add: trim_start.simps)

lemma trim_back_id: "ws_len_back r = 0 \<Longrightarrow> trim_back r = r"
  by (simp add: trim_back.simps)

lemma trim_id: "ws_len s = 0 \<Longrightarrow> ws_len_back (rev s) = 0 \<Longrightarrow> trim s = s"
  by (simp add: trim_def trim_end_def trim_start_id trim_back_id)

lemma words_from_not_Nil: "u \<in> set (words_from w s) \<Longrightarrow> u \<noteq> []"
proof (induction w s rule: words_from.induct)
  case (1 w s)
  show ?case
  proof (cases s)
    case Nil
    with "1.prems" show ?thesis by (simp add: words_from.simps [of w] split: if_splits)
  next
    case (Cons c s')
    show ?thesis
    proof (cases "ws_len s = 0")
      case True
      with 1 Cons show ?thesis by (simp add: words_from.simps [of w "c # s'"])
    next
      case False
      with 1 Cons show ?thesis by (auto simp: words_from.simps [of w "c # s'"] split: if_splits)
    qed
  qed
qed

lemma split_whitespace_not_Nil: "u \<in> set (split_whitespace s) \<Longrightarrow> u \<noteq> []"
  by (simp add: split_whitespace_def words_from_not_Nil)

lemma trim_digits:
  assumes "\<forall>c \<in> set s. is_digit c \<or> (97 \<le> (of_char c :: nat) \<and> (of_char c :: nat) \<le> 122)
    \<or> (65 \<le> (of_char c :: nat) \<and> (of_char c :: nat) \<le> 90)"
  shows "trim s = s"
proof -
  have plain: "\<not> ascii_ws c" "c \<noteq> CHR 0xC2" "c \<noteq> CHR 0xE1" "c \<noteq> CHR 0xE2" "c \<noteq> CHR 0xE3"
    if "c \<in> set s" for c
    using assms that by (auto simp: is_digit_def ascii_ws_def)
  have "ws_len s = 0"
    using plain by (auto simp: ws_len_def ws2_def ws3_def split: list.splits)
  moreover have "set (rev s) = set s" by simp
  then have "ws_len_back (rev s) = 0"
    using plain unfolding ws_len_back_def ws2_def ws3_def
    by (cases "rev s" rule: list.exhaust; fastforce split: list.splits)
  ultimately show ?thesis by (rule trim_id)
qed

subsection \<open>Unix paths\<close>

type_synonym path = string

datatype path_component = RootDir | CurDir | ParentDir | Normal string

fun split_at_slash :: "string \<Rightarrow> string \<Rightarrow> string list" where
  "split_at_slash w [] = [w]"
| "split_at_slash w (c # s) = (if c = CHR ''/'' then w # split_at_slash [] s else split_at_slash (w @ [c]) s)"

definition path_parts :: "path \<Rightarrow> string list" where
  "path_parts p = split_at_slash [] p"

definition is_absolute :: "path \<Rightarrow> bool" where
  "is_absolute p \<longleftrightarrow> p \<noteq> [] \<and> hd p = CHR ''/''"

definition body_component :: "string \<Rightarrow> path_component option" where
  "body_component w =
     (if w = [] \<or> w = ''.'' then None
      else if w = ''..'' then Some ParentDir
      else Some (Normal w))"

definition starts_with_cur_dir :: "path \<Rightarrow> bool" where
  "starts_with_cur_dir p \<longleftrightarrow> hd (path_parts p) = ''.''"

definition components :: "path \<Rightarrow> path_component list" where
  "components p =
     (if is_absolute p then [RootDir] else if starts_with_cur_dir p then [CurDir] else []) @
     List.map_filter body_component (path_parts p)"

definition path_join :: "path \<Rightarrow> path \<Rightarrow> path" where
  "path_join b p =
     (if is_absolute p then p
      else if b \<noteq> [] \<and> last b \<noteq> CHR ''/'' then b @ ''/'' @ p
      else b @ p)"

definition file_name :: "path \<Rightarrow> string option" where
  "file_name p =
     (if components p = [] then None
      else case last (components p) of Normal w \<Rightarrow> Some w | _ \<Rightarrow> None)"

text \<open>The part of a file name before its last dot; a name whose only dot is the first has no extension.\<close>

definition before_last_dot :: "string \<Rightarrow> string" where
  "before_last_dot w = rev (tl (dropWhile (\<lambda>c. c \<noteq> CHR ''.'') (rev w)))"

definition stem_of :: "string \<Rightarrow> string" where
  "stem_of w =
     (if CHR ''.'' \<notin> set w then w
      else if before_last_dot w = [] then w
      else before_last_dot w)"

definition file_stem :: "path \<Rightarrow> string option" where
  "file_stem p = map_option stem_of (file_name p)"

text \<open>
  \<open>Path::parent\<close> works on the string: trailing separators and dots are dropped, then the
  last component, then separators and dots again. The first \<open>n\<close> characters (root or
  leading dot) are never touched.
\<close>

definition last_part :: "string \<Rightarrow> string" where
  "last_part b = rev (takeWhile (\<lambda>c. c \<noteq> CHR ''/'') (rev b))"

definition drop_last_part :: "string \<Rightarrow> string" where
  "drop_last_part b = rev (drop 1 (dropWhile (\<lambda>c. c \<noteq> CHR ''/'') (rev b)))"

lemma drop_last_part_shorter: "b \<noteq> [] \<Longrightarrow> length (drop_last_part b) < length b"
proof -
  assume b: "b \<noteq> []"
  have le: "length (dropWhile (\<lambda>c. c \<noteq> CHR ''/'') (rev b)) \<le> length b"
    using length_dropWhile_le [of _ "rev b"] by simp
  show ?thesis
  proof (cases "dropWhile (\<lambda>c. c \<noteq> CHR ''/'') (rev b)")
    case Nil
    then have "drop_last_part b = []" by (simp only: drop_last_part_def) simp
    with b show ?thesis by simp
  next
    case (Cons a l)
    with le show ?thesis by (simp add: drop_last_part_def)
  qed
qed

function strip_back :: "string \<Rightarrow> string" where
  "strip_back b =
     (if b \<noteq> [] \<and> body_component (last_part b) = None then strip_back (drop_last_part b) else b)"
  by pat_completeness auto

termination strip_back
  by (relation "measure length") (use drop_last_part_shorter in auto)

declare strip_back.simps [simp del]

definition len_before_body :: "path \<Rightarrow> nat" where
  "len_before_body p = (if is_absolute p \<or> starts_with_cur_dir p then 1 else 0)"

definition path_parent :: "path \<Rightarrow> path option" where
  "path_parent p =
     (let n = len_before_body p; b = strip_back (drop n p) in
      if b \<noteq> [] then Some (take n p @ strip_back (drop_last_part b))
      else if is_absolute p then None
      else if starts_with_cur_dir p then Some []
      else None)"

lemma path_join_absolute [simp]: "is_absolute b \<Longrightarrow> is_absolute (path_join b p)"
  by (auto simp: path_join_def is_absolute_def)

lemma path_join_join:
  assumes "\<not> is_absolute q" "p \<noteq> []" "last p \<noteq> CHR ''/''"
  shows "path_join (path_join b p) q = path_join b (p @ ''/'' @ q)"
  using assms by (auto simp: path_join_def is_absolute_def)

lemma path_parent_examples:
  "path_parent ''/etc/narrowd/narrowd.conf'' = Some ''/etc/narrowd''"
  "path_parent ''/a//b/./'' = Some ''/a''"
  "path_parent ''/'' = None" "path_parent ''conf'' = Some []" "path_parent ''./x'' = Some ''.''"
  "path_parent [] = None"
  by code_simp+

end
