(* ===== verification/Config.thy ===== *)
theory Config
  imports Rust_Text Rust_Time
begin

text \<open>
  The configuration (\<open>src/src/config.rs\<close>): the directive language, its value parsers,
  the defaults, path expansion, validation and loading.

  Errors are values of \<open>ConfigError\<close>; a value error carries the directive and the line
  number the code puts into the message. The home and configuration directories come
  from the crate \<open>dirs\<close> and are the parameter \<open>Dirs\<close>; the file system that \<open>load\<close> reads is
  a parameter too. Paths are Unix paths; \<open>usize\<close> has 64 bits.
\<close>

subsection \<open>Errors and enumerations\<close>

datatype ValueError =
    BadInteger IntErrorKind
  | EmptyValue
  | NoLeadingDigits
  | UnsupportedSuffix string
  | TooLarge
  | NotABoolean string
  | UnsupportedLogLevel string
  | UnsupportedExecMode string

datatype LogLevel = Error | Warn | Info | Debug | Trace

datatype ExecMode = ShellLogin | ShellCommand | PowerShell | Cmd

datatype ConfigError =
    NoHomeDirectory
  | MissingValue string nat
  | InvalidValue string nat ValueError
  | UnsupportedDirective string nat
  | PubkeyAuthenticationRequired
  | PasswordAuthenticationUnsupported
  | ShellMismatch ExecMode path
  | ReadFailed path

definition log_level_parse :: "string \<Rightarrow> (ValueError, LogLevel) result" where
  "log_level_parse input =
     (let s = to_ascii_lowercase (trim input) in
      if s = ''error'' then Inr Error
      else if s = ''warn'' \<or> s = ''warning'' then Inr Warn
      else if s = ''info'' then Inr Info
      else if s = ''debug'' then Inr Debug
      else if s = ''trace'' then Inr Trace
      else Inl (UnsupportedLogLevel s))"

fun log_level_display :: "LogLevel \<Rightarrow> string" where
  "log_level_display Error = ''error''"
| "log_level_display Warn = ''warn''"
| "log_level_display Info = ''info''"
| "log_level_display Debug = ''debug''"
| "log_level_display Trace = ''trace''"

definition exec_mode_parse :: "string \<Rightarrow> (ValueError, ExecMode) result" where
  "exec_mode_parse input =
     (let s = to_ascii_lowercase (trim input) in
      if s = ''shell-login'' \<or> s = ''login-shell'' then Inr ShellLogin
      else if s = ''shell-command'' \<or> s = ''command-shell'' \<or> s = ''shell'' then Inr ShellCommand
      else if s = ''powershell'' \<or> s = ''pwsh'' then Inr PowerShell
      else if s = ''cmd'' \<or> s = ''cmd.exe'' then Inr Cmd
      else Inl (UnsupportedExecMode s))"

fun default_for_current_platform :: "platform \<Rightarrow> ExecMode" where
  "default_for_current_platform Windows = PowerShell"
| "default_for_current_platform Unix = ShellLogin"

fun command_flag :: "ExecMode \<Rightarrow> string" where
  "command_flag ShellLogin = ''-lc''"
| "command_flag ShellCommand = ''-c''"
| "command_flag PowerShell = ''-Command''"
| "command_flag Cmd = ''/C''"

fun validate_shell :: "ExecMode \<Rightarrow> path \<Rightarrow> (ConfigError, unit) result" where
  "validate_shell PowerShell sh =
     (if map_option to_ascii_lowercase (file_stem sh) \<in> {Some ''powershell'', Some ''pwsh''}
      then Inr () else Inl (ShellMismatch PowerShell sh))"
| "validate_shell Cmd sh =
     (if map_option to_ascii_lowercase (file_stem sh) = Some ''cmd''
      then Inr () else Inl (ShellMismatch Cmd sh))"
| "validate_shell ShellLogin sh = Inr ()"
| "validate_shell ShellCommand sh = Inr ()"

fun exec_mode_display :: "ExecMode \<Rightarrow> string" where
  "exec_mode_display ShellLogin = ''shell-login''"
| "exec_mode_display ShellCommand = ''shell-command''"
| "exec_mode_display PowerShell = ''powershell''"
| "exec_mode_display Cmd = ''cmd''"

subsection \<open>Value parsers\<close>

definition u16_max :: nat where "u16_max = 2 ^ 16 - 1"
definition u32_max :: nat where "u32_max = 2 ^ 32 - 1"
definition usize_max :: nat where "usize_max = 2 ^ 64 - 1"

definition parse_int :: "nat \<Rightarrow> string \<Rightarrow> (ValueError, nat) result" where
  "parse_int m s = map_sum BadInteger id (parse_uint m s)"

definition parse_bool :: "string \<Rightarrow> (ValueError, bool) result" where
  "parse_bool input =
     (let s = to_ascii_lowercase (trim input) in
      if s = ''yes'' \<or> s = ''true'' \<or> s = ''on'' \<or> s = ''1'' then Inr True
      else if s = ''no'' \<or> s = ''false'' \<or> s = ''off'' \<or> s = ''0'' then Inr False
      else Inl (NotABoolean s))"

definition duration_of :: "nat \<Rightarrow> string \<Rightarrow> (ValueError, duration) result" where
  "duration_of value suffix =
     (if suffix = [] \<or> suffix = ''s'' then Inr (from_secs value)
      else if suffix = ''ms'' then Inr (from_millis value)
      else if suffix = ''m'' then Inr (from_secs (min (value * 60) u64_max))
      else if suffix = ''h'' then Inr (from_secs (min (value * (60 * 60)) u64_max))
      else Inl (UnsupportedSuffix suffix))"

definition parse_duration :: "string \<Rightarrow> (ValueError, duration) result" where
  "parse_duration input0 =
     (let input = trim input0;
          digits = takeWhile is_digit input;
          suffix = dropWhile is_digit input
      in if input = [] then Inl EmptyValue
         else if digits = [] then Inl NoLeadingDigits
         else res_bind (parse_int u64_max digits) (\<lambda>value. duration_of value (to_ascii_lowercase suffix)))"

definition byte_multiplier :: "string \<Rightarrow> (ValueError, nat) result" where
  "byte_multiplier suffix =
     (if suffix = [] \<or> suffix = ''b'' then Inr 1
      else if suffix = ''k'' \<or> suffix = ''kb'' then Inr 1000
      else if suffix = ''ki'' \<or> suffix = ''kib'' then Inr 1024
      else if suffix = ''m'' \<or> suffix = ''mb'' then Inr 1000000
      else if suffix = ''mi'' \<or> suffix = ''mib'' then Inr 1048576
      else Inl (UnsupportedSuffix suffix))"

definition parse_byte_size :: "string \<Rightarrow> (ValueError, nat) result" where
  "parse_byte_size input0 =
     (let input = trim input0;
          digits = takeWhile is_digit input;
          suffix = dropWhile is_digit input
      in if input = [] then Inl EmptyValue
         else if digits = [] then Inl NoLeadingDigits
         else res_bind (parse_int usize_max digits) (\<lambda>value.
              res_bind (byte_multiplier (to_ascii_lowercase suffix)) (\<lambda>multiplier.
              if value * multiplier \<le> usize_max then Inr (value * multiplier) else Inl TooLarge)))"

subsection \<open>Paths of the configuration\<close>

record Dirs =
  home_dir :: "path option"
  config_dir :: "path option"

definition expand_home :: "Dirs \<Rightarrow> path \<Rightarrow> (ConfigError, path) result" where
  "expand_home d p =
     (if p = ''~'' \<or> starts_with ''~/'' p then
        res_bind (ok_or NoHomeDirectory (home_dir d)) (\<lambda>home.
          if p = ''~'' then Inr home
          else Inr (path_join home (trim_start_matches ''~/'' p)))
      else Inr p)"

definition resolve_config_path :: "Dirs \<Rightarrow> string \<Rightarrow> path \<Rightarrow> (ConfigError, path) result" where
  "resolve_config_path d input base_dir =
     res_bind (expand_home d input) (\<lambda>p.
       if is_absolute p then Inr p else Inr (path_join base_dir p))"

definition resolve_shell_command_or_path :: "Dirs \<Rightarrow> string \<Rightarrow> path \<Rightarrow> (ConfigError, path) result" where
  "resolve_shell_command_or_path d input base_dir =
     res_bind (expand_home d input) (\<lambda>p.
       if is_absolute p then Inr p
       else if length (components p) \<le> 1 then Inr p
       else Inr (path_join base_dir p))"

definition config_root_of :: "Dirs \<Rightarrow> path \<Rightarrow> path" where
  "config_root_of d home = (case config_dir d of Some r \<Rightarrow> r | None \<Rightarrow> path_join home ''.config'')"

definition default_config_path :: "Dirs \<Rightarrow> (ConfigError, path option) result" where
  "default_config_path d =
     res_bind (ok_or NoHomeDirectory (home_dir d)) (\<lambda>home.
       Inr (Some (path_join (config_root_of d home) ''narrowd/narrowd.conf'')))"

subsection \<open>The configuration and its directives\<close>

record AppConfig =
  listen_address :: string
  port :: nat
  host_key :: path
  authorized_keys_file :: path
  shell :: path
  exec_mode :: ExecMode
  permit_tty :: bool
  permit_exec :: bool
  sftp_enabled :: bool
  allow_tcp_forwarding :: bool
  allow_remote_forwarding :: bool
  gateway_ports :: bool
  max_unauth_connections_global :: nat
  max_unauth_connections_per_ip :: nat
  max_unauth_connections_per_subnet :: nat
  new_connections_per_minute_per_ip :: nat
  new_connections_burst_per_ip :: nat
  login_grace_time :: duration
  client_banner_timeout :: duration
  kex_start_timeout :: duration
  max_auth_attempts :: nat
  auth_rejection_time :: duration
  auth_failure_ban_threshold :: nat
  auth_failure_ban_window :: duration
  auth_failure_ban_duration :: duration
  inactivity_timeout :: duration
  keepalive_interval :: duration
  keepalive_max :: nat
  channel_buffer_size :: nat
  event_buffer_size :: nat
  window_size :: nat
  maximum_packet_size :: nat
  nodelay :: bool
  authorized_keys_max_size :: nat
  authorized_keys_max_entries :: nat
  authorized_keys_reload_interval :: duration
  log_level :: LogLevel

definition default_config :: "platform \<Rightarrow> path \<Rightarrow> path \<Rightarrow> AppConfig" where
  "default_config p home config_root = \<lparr>
          listen_address = ''0.0.0.0'',
          port = 2222,
          host_key = path_join config_root ''narrowd/ssh_host_ed25519_key'',
          authorized_keys_file = path_join home ''.ssh/authorized_keys'',
          shell = (case p of Windows \<Rightarrow> ''powershell.exe'' | Unix \<Rightarrow> ''/bin/bash''),
          exec_mode = default_for_current_platform p,
          permit_tty = True,
          permit_exec = True,
          sftp_enabled = True,
          allow_tcp_forwarding = True,
          allow_remote_forwarding = True,
          gateway_ports = True,
          max_unauth_connections_global = 16,
          max_unauth_connections_per_ip = 3,
          max_unauth_connections_per_subnet = 8,
          new_connections_per_minute_per_ip = 12,
          new_connections_burst_per_ip = 4,
          login_grace_time = from_secs 15,
          client_banner_timeout = from_secs 5,
          kex_start_timeout = from_secs 5,
          max_auth_attempts = 4,
          auth_rejection_time = from_secs 2,
          auth_failure_ban_threshold = 8,
          auth_failure_ban_window = from_secs (10 * 60),
          auth_failure_ban_duration = from_secs (15 * 60),
          inactivity_timeout = from_secs (15 * 60),
          keepalive_interval = from_secs 30,
          keepalive_max = 3,
          channel_buffer_size = 32,
          event_buffer_size = 16,
          window_size = 1048576,
          maximum_packet_size = 32768,
          nodelay = True,
          authorized_keys_max_size = 256 * 1024,
          authorized_keys_max_entries = 128,
          authorized_keys_reload_interval = from_secs 2,
          log_level = Info\<rparr>"

definition app_defaults :: "platform \<Rightarrow> Dirs \<Rightarrow> (ConfigError, AppConfig) result" where
  "app_defaults p d =
     res_bind (ok_or NoHomeDirectory (home_dir d)) (\<lambda>home.
       Inr (default_config p home (config_root_of d home)))"

definition validate :: "AppConfig \<Rightarrow> (ConfigError, unit) result" where
  "validate c = (if permit_exec c then validate_shell (exec_mode c) (shell c) else Inr ())"

definition invalid :: "string \<Rightarrow> nat \<Rightarrow> (ValueError, 'a) result \<Rightarrow> (ConfigError, 'a) result" where
  "invalid name line r = map_sum (InvalidValue name line) id r"

definition set_value ::
    "string \<Rightarrow> nat \<Rightarrow> (ValueError, 'a) result \<Rightarrow> ('a \<Rightarrow> AppConfig) \<Rightarrow> (ConfigError, AppConfig) result" where
  "set_value name line r upd = res_bind (invalid name line r) (\<lambda>x. Inr (upd x))"

text \<open>The arms of the match on the lower-cased key, for the first value \<open>v\<close> and all values \<open>joined\<close>.\<close>

definition directives ::
    "Dirs \<Rightarrow> path \<Rightarrow> nat \<Rightarrow> string \<Rightarrow> string \<Rightarrow> AppConfig \<Rightarrow> (string \<times> (ConfigError, AppConfig) result) list" where
  "directives d base line v joined c = [
      (''port'', set_value ''Port'' line (parse_int u16_max v) (\<lambda>x. c\<lparr>port := x\<rparr>)),
      (''listenaddress'', Inr (c\<lparr>listen_address := joined\<rparr>)),
      (''hostkey'', map_sum id (\<lambda>x. c\<lparr>host_key := x\<rparr>) (resolve_config_path d joined base)),
      (''authorizedkeysfile'', map_sum id (\<lambda>x. c\<lparr>authorized_keys_file := x\<rparr>) (resolve_config_path d joined base)),
      (''shell'', map_sum id (\<lambda>x. c\<lparr>shell := x\<rparr>) (resolve_shell_command_or_path d joined base)),
      (''execmode'', set_value ''ExecMode'' line (exec_mode_parse v) (\<lambda>x. c\<lparr>exec_mode := x\<rparr>)),
      (''permittty'', set_value ''PermitTTY'' line (parse_bool v) (\<lambda>x. c\<lparr>permit_tty := x\<rparr>)),
      (''permitexec'', set_value ''PermitExec'' line (parse_bool v) (\<lambda>x. c\<lparr>permit_exec := x\<rparr>)),
      (''sftpenabled'', set_value ''SftpEnabled'' line (parse_bool v) (\<lambda>x. c\<lparr>sftp_enabled := x\<rparr>)),
      (''subsystem'', Inr (if v = ''sftp'' then c\<lparr>sftp_enabled := True\<rparr> else c)),
      (''allowtcpforwarding'', set_value ''AllowTcpForwarding'' line (parse_bool v) (\<lambda>x. c\<lparr>allow_tcp_forwarding := x\<rparr>)),
      (''allowremoteforwarding'', set_value ''AllowRemoteForwarding'' line (parse_bool v) (\<lambda>x. c\<lparr>allow_remote_forwarding := x\<rparr>)),
      (''gatewayports'', set_value ''GatewayPorts'' line (parse_bool v) (\<lambda>x. c\<lparr>gateway_ports := x\<rparr>)),
      (''maxunauthconnectionsglobal'', set_value ''MaxUnauthConnectionsGlobal'' line (parse_int usize_max v) (\<lambda>x. c\<lparr>max_unauth_connections_global := x\<rparr>)),
      (''maxunauthconnectionsperip'', set_value ''MaxUnauthConnectionsPerIp'' line (parse_int usize_max v) (\<lambda>x. c\<lparr>max_unauth_connections_per_ip := x\<rparr>)),
      (''maxunauthconnectionspersubnet'', set_value ''MaxUnauthConnectionsPerSubnet'' line (parse_int usize_max v) (\<lambda>x. c\<lparr>max_unauth_connections_per_subnet := x\<rparr>)),
      (''newconnectionsperminuteperip'', set_value ''NewConnectionsPerMinutePerIp'' line (parse_int usize_max v) (\<lambda>x. c\<lparr>new_connections_per_minute_per_ip := x\<rparr>)),
      (''newconnectionsburstperip'', set_value ''NewConnectionsBurstPerIp'' line (parse_int usize_max v) (\<lambda>x. c\<lparr>new_connections_burst_per_ip := x\<rparr>)),
      (''logingracetime'', set_value ''LoginGraceTime'' line (parse_duration v) (\<lambda>x. c\<lparr>login_grace_time := x\<rparr>)),
      (''clientbannertimeout'', set_value ''ClientBannerTimeout'' line (parse_duration v) (\<lambda>x. c\<lparr>client_banner_timeout := x\<rparr>)),
      (''kexstarttimeout'', set_value ''KexStartTimeout'' line (parse_duration v) (\<lambda>x. c\<lparr>kex_start_timeout := x\<rparr>)),
      (''maxauthattempts'', set_value ''MaxAuthAttempts'' line (parse_int usize_max v) (\<lambda>x. c\<lparr>max_auth_attempts := x\<rparr>)),
      (''authrejectiontime'', set_value ''AuthRejectionTime'' line (parse_duration v) (\<lambda>x. c\<lparr>auth_rejection_time := x\<rparr>)),
      (''authfailurebanthreshold'', set_value ''AuthFailureBanThreshold'' line (parse_int usize_max v) (\<lambda>x. c\<lparr>auth_failure_ban_threshold := x\<rparr>)),
      (''authfailurebanwindow'', set_value ''AuthFailureBanWindow'' line (parse_duration v) (\<lambda>x. c\<lparr>auth_failure_ban_window := x\<rparr>)),
      (''authfailurebanduration'', set_value ''AuthFailureBanDuration'' line (parse_duration v) (\<lambda>x. c\<lparr>auth_failure_ban_duration := x\<rparr>)),
      (''inactivitytimeout'', set_value ''InactivityTimeout'' line (parse_duration v) (\<lambda>x. c\<lparr>inactivity_timeout := x\<rparr>)),
      (''keepaliveinterval'', set_value ''KeepaliveInterval'' line (parse_duration v) (\<lambda>x. c\<lparr>keepalive_interval := x\<rparr>)),
      (''keepalivemax'', set_value ''KeepaliveMax'' line (parse_int usize_max v) (\<lambda>x. c\<lparr>keepalive_max := x\<rparr>)),
      (''channelbuffersize'', set_value ''ChannelBufferSize'' line (parse_int usize_max v) (\<lambda>x. c\<lparr>channel_buffer_size := x\<rparr>)),
      (''eventbuffersize'', set_value ''EventBufferSize'' line (parse_int usize_max v) (\<lambda>x. c\<lparr>event_buffer_size := x\<rparr>)),
      (''windowsize'', set_value ''WindowSize'' line (parse_int u32_max v) (\<lambda>x. c\<lparr>window_size := x\<rparr>)),
      (''maximumpacketsize'', set_value ''MaximumPacketSize'' line (parse_int u32_max v) (\<lambda>x. c\<lparr>maximum_packet_size := x\<rparr>)),
      (''nodelay'', set_value ''NoDelay'' line (parse_bool v) (\<lambda>x. c\<lparr>nodelay := x\<rparr>)),
      (''authorizedkeysmaxsize'', set_value ''AuthorizedKeysMaxSize'' line (parse_byte_size v) (\<lambda>x. c\<lparr>authorized_keys_max_size := x\<rparr>)),
      (''authorizedkeysmaxentries'', set_value ''AuthorizedKeysMaxEntries'' line (parse_int usize_max v) (\<lambda>x. c\<lparr>authorized_keys_max_entries := x\<rparr>)),
      (''authorizedkeysreloadinterval'', set_value ''AuthorizedKeysReloadInterval'' line (parse_duration v) (\<lambda>x. c\<lparr>authorized_keys_reload_interval := x\<rparr>)),
      (''pubkeyauthentication'', res_bind (invalid ''PubkeyAuthentication'' line (parse_bool v)) (\<lambda>enabled. if \<not> enabled then Inl PubkeyAuthenticationRequired else Inr c)),
      (''passwordauthentication'', res_bind (invalid ''PasswordAuthentication'' line (parse_bool v)) (\<lambda>enabled. if enabled then Inl PasswordAuthenticationUnsupported else Inr c)),
      (''permitopen'', Inr c),
      (''loglevel'', set_value ''LogLevel'' line (log_level_parse v) (\<lambda>x. c\<lparr>log_level := x\<rparr>))]"

definition apply_directive ::
    "Dirs \<Rightarrow> path \<Rightarrow> nat \<Rightarrow> string \<Rightarrow> string list \<Rightarrow> AppConfig \<Rightarrow> (ConfigError, AppConfig) result" where
  "apply_directive d base line key values c =
     (let k = to_ascii_lowercase key in
      case map_of (directives d base line (hd values) (join_with '' '' values) c) k of
        Some r \<Rightarrow> r
      | None \<Rightarrow> Inl (UnsupportedDirective k line))"

definition line_text :: "string \<Rightarrow> string" where
  "line_text raw = trim (takeWhile (\<lambda>ch. ch \<noteq> CHR ''#'') raw)"

definition apply_line :: "Dirs \<Rightarrow> path \<Rightarrow> nat \<Rightarrow> string \<Rightarrow> AppConfig \<Rightarrow> (ConfigError, AppConfig) result" where
  "apply_line d base line raw c =
     (if line_text raw = [] then Inr c
      else case split_whitespace (line_text raw) of
          [] \<Rightarrow> Inl (MissingValue [] line)
        | key # values \<Rightarrow>
            if values = [] then Inl (MissingValue key line) else apply_directive d base line key values c)"

fun apply_lines :: "Dirs \<Rightarrow> path \<Rightarrow> nat \<Rightarrow> string list \<Rightarrow> AppConfig \<Rightarrow> (ConfigError, AppConfig) result" where
  "apply_lines d base line [] c = Inr c"
| "apply_lines d base line (raw # rest) c =
     res_bind (apply_line d base line raw c) (apply_lines d base (line + 1) rest)"

definition apply_text :: "Dirs \<Rightarrow> string \<Rightarrow> path \<Rightarrow> AppConfig \<Rightarrow> (ConfigError, AppConfig) result" where
  "apply_text d text base c = apply_lines d base 1 (str_lines text) c"

text \<open>\<open>load\<close> reads the requested file, or the default one if it exists.\<close>

definition config_path_of :: "Dirs \<Rightarrow> (path \<Rightarrow> bool) \<Rightarrow> path option \<Rightarrow> (ConfigError, path option) result" where
  "config_path_of d exists requested_path =
     (case requested_path of
        Some q \<Rightarrow> map_sum id Some (expand_home d q)
      | None \<Rightarrow>
          res_bind (default_config_path d) (\<lambda>o'.
            Inr (case o' of None \<Rightarrow> None | Some q \<Rightarrow> if exists q then Some q else None)))"

definition apply_config_file ::
    "Dirs \<Rightarrow> (path \<Rightarrow> string option) \<Rightarrow> path option \<Rightarrow> AppConfig \<Rightarrow> (ConfigError, AppConfig) result" where
  "apply_config_file d read_to_string config_path c =
     (case config_path of
        None \<Rightarrow> Inr c
      | Some q \<Rightarrow>
          res_bind (ok_or (ReadFailed q) (read_to_string q)) (\<lambda>body.
            apply_text d body (case path_parent q of None \<Rightarrow> ''.'' | Some b \<Rightarrow> b) c))"

definition config_load ::
    "platform \<Rightarrow> Dirs \<Rightarrow> (path \<Rightarrow> bool) \<Rightarrow> (path \<Rightarrow> string option) \<Rightarrow> path option
       \<Rightarrow> (ConfigError, AppConfig) result" where
  "config_load p d exists read_to_string requested_path =
     res_bind (app_defaults p d) (\<lambda>config0.
     res_bind (config_path_of d exists requested_path) (\<lambda>config_path.
     res_bind (apply_config_file d read_to_string config_path config0) (\<lambda>config1.
     res_bind (validate config1) (\<lambda>_. Inr config1))))"

definition sample_lines :: "string list" where
  "sample_lines = [
     ''# narrowd sample config'',
     ''# single-user SSH daemon'',
     ''Port 2222'',
     ''ListenAddress 0.0.0.0'',
     [],
     ''HostKey ~/.config/narrowd/ssh_host_ed25519_key'',
     ''AuthorizedKeysFile ~/.ssh/authorized_keys'',
     [],
     ''Shell /bin/bash'',
     ''ExecMode shell-login'',
     ''PermitTTY yes'',
     ''PermitExec yes'',
     [],
     ''Subsystem sftp internal-sftp'',
     ''AllowTcpForwarding yes'',
     ''AllowRemoteForwarding yes'',
     ''GatewayPorts yes'',
     [],
     ''# Public exposure hardening defaults'',
     ''MaxUnauthConnectionsGlobal 16'',
     ''MaxUnauthConnectionsPerIp 3'',
     ''MaxUnauthConnectionsPerSubnet 8'',
     ''NewConnectionsPerMinutePerIp 12'',
     ''NewConnectionsBurstPerIp 4'',
     ''LoginGraceTime 15s'',
     ''ClientBannerTimeout 5s'',
     ''KexStartTimeout 5s'',
     ''MaxAuthAttempts 4'',
     ''AuthRejectionTime 2s'',
     ''AuthFailureBanThreshold 8'',
     ''AuthFailureBanWindow 10m'',
     ''AuthFailureBanDuration 15m'',
     ''InactivityTimeout 15m'',
     ''KeepaliveInterval 30s'',
     ''KeepaliveMax 3'',
     ''ChannelBufferSize 32'',
     ''EventBufferSize 16'',
     ''WindowSize 1048576'',
     ''MaximumPacketSize 32768'',
     ''NoDelay yes'',
     ''AuthorizedKeysMaxSize 256KiB'',
     ''AuthorizedKeysMaxEntries 128'',
     ''AuthorizedKeysReloadInterval 2s'',
     [],
     ''LogLevel info'']"

definition SAMPLE_CONFIG :: string where
  "SAMPLE_CONFIG = concat (map (\<lambda>l. l @ [CHR 0x0A]) sample_lines)"

subsection \<open>Bounds of the parsed values\<close>

lemma map_sum_eq_Inr: "map_sum f g r = Inr y \<longleftrightarrow> (\<exists>x. r = Inr x \<and> y = g x)"
  by (cases r) auto

lemma parse_int_bound: "parse_int m s = Inr n \<Longrightarrow> n \<le> m"
  by (auto simp: parse_int_def map_sum_eq_Inr parse_uint_bound)

lemma from_secs_le: "n \<le> u64_max \<Longrightarrow> from_secs n \<le> duration_max"
  by (simp add: from_secs_def duration_max_def trans_le_add1)

lemma from_millis_le: "n \<le> u64_max \<Longrightarrow> from_millis n \<le> duration_max"
  by (simp add: from_millis_def duration_max_def nanos_per_sec_def)

lemma duration_of_bound: "duration_of n sfx = Inr x \<Longrightarrow> n \<le> u64_max \<Longrightarrow> x \<le> duration_max"
  by (auto simp: duration_of_def from_secs_le from_millis_le split: if_splits)

lemma parse_duration_bound: "parse_duration s = Inr x \<Longrightarrow> x \<le> duration_max"
  by (auto simp: parse_duration_def Let_def res_bind_eq_Inr split: if_splits
      dest!: parse_int_bound intro: duration_of_bound)

lemma parse_byte_size_bound: "parse_byte_size s = Inr x \<Longrightarrow> x \<le> usize_max"
  by (auto simp: parse_byte_size_def Let_def res_bind_eq_Inr split: if_splits)

definition config_wf :: "AppConfig \<Rightarrow> bool" where
  "config_wf c \<longleftrightarrow>
     port c \<le> u16_max \<and> window_size c \<le> u32_max \<and> maximum_packet_size c \<le> u32_max \<and>
     list_all (\<lambda>n. n \<le> usize_max)
       [max_unauth_connections_global c, max_unauth_connections_per_ip c, max_unauth_connections_per_subnet c,
        new_connections_per_minute_per_ip c, new_connections_burst_per_ip c, max_auth_attempts c,
        auth_failure_ban_threshold c, keepalive_max c, channel_buffer_size c, event_buffer_size c,
        authorized_keys_max_size c, authorized_keys_max_entries c] \<and>
     list_all (\<lambda>t. t \<le> duration_max)
       [login_grace_time c, client_banner_timeout c, kex_start_timeout c, auth_rejection_time c,
        auth_failure_ban_window c, auth_failure_ban_duration c, inactivity_timeout c, keepalive_interval c,
        authorized_keys_reload_interval c]"

lemma set_value_Inr: "set_value name line r upd = Inr c' \<longleftrightarrow> (\<exists>x. r = Inr x \<and> c' = upd x)"
  by (auto simp: set_value_def invalid_def res_bind_eq_Inr map_sum_eq_Inr)

lemma apply_directive_Inr:
  "apply_directive d base line key values c = Inr c' \<Longrightarrow>
     (to_ascii_lowercase key, Inr c') \<in> set (directives d base line (hd values) (join_with '' '' values) c)"
  by (auto simp: apply_directive_def Let_def split: option.splits dest: map_of_SomeD)

lemma config_wf_update:
  "config_wf c \<Longrightarrow> x \<le> u16_max \<Longrightarrow> config_wf (c\<lparr>port := x\<rparr>)"
  "config_wf c \<Longrightarrow> x \<le> usize_max \<Longrightarrow> config_wf (c\<lparr>max_unauth_connections_global := x\<rparr>)"
  "config_wf c \<Longrightarrow> x \<le> usize_max \<Longrightarrow> config_wf (c\<lparr>max_unauth_connections_per_ip := x\<rparr>)"
  "config_wf c \<Longrightarrow> x \<le> usize_max \<Longrightarrow> config_wf (c\<lparr>max_unauth_connections_per_subnet := x\<rparr>)"
  "config_wf c \<Longrightarrow> x \<le> usize_max \<Longrightarrow> config_wf (c\<lparr>new_connections_per_minute_per_ip := x\<rparr>)"
  "config_wf c \<Longrightarrow> x \<le> usize_max \<Longrightarrow> config_wf (c\<lparr>new_connections_burst_per_ip := x\<rparr>)"
  "config_wf c \<Longrightarrow> x \<le> duration_max \<Longrightarrow> config_wf (c\<lparr>login_grace_time := x\<rparr>)"
  "config_wf c \<Longrightarrow> x \<le> duration_max \<Longrightarrow> config_wf (c\<lparr>client_banner_timeout := x\<rparr>)"
  "config_wf c \<Longrightarrow> x \<le> duration_max \<Longrightarrow> config_wf (c\<lparr>kex_start_timeout := x\<rparr>)"
  "config_wf c \<Longrightarrow> x \<le> usize_max \<Longrightarrow> config_wf (c\<lparr>max_auth_attempts := x\<rparr>)"
  "config_wf c \<Longrightarrow> x \<le> duration_max \<Longrightarrow> config_wf (c\<lparr>auth_rejection_time := x\<rparr>)"
  "config_wf c \<Longrightarrow> x \<le> usize_max \<Longrightarrow> config_wf (c\<lparr>auth_failure_ban_threshold := x\<rparr>)"
  "config_wf c \<Longrightarrow> x \<le> duration_max \<Longrightarrow> config_wf (c\<lparr>auth_failure_ban_window := x\<rparr>)"
  "config_wf c \<Longrightarrow> x \<le> duration_max \<Longrightarrow> config_wf (c\<lparr>auth_failure_ban_duration := x\<rparr>)"
  "config_wf c \<Longrightarrow> x \<le> duration_max \<Longrightarrow> config_wf (c\<lparr>inactivity_timeout := x\<rparr>)"
  "config_wf c \<Longrightarrow> x \<le> duration_max \<Longrightarrow> config_wf (c\<lparr>keepalive_interval := x\<rparr>)"
  "config_wf c \<Longrightarrow> x \<le> usize_max \<Longrightarrow> config_wf (c\<lparr>keepalive_max := x\<rparr>)"
  "config_wf c \<Longrightarrow> x \<le> usize_max \<Longrightarrow> config_wf (c\<lparr>channel_buffer_size := x\<rparr>)"
  "config_wf c \<Longrightarrow> x \<le> usize_max \<Longrightarrow> config_wf (c\<lparr>event_buffer_size := x\<rparr>)"
  "config_wf c \<Longrightarrow> x \<le> u32_max \<Longrightarrow> config_wf (c\<lparr>window_size := x\<rparr>)"
  "config_wf c \<Longrightarrow> x \<le> u32_max \<Longrightarrow> config_wf (c\<lparr>maximum_packet_size := x\<rparr>)"
  "config_wf c \<Longrightarrow> x \<le> usize_max \<Longrightarrow> config_wf (c\<lparr>authorized_keys_max_size := x\<rparr>)"
  "config_wf c \<Longrightarrow> x \<le> usize_max \<Longrightarrow> config_wf (c\<lparr>authorized_keys_max_entries := x\<rparr>)"
  "config_wf c \<Longrightarrow> x \<le> duration_max \<Longrightarrow> config_wf (c\<lparr>authorized_keys_reload_interval := x\<rparr>)"
  by (simp_all add: config_wf_def)

lemma config_wf_frame [simp]:
  "config_wf (c\<lparr>listen_address := s\<rparr>) = config_wf c"
  "config_wf (c\<lparr>host_key := s\<rparr>) = config_wf c"
  "config_wf (c\<lparr>authorized_keys_file := s\<rparr>) = config_wf c"
  "config_wf (c\<lparr>shell := s\<rparr>) = config_wf c"
  "config_wf (c\<lparr>exec_mode := m\<rparr>) = config_wf c"
  "config_wf (c\<lparr>permit_tty := b\<rparr>) = config_wf c"
  "config_wf (c\<lparr>permit_exec := b\<rparr>) = config_wf c"
  "config_wf (c\<lparr>sftp_enabled := b\<rparr>) = config_wf c"
  "config_wf (c\<lparr>allow_tcp_forwarding := b\<rparr>) = config_wf c"
  "config_wf (c\<lparr>allow_remote_forwarding := b\<rparr>) = config_wf c"
  "config_wf (c\<lparr>gateway_ports := b\<rparr>) = config_wf c"
  "config_wf (c\<lparr>nodelay := b\<rparr>) = config_wf c"
  "config_wf (c\<lparr>log_level := l\<rparr>) = config_wf c"
  by (simp_all add: config_wf_def)

definition ok_config :: "(AppConfig \<Rightarrow> bool) \<Rightarrow> (ConfigError, AppConfig) result \<Rightarrow> bool" where
  "ok_config P r \<longleftrightarrow> (\<forall>c'. r = Inr c' \<longrightarrow> P c')"

lemma ok_config_simps [simp]:
  "ok_config P (Inr c) = P c"
  "ok_config P (Inl e) = True"
  by (auto simp: ok_config_def)

lemma ok_config_rules:
  "(\<And>x. r = Inr x \<Longrightarrow> P (upd x)) \<Longrightarrow> ok_config P (set_value name line r upd)"
  "(\<And>x. r' = Inr x \<Longrightarrow> P (upd' x)) \<Longrightarrow> ok_config P (map_sum id upd' r')"
  "(\<And>x. r'' = Inr x \<Longrightarrow> ok_config P (f x)) \<Longrightarrow> ok_config P (res_bind r'' f)"
  by (auto simp: ok_config_def set_value_Inr map_sum_eq_Inr res_bind_eq_Inr)

lemma directives_wf:
  assumes "config_wf c"
  shows "list_all (\<lambda>(k, r). ok_config config_wf r) (directives d base line v joined c)"
  unfolding directives_def list.pred_inject prod.case
  by (intro conjI TrueI ok_config_rules)
    (simp_all add: assms config_wf_update parse_int_bound parse_duration_bound parse_byte_size_bound)

subsection \<open>Invariants of a configuration text\<close>

text \<open>
  What every arm keeps holds after any text. The locale is the contract between the arms
  of the match and the line loop around them.
\<close>

locale config_invariant =
  fixes d :: Dirs and base :: path and P :: "AppConfig \<Rightarrow> bool"
  assumes arms: "P c \<Longrightarrow> list_all (\<lambda>(k, r). ok_config P r) (directives d base line v joined c)"
begin

lemma directive_keeps:
  assumes "apply_directive d base line key values c = Inr c'" "P c"
  shows "P c'"
  using arms [OF assms(2)] apply_directive_Inr [OF assms(1)]
  by (fastforce simp: list_all_iff ok_config_def)

lemma line_keeps: "apply_line d base line raw c = Inr c' \<Longrightarrow> P c \<Longrightarrow> P c'"
  by (auto simp: apply_line_def directive_keeps split: if_splits list.splits)

lemma lines_keep: "apply_lines d base line raws c = Inr c' \<Longrightarrow> P c \<Longrightarrow> P c'"
  by (induction raws arbitrary: line c) (auto simp: res_bind_eq_Inr dest: line_keeps)

lemma text_keeps: "apply_text d text base c = Inr c' \<Longrightarrow> P c \<Longrightarrow> P c'"
  by (auto simp: apply_text_def dest: lines_keep)

lemma file_keeps:
  "apply_config_file d rd (Some q) c = Inr c' \<Longrightarrow> path_parent q = Some base \<Longrightarrow> P c \<Longrightarrow> P c'"
  by (auto simp: apply_config_file_def res_bind_eq_Inr dest: text_keeps)

end

interpretation cfg_wf: config_invariant d base config_wf for d base
  by unfold_locales (rule directives_wf)

text \<open>Key files are absolute, the shell is absolute or a bare command name.\<close>

definition dirs_absolute :: "Dirs \<Rightarrow> bool" where
  "dirs_absolute d \<longleftrightarrow>
     (case home_dir d of None \<Rightarrow> True | Some h \<Rightarrow> is_absolute h) \<and>
     (case config_dir d of None \<Rightarrow> True | Some r \<Rightarrow> is_absolute r)"

definition paths_ok :: "Dirs \<Rightarrow> path \<Rightarrow> AppConfig \<Rightarrow> bool" where
  "paths_ok d base c \<longleftrightarrow>
     (dirs_absolute d \<and> is_absolute base \<longrightarrow>
        is_absolute (host_key c) \<and> is_absolute (authorized_keys_file c) \<and>
        (is_absolute (shell c) \<or> length (components (shell c)) \<le> 1))"

lemma resolve_config_path_absolute:
  "resolve_config_path d s base = Inr q \<Longrightarrow> is_absolute base \<Longrightarrow> is_absolute q"
  by (auto simp: resolve_config_path_def res_bind_eq_Inr split: if_splits)
    (metis path_join_absolute)

lemma resolve_shell_ok:
  "resolve_shell_command_or_path d s base = Inr q \<Longrightarrow> is_absolute base \<Longrightarrow>
     is_absolute q \<or> length (components q) \<le> 1"
  by (auto simp: resolve_shell_command_or_path_def res_bind_eq_Inr split: if_splits)
    (metis path_join_absolute)

lemma paths_ok_frame [simp]:
  "paths_ok d base (c\<lparr>listen_address := s\<rparr>) = paths_ok d base c"
  "paths_ok d base (c\<lparr>port := n\<rparr>) = paths_ok d base c"
  "paths_ok d base (c\<lparr>exec_mode := m\<rparr>) = paths_ok d base c"
  "paths_ok d base (c\<lparr>permit_tty := b\<rparr>) = paths_ok d base c"
  "paths_ok d base (c\<lparr>permit_exec := b\<rparr>) = paths_ok d base c"
  "paths_ok d base (c\<lparr>sftp_enabled := b\<rparr>) = paths_ok d base c"
  "paths_ok d base (c\<lparr>allow_tcp_forwarding := b\<rparr>) = paths_ok d base c"
  "paths_ok d base (c\<lparr>allow_remote_forwarding := b\<rparr>) = paths_ok d base c"
  "paths_ok d base (c\<lparr>gateway_ports := b\<rparr>) = paths_ok d base c"
  "paths_ok d base (c\<lparr>max_unauth_connections_global := n\<rparr>) = paths_ok d base c"
  "paths_ok d base (c\<lparr>max_unauth_connections_per_ip := n\<rparr>) = paths_ok d base c"
  "paths_ok d base (c\<lparr>max_unauth_connections_per_subnet := n\<rparr>) = paths_ok d base c"
  "paths_ok d base (c\<lparr>new_connections_per_minute_per_ip := n\<rparr>) = paths_ok d base c"
  "paths_ok d base (c\<lparr>new_connections_burst_per_ip := n\<rparr>) = paths_ok d base c"
  "paths_ok d base (c\<lparr>login_grace_time := n\<rparr>) = paths_ok d base c"
  "paths_ok d base (c\<lparr>client_banner_timeout := n\<rparr>) = paths_ok d base c"
  "paths_ok d base (c\<lparr>kex_start_timeout := n\<rparr>) = paths_ok d base c"
  "paths_ok d base (c\<lparr>max_auth_attempts := n\<rparr>) = paths_ok d base c"
  "paths_ok d base (c\<lparr>auth_rejection_time := n\<rparr>) = paths_ok d base c"
  "paths_ok d base (c\<lparr>auth_failure_ban_threshold := n\<rparr>) = paths_ok d base c"
  "paths_ok d base (c\<lparr>auth_failure_ban_window := n\<rparr>) = paths_ok d base c"
  "paths_ok d base (c\<lparr>auth_failure_ban_duration := n\<rparr>) = paths_ok d base c"
  "paths_ok d base (c\<lparr>inactivity_timeout := n\<rparr>) = paths_ok d base c"
  "paths_ok d base (c\<lparr>keepalive_interval := n\<rparr>) = paths_ok d base c"
  "paths_ok d base (c\<lparr>keepalive_max := n\<rparr>) = paths_ok d base c"
  "paths_ok d base (c\<lparr>channel_buffer_size := n\<rparr>) = paths_ok d base c"
  "paths_ok d base (c\<lparr>event_buffer_size := n\<rparr>) = paths_ok d base c"
  "paths_ok d base (c\<lparr>window_size := n\<rparr>) = paths_ok d base c"
  "paths_ok d base (c\<lparr>maximum_packet_size := n\<rparr>) = paths_ok d base c"
  "paths_ok d base (c\<lparr>nodelay := b\<rparr>) = paths_ok d base c"
  "paths_ok d base (c\<lparr>authorized_keys_max_size := n\<rparr>) = paths_ok d base c"
  "paths_ok d base (c\<lparr>authorized_keys_max_entries := n\<rparr>) = paths_ok d base c"
  "paths_ok d base (c\<lparr>authorized_keys_reload_interval := n\<rparr>) = paths_ok d base c"
  "paths_ok d base (c\<lparr>log_level := l\<rparr>) = paths_ok d base c"
  by (simp_all add: paths_ok_def)

lemma paths_ok_update:
  "paths_ok d base c \<Longrightarrow> resolve_config_path d s base = Inr q \<Longrightarrow> paths_ok d base (c\<lparr>host_key := q\<rparr>)"
  "paths_ok d base c \<Longrightarrow> resolve_config_path d s base = Inr q \<Longrightarrow> paths_ok d base (c\<lparr>authorized_keys_file := q\<rparr>)"
  "paths_ok d base c \<Longrightarrow> resolve_shell_command_or_path d s base = Inr q \<Longrightarrow> paths_ok d base (c\<lparr>shell := q\<rparr>)"
  using resolve_config_path_absolute [of d s base q] resolve_shell_ok [of d s base q]
  by (auto simp: paths_ok_def)

lemma directives_paths_ok:
  assumes "paths_ok d base c"
  shows "list_all (\<lambda>(k, r). ok_config (paths_ok d base) r) (directives d base line v joined c)"
  unfolding directives_def list.pred_inject prod.case
  by (intro conjI TrueI ok_config_rules)
    (simp_all add: assms paths_ok_update)

interpretation cfg_paths: config_invariant d base "paths_ok d base" for d base
  by unfold_locales (rule directives_paths_ok)

lemma app_defaults_Inr:
  "app_defaults p d = Inr c \<longleftrightarrow> (\<exists>home. home_dir d = Some home \<and> c = default_config p home (config_root_of d home))"
  by (cases "home_dir d") (auto simp: app_defaults_def)

lemma default_config_wf: "config_wf (default_config p home cr)"
  by (simp add: default_config_def config_wf_def u16_max_def u32_max_def usize_max_def from_secs_le)
    (simp add: u64_max_def from_secs_le)

lemma default_shell_ok:
  "is_absolute (shell (default_config p home cr)) \<or> length (components (shell (default_config p home cr))) \<le> 1"
proof (cases p)
  case Unix
  then show ?thesis by (simp add: default_config_def is_absolute_def)
next
  case Windows
  have "length (components ''powershell.exe'') \<le> 1" by code_simp
  with Windows show ?thesis by (simp add: default_config_def)
qed

lemma default_config_paths_ok:
  "home_dir d = Some home \<Longrightarrow> paths_ok d base (default_config p home (config_root_of d home))"
  using default_shell_ok [of p home "config_root_of d home"]
  by (auto simp: paths_ok_def dirs_absolute_def config_root_of_def default_config_def split: option.splits)

subsection \<open>What an accepted text contains\<close>

definition directive_keys :: "string list" where
  "directive_keys = [
      ''port'', ''listenaddress'', ''hostkey'', ''authorizedkeysfile'',
      ''shell'', ''execmode'', ''permittty'', ''permitexec'',
      ''sftpenabled'', ''subsystem'', ''allowtcpforwarding'', ''allowremoteforwarding'',
      ''gatewayports'', ''maxunauthconnectionsglobal'', ''maxunauthconnectionsperip'', ''maxunauthconnectionspersubnet'',
      ''newconnectionsperminuteperip'', ''newconnectionsburstperip'', ''logingracetime'', ''clientbannertimeout'',
      ''kexstarttimeout'', ''maxauthattempts'', ''authrejectiontime'', ''authfailurebanthreshold'',
      ''authfailurebanwindow'', ''authfailurebanduration'', ''inactivitytimeout'', ''keepaliveinterval'',
      ''keepalivemax'', ''channelbuffersize'', ''eventbuffersize'', ''windowsize'',
      ''maximumpacketsize'', ''nodelay'', ''authorizedkeysmaxsize'', ''authorizedkeysmaxentries'',
      ''authorizedkeysreloadinterval'', ''pubkeyauthentication'', ''passwordauthentication'', ''permitopen'',
      ''loglevel'']"

lemma directive_keys: "map fst (directives d base line v joined c) = directive_keys"
  by (simp add: directives_def directive_keys_def)

lemma directive_members:
  "(''port'', set_value ''Port'' line (parse_int u16_max v) (\<lambda>x. c\<lparr>port := x\<rparr>)) \<in> set (directives d base line v joined c)"
  "(''listenaddress'', Inr (c\<lparr>listen_address := joined\<rparr>)) \<in> set (directives d base line v joined c)"
  "(''hostkey'', map_sum id (\<lambda>x. c\<lparr>host_key := x\<rparr>) (resolve_config_path d joined base)) \<in> set (directives d base line v joined c)"
  "(''authorizedkeysfile'', map_sum id (\<lambda>x. c\<lparr>authorized_keys_file := x\<rparr>) (resolve_config_path d joined base)) \<in> set (directives d base line v joined c)"
  "(''shell'', map_sum id (\<lambda>x. c\<lparr>shell := x\<rparr>) (resolve_shell_command_or_path d joined base)) \<in> set (directives d base line v joined c)"
  "(''execmode'', set_value ''ExecMode'' line (exec_mode_parse v) (\<lambda>x. c\<lparr>exec_mode := x\<rparr>)) \<in> set (directives d base line v joined c)"
  "(''permittty'', set_value ''PermitTTY'' line (parse_bool v) (\<lambda>x. c\<lparr>permit_tty := x\<rparr>)) \<in> set (directives d base line v joined c)"
  "(''permitexec'', set_value ''PermitExec'' line (parse_bool v) (\<lambda>x. c\<lparr>permit_exec := x\<rparr>)) \<in> set (directives d base line v joined c)"
  "(''sftpenabled'', set_value ''SftpEnabled'' line (parse_bool v) (\<lambda>x. c\<lparr>sftp_enabled := x\<rparr>)) \<in> set (directives d base line v joined c)"
  "(''subsystem'', Inr (if v = ''sftp'' then c\<lparr>sftp_enabled := True\<rparr> else c)) \<in> set (directives d base line v joined c)"
  "(''allowtcpforwarding'', set_value ''AllowTcpForwarding'' line (parse_bool v) (\<lambda>x. c\<lparr>allow_tcp_forwarding := x\<rparr>)) \<in> set (directives d base line v joined c)"
  "(''allowremoteforwarding'', set_value ''AllowRemoteForwarding'' line (parse_bool v) (\<lambda>x. c\<lparr>allow_remote_forwarding := x\<rparr>)) \<in> set (directives d base line v joined c)"
  "(''gatewayports'', set_value ''GatewayPorts'' line (parse_bool v) (\<lambda>x. c\<lparr>gateway_ports := x\<rparr>)) \<in> set (directives d base line v joined c)"
  "(''maxunauthconnectionsglobal'', set_value ''MaxUnauthConnectionsGlobal'' line (parse_int usize_max v) (\<lambda>x. c\<lparr>max_unauth_connections_global := x\<rparr>)) \<in> set (directives d base line v joined c)"
  "(''maxunauthconnectionsperip'', set_value ''MaxUnauthConnectionsPerIp'' line (parse_int usize_max v) (\<lambda>x. c\<lparr>max_unauth_connections_per_ip := x\<rparr>)) \<in> set (directives d base line v joined c)"
  "(''maxunauthconnectionspersubnet'', set_value ''MaxUnauthConnectionsPerSubnet'' line (parse_int usize_max v) (\<lambda>x. c\<lparr>max_unauth_connections_per_subnet := x\<rparr>)) \<in> set (directives d base line v joined c)"
  "(''newconnectionsperminuteperip'', set_value ''NewConnectionsPerMinutePerIp'' line (parse_int usize_max v) (\<lambda>x. c\<lparr>new_connections_per_minute_per_ip := x\<rparr>)) \<in> set (directives d base line v joined c)"
  "(''newconnectionsburstperip'', set_value ''NewConnectionsBurstPerIp'' line (parse_int usize_max v) (\<lambda>x. c\<lparr>new_connections_burst_per_ip := x\<rparr>)) \<in> set (directives d base line v joined c)"
  "(''logingracetime'', set_value ''LoginGraceTime'' line (parse_duration v) (\<lambda>x. c\<lparr>login_grace_time := x\<rparr>)) \<in> set (directives d base line v joined c)"
  "(''clientbannertimeout'', set_value ''ClientBannerTimeout'' line (parse_duration v) (\<lambda>x. c\<lparr>client_banner_timeout := x\<rparr>)) \<in> set (directives d base line v joined c)"
  "(''kexstarttimeout'', set_value ''KexStartTimeout'' line (parse_duration v) (\<lambda>x. c\<lparr>kex_start_timeout := x\<rparr>)) \<in> set (directives d base line v joined c)"
  "(''maxauthattempts'', set_value ''MaxAuthAttempts'' line (parse_int usize_max v) (\<lambda>x. c\<lparr>max_auth_attempts := x\<rparr>)) \<in> set (directives d base line v joined c)"
  "(''authrejectiontime'', set_value ''AuthRejectionTime'' line (parse_duration v) (\<lambda>x. c\<lparr>auth_rejection_time := x\<rparr>)) \<in> set (directives d base line v joined c)"
  "(''authfailurebanthreshold'', set_value ''AuthFailureBanThreshold'' line (parse_int usize_max v) (\<lambda>x. c\<lparr>auth_failure_ban_threshold := x\<rparr>)) \<in> set (directives d base line v joined c)"
  "(''authfailurebanwindow'', set_value ''AuthFailureBanWindow'' line (parse_duration v) (\<lambda>x. c\<lparr>auth_failure_ban_window := x\<rparr>)) \<in> set (directives d base line v joined c)"
  "(''authfailurebanduration'', set_value ''AuthFailureBanDuration'' line (parse_duration v) (\<lambda>x. c\<lparr>auth_failure_ban_duration := x\<rparr>)) \<in> set (directives d base line v joined c)"
  "(''inactivitytimeout'', set_value ''InactivityTimeout'' line (parse_duration v) (\<lambda>x. c\<lparr>inactivity_timeout := x\<rparr>)) \<in> set (directives d base line v joined c)"
  "(''keepaliveinterval'', set_value ''KeepaliveInterval'' line (parse_duration v) (\<lambda>x. c\<lparr>keepalive_interval := x\<rparr>)) \<in> set (directives d base line v joined c)"
  "(''keepalivemax'', set_value ''KeepaliveMax'' line (parse_int usize_max v) (\<lambda>x. c\<lparr>keepalive_max := x\<rparr>)) \<in> set (directives d base line v joined c)"
  "(''channelbuffersize'', set_value ''ChannelBufferSize'' line (parse_int usize_max v) (\<lambda>x. c\<lparr>channel_buffer_size := x\<rparr>)) \<in> set (directives d base line v joined c)"
  "(''eventbuffersize'', set_value ''EventBufferSize'' line (parse_int usize_max v) (\<lambda>x. c\<lparr>event_buffer_size := x\<rparr>)) \<in> set (directives d base line v joined c)"
  "(''windowsize'', set_value ''WindowSize'' line (parse_int u32_max v) (\<lambda>x. c\<lparr>window_size := x\<rparr>)) \<in> set (directives d base line v joined c)"
  "(''maximumpacketsize'', set_value ''MaximumPacketSize'' line (parse_int u32_max v) (\<lambda>x. c\<lparr>maximum_packet_size := x\<rparr>)) \<in> set (directives d base line v joined c)"
  "(''nodelay'', set_value ''NoDelay'' line (parse_bool v) (\<lambda>x. c\<lparr>nodelay := x\<rparr>)) \<in> set (directives d base line v joined c)"
  "(''authorizedkeysmaxsize'', set_value ''AuthorizedKeysMaxSize'' line (parse_byte_size v) (\<lambda>x. c\<lparr>authorized_keys_max_size := x\<rparr>)) \<in> set (directives d base line v joined c)"
  "(''authorizedkeysmaxentries'', set_value ''AuthorizedKeysMaxEntries'' line (parse_int usize_max v) (\<lambda>x. c\<lparr>authorized_keys_max_entries := x\<rparr>)) \<in> set (directives d base line v joined c)"
  "(''authorizedkeysreloadinterval'', set_value ''AuthorizedKeysReloadInterval'' line (parse_duration v) (\<lambda>x. c\<lparr>authorized_keys_reload_interval := x\<rparr>)) \<in> set (directives d base line v joined c)"
  "(''pubkeyauthentication'', res_bind (invalid ''PubkeyAuthentication'' line (parse_bool v)) (\<lambda>enabled. if \<not> enabled then Inl PubkeyAuthenticationRequired else Inr c)) \<in> set (directives d base line v joined c)"
  "(''passwordauthentication'', res_bind (invalid ''PasswordAuthentication'' line (parse_bool v)) (\<lambda>enabled. if enabled then Inl PasswordAuthenticationUnsupported else Inr c)) \<in> set (directives d base line v joined c)"
  "(''permitopen'', Inr c) \<in> set (directives d base line v joined c)"
  "(''loglevel'', set_value ''LogLevel'' line (log_level_parse v) (\<lambda>x. c\<lparr>log_level := x\<rparr>)) \<in> set (directives d base line v joined c)"
  unfolding directives_def by (rule list.set_intros(1) | rule list.set_intros(2))+

lemma directive_keys_distinct: "distinct (map fst (directives d base line v joined c))"
  unfolding directive_keys by code_simp

lemmas directive_arms = directive_members [THEN map_of_is_SomeI [OF directive_keys_distinct]]

definition line_accepted :: "string \<Rightarrow> bool" where
  "line_accepted raw \<longleftrightarrow>
     line_text raw = [] \<or>
     (case split_whitespace (line_text raw) of
        key # v # vs \<Rightarrow>
          (let k = to_ascii_lowercase key in
           k \<in> set directive_keys \<and>
           (k = ''passwordauthentication'' \<longrightarrow> parse_bool v = Inr False) \<and>
           (k = ''pubkeyauthentication'' \<longrightarrow> parse_bool v = Inr True))
      | _ \<Rightarrow> False)"

lemma apply_directive_accepted:
  assumes "apply_directive d base line key (v # vs) c = Inr c'"
  shows "to_ascii_lowercase key \<in> set directive_keys"
    "to_ascii_lowercase key = ''passwordauthentication'' \<Longrightarrow> parse_bool v = Inr False"
    "to_ascii_lowercase key = ''pubkeyauthentication'' \<Longrightarrow> parse_bool v = Inr True"
proof -
  let ?ds = "directives d base line v (join_with '' '' (v # vs)) c"
  have "to_ascii_lowercase key \<in> set (map fst ?ds)"
    using apply_directive_Inr [OF assms] by force
  then show "to_ascii_lowercase key \<in> set directive_keys" unfolding directive_keys .
  show "to_ascii_lowercase key = ''passwordauthentication'' \<Longrightarrow> parse_bool v = Inr False"
    using assms
    by (auto simp: apply_directive_def directive_arms invalid_def res_bind_eq_Inr map_sum_eq_Inr split: if_splits)
  show "to_ascii_lowercase key = ''pubkeyauthentication'' \<Longrightarrow> parse_bool v = Inr True"
    using assms
    by (auto simp: apply_directive_def directive_arms invalid_def res_bind_eq_Inr map_sum_eq_Inr split: if_splits)
qed

lemma apply_line_accepted: "apply_line d base line raw c = Inr c' \<Longrightarrow> line_accepted raw"
  by (auto simp: apply_line_def line_accepted_def Let_def split: if_splits list.splits
      dest: apply_directive_accepted)

lemma apply_lines_accepted:
  "apply_lines d base line raws c = Inr c' \<Longrightarrow> raw \<in> set raws \<Longrightarrow> line_accepted raw"
  by (induction raws arbitrary: line c) (auto simp: res_bind_eq_Inr dest: apply_line_accepted)

subsection \<open>The sample configuration\<close>

text \<open>The words of the lines; the text itself is their lines, each ended by a line feed.\<close>

definition sample_words :: "string list list" where
  "sample_words = [
     [],
     [],
     [''Port'', ''2222''],
     [''ListenAddress'', ''0.0.0.0''],
     [],
     [''HostKey'', ''~/.config/narrowd/ssh_host_ed25519_key''],
     [''AuthorizedKeysFile'', ''~/.ssh/authorized_keys''],
     [],
     [''Shell'', ''/bin/bash''],
     [''ExecMode'', ''shell-login''],
     [''PermitTTY'', ''yes''],
     [''PermitExec'', ''yes''],
     [],
     [''Subsystem'', ''sftp'', ''internal-sftp''],
     [''AllowTcpForwarding'', ''yes''],
     [''AllowRemoteForwarding'', ''yes''],
     [''GatewayPorts'', ''yes''],
     [],
     [],
     [''MaxUnauthConnectionsGlobal'', ''16''],
     [''MaxUnauthConnectionsPerIp'', ''3''],
     [''MaxUnauthConnectionsPerSubnet'', ''8''],
     [''NewConnectionsPerMinutePerIp'', ''12''],
     [''NewConnectionsBurstPerIp'', ''4''],
     [''LoginGraceTime'', ''15s''],
     [''ClientBannerTimeout'', ''5s''],
     [''KexStartTimeout'', ''5s''],
     [''MaxAuthAttempts'', ''4''],
     [''AuthRejectionTime'', ''2s''],
     [''AuthFailureBanThreshold'', ''8''],
     [''AuthFailureBanWindow'', ''10m''],
     [''AuthFailureBanDuration'', ''15m''],
     [''InactivityTimeout'', ''15m''],
     [''KeepaliveInterval'', ''30s''],
     [''KeepaliveMax'', ''3''],
     [''ChannelBufferSize'', ''32''],
     [''EventBufferSize'', ''16''],
     [''WindowSize'', ''1048576''],
     [''MaximumPacketSize'', ''32768''],
     [''NoDelay'', ''yes''],
     [''AuthorizedKeysMaxSize'', ''256KiB''],
     [''AuthorizedKeysMaxEntries'', ''128''],
     [''AuthorizedKeysReloadInterval'', ''2s''],
     [],
     [''LogLevel'', ''info'']]"

lemma sample_words: "map (\<lambda>raw. split_whitespace (line_text raw)) sample_lines = sample_words"
  unfolding sample_words_def by code_simp

lemma str_lines_concat:
  assumes "\<forall>l \<in> set ls. CHR 0x0A \<notin> set l \<and> (l = [] \<or> last l \<noteq> CHR 0x0D)"
  shows "str_lines (concat (map (\<lambda>l. l @ [CHR 0x0A]) ls)) = ls"
proof -
  have line: "lines_from w (l @ CHR 0x0A # rest) = strip_cr (w @ l) # lines_from [] rest"
    if "CHR 0x0A \<notin> set l" for w l rest
    using that by (induction l arbitrary: w) auto
  show ?thesis
    using assms unfolding str_lines_def
    by (induction ls) (auto simp: line strip_cr_def)
qed

lemma sample_text_lines: "str_lines SAMPLE_CONFIG = sample_lines"
  unfolding SAMPLE_CONFIG_def by (rule str_lines_concat) (simp add: sample_lines_def)

definition apply_words :: "Dirs \<Rightarrow> path \<Rightarrow> nat \<Rightarrow> string list \<Rightarrow> AppConfig \<Rightarrow> (ConfigError, AppConfig) result" where
  "apply_words d base line ws c =
     (case ws of
        [] \<Rightarrow> Inr c
      | key # values \<Rightarrow>
         if values = [] then Inl (MissingValue key line) else apply_directive d base line key values c)"

fun apply_word_lines :: "Dirs \<Rightarrow> path \<Rightarrow> nat \<Rightarrow> string list list \<Rightarrow> AppConfig \<Rightarrow> (ConfigError, AppConfig) result" where
  "apply_word_lines d base line [] c = Inr c"
| "apply_word_lines d base line (ws # rest) c =
     res_bind (apply_words d base line ws c) (apply_word_lines d base (line + 1) rest)"

lemma apply_lines_words:
  assumes "list_all (\<lambda>raw. split_whitespace (line_text raw) = [] \<longleftrightarrow> line_text raw = []) raws"
  shows "apply_lines d base line raws c =
    apply_word_lines d base line (map (\<lambda>raw. split_whitespace (line_text raw)) raws) c"
  using assms
proof (induction raws arbitrary: line c)
  case (Cons raw raws)
  have "apply_line d base line raw c = apply_words d base line (split_whitespace (line_text raw)) c"
    using Cons.prems by (auto simp: apply_line_def apply_words_def split: list.splits)
  with Cons show ?case by (auto simp: res_bind_def split: sum.splits)
qed simp

lemma sample_keys:
  "to_ascii_lowercase ''Port'' = ''port''"
  "to_ascii_lowercase ''ListenAddress'' = ''listenaddress''"
  "to_ascii_lowercase ''HostKey'' = ''hostkey''"
  "to_ascii_lowercase ''AuthorizedKeysFile'' = ''authorizedkeysfile''"
  "to_ascii_lowercase ''Shell'' = ''shell''"
  "to_ascii_lowercase ''ExecMode'' = ''execmode''"
  "to_ascii_lowercase ''PermitTTY'' = ''permittty''"
  "to_ascii_lowercase ''PermitExec'' = ''permitexec''"
  "to_ascii_lowercase ''Subsystem'' = ''subsystem''"
  "to_ascii_lowercase ''AllowTcpForwarding'' = ''allowtcpforwarding''"
  "to_ascii_lowercase ''AllowRemoteForwarding'' = ''allowremoteforwarding''"
  "to_ascii_lowercase ''GatewayPorts'' = ''gatewayports''"
  "to_ascii_lowercase ''MaxUnauthConnectionsGlobal'' = ''maxunauthconnectionsglobal''"
  "to_ascii_lowercase ''MaxUnauthConnectionsPerIp'' = ''maxunauthconnectionsperip''"
  "to_ascii_lowercase ''MaxUnauthConnectionsPerSubnet'' = ''maxunauthconnectionspersubnet''"
  "to_ascii_lowercase ''NewConnectionsPerMinutePerIp'' = ''newconnectionsperminuteperip''"
  "to_ascii_lowercase ''NewConnectionsBurstPerIp'' = ''newconnectionsburstperip''"
  "to_ascii_lowercase ''LoginGraceTime'' = ''logingracetime''"
  "to_ascii_lowercase ''ClientBannerTimeout'' = ''clientbannertimeout''"
  "to_ascii_lowercase ''KexStartTimeout'' = ''kexstarttimeout''"
  "to_ascii_lowercase ''MaxAuthAttempts'' = ''maxauthattempts''"
  "to_ascii_lowercase ''AuthRejectionTime'' = ''authrejectiontime''"
  "to_ascii_lowercase ''AuthFailureBanThreshold'' = ''authfailurebanthreshold''"
  "to_ascii_lowercase ''AuthFailureBanWindow'' = ''authfailurebanwindow''"
  "to_ascii_lowercase ''AuthFailureBanDuration'' = ''authfailurebanduration''"
  "to_ascii_lowercase ''InactivityTimeout'' = ''inactivitytimeout''"
  "to_ascii_lowercase ''KeepaliveInterval'' = ''keepaliveinterval''"
  "to_ascii_lowercase ''KeepaliveMax'' = ''keepalivemax''"
  "to_ascii_lowercase ''ChannelBufferSize'' = ''channelbuffersize''"
  "to_ascii_lowercase ''EventBufferSize'' = ''eventbuffersize''"
  "to_ascii_lowercase ''WindowSize'' = ''windowsize''"
  "to_ascii_lowercase ''MaximumPacketSize'' = ''maximumpacketsize''"
  "to_ascii_lowercase ''NoDelay'' = ''nodelay''"
  "to_ascii_lowercase ''AuthorizedKeysMaxSize'' = ''authorizedkeysmaxsize''"
  "to_ascii_lowercase ''AuthorizedKeysMaxEntries'' = ''authorizedkeysmaxentries''"
  "to_ascii_lowercase ''AuthorizedKeysReloadInterval'' = ''authorizedkeysreloadinterval''"
  "to_ascii_lowercase ''LogLevel'' = ''loglevel''"
  "to_ascii_lowercase ''KiB'' = ''kib''"
  by code_simp+

lemmas parser_eval =
  parse_int_def parse_uint_def is_digit_def digit_val_def u16_max_def u32_max_def usize_max_def
  u64_max_def parse_duration_def parse_byte_size_def parse_bool_def log_level_parse_def exec_mode_parse_def
  duration_of_def byte_multiplier_def trim_id ws_len_def ws_len_back_def ascii_ws_def ws2_def ws3_def Let_def

lemma sample_values:
  "parse_int u16_max ''2222'' = Inr 2222"
  "exec_mode_parse ''shell-login'' = Inr ShellLogin"
  "parse_bool ''yes'' = Inr True"
  "parse_int usize_max ''16'' = Inr 16"
  "parse_int usize_max ''3'' = Inr 3"
  "parse_int usize_max ''8'' = Inr 8"
  "parse_int usize_max ''12'' = Inr 12"
  "parse_int usize_max ''4'' = Inr 4"
  "parse_duration ''15s'' = Inr (from_secs 15)"
  "parse_duration ''5s'' = Inr (from_secs 5)"
  "parse_duration ''10m'' = Inr (from_secs 600)"
  "parse_duration ''15m'' = Inr (from_secs 900)"
  "parse_duration ''30s'' = Inr (from_secs 30)"
  "parse_int usize_max ''32'' = Inr 32"
  "parse_int u32_max ''1048576'' = Inr 1048576"
  "parse_int u32_max ''32768'' = Inr 32768"
  "parse_int usize_max ''128'' = Inr 128"
  "log_level_parse ''info'' = Inr Info"
  by (simp_all add: parser_eval to_ascii_lowercase_def to_lower_def)

lemma sample_value_2s: "parse_duration ''2s'' = Inr (from_secs 2)"
  by (simp add: parser_eval to_ascii_lowercase_def to_lower_def) (simp add: numeral_2_eq_2)

lemma sample_value_256KiB: "parse_byte_size ''256KiB'' = Inr 262144"
  by (simp add: parser_eval sample_keys)

lemma expand_sample:
  assumes "home_dir d = Some home" "is_absolute home"
  shows "resolve_config_path d ''~/.config/narrowd/ssh_host_ed25519_key'' base =
      Inr (path_join home ''.config/narrowd/ssh_host_ed25519_key'')"
    and "resolve_config_path d ''~/.ssh/authorized_keys'' base = Inr (path_join home ''.ssh/authorized_keys'')"
    and "resolve_shell_command_or_path d ''/bin/bash'' base = Inr ''/bin/bash''"
  using assms
  by (simp_all add: resolve_config_path_def resolve_shell_command_or_path_def expand_home_def starts_with_def
      trim_start_matches.simps is_absolute_def [of "''/bin/bash''"])

lemma sample_defaults:
  assumes "home_dir d = Some home" "is_absolute home"
  shows "apply_word_lines d base 1 sample_words (default_config Unix home (path_join home ''.config'')) =
    Inr (default_config Unix home (path_join home ''.config''))"
  unfolding sample_words_def
  by (simp add: apply_words_def apply_directive_def directive_arms sample_keys set_value_def invalid_def
      sample_values sample_value_2s sample_value_256KiB expand_sample [OF assms])
    (simp add: default_config_def path_join_join is_absolute_def)

subsection \<open>Numbers with a suffix\<close>

definition is_letter :: "char \<Rightarrow> bool" where
  "is_letter c \<longleftrightarrow> (97 \<le> (of_char c :: nat) \<and> (of_char c :: nat) \<le> 122) \<or>
     (65 \<le> (of_char c :: nat) \<and> (of_char c :: nat) \<le> 90)"

lemma digits_from_show_overflow: "m < n \<Longrightarrow> digits_from m 0 (show_nat n) = Inl PosOverflow"
proof (induction n rule: show_nat.induct)
  case (1 n)
  show ?case
  proof (cases "n < 10")
    case True
    with "1.prems" show ?thesis by (simp add: show_nat.simps [of n])
  next
    case False
    have "digits_from m 0 (show_nat (n div 10)) = (if n div 10 \<le> m then Inr (n div 10) else Inl PosOverflow)"
      using 1 False digits_from_show [of "n div 10" m] by simp
    with "1.prems" False show ?thesis
      by (simp add: show_nat.simps [of n] digits_from_append)
  qed
qed

lemma parse_int_show: "parse_int m (show_nat n) = (if n \<le> m then Inr n else Inl (BadInteger PosOverflow))"
proof -
  obtain c cs where s: "show_nat n = c # cs" using show_nat_not_Nil by (cases "show_nat n") blast+
  have "is_digit c" using show_nat_digits [of c n] s by simp
  then have "c \<noteq> CHR ''+''" by (auto simp: is_digit_def)
  with digits_from_show [of n m] digits_from_show_overflow [of m n] s show ?thesis
    by (simp add: parse_int_def parse_uint_def)
qed

lemma number_with_suffix:
  assumes "list_all is_letter sfx"
  shows "trim (show_nat n @ sfx) = show_nat n @ sfx"
    "takeWhile is_digit (show_nat n @ sfx) = show_nat n"
    "dropWhile is_digit (show_nat n @ sfx) = sfx"
proof -
  have digits: "\<forall>c \<in> set (show_nat n). is_digit c" using show_nat_digits by blast
  have letters: "\<forall>c \<in> set sfx. is_letter c" using assms by (simp add: list_all_iff)
  have nodigit: "is_letter c \<Longrightarrow> \<not> is_digit c" for c by (auto simp: is_letter_def is_digit_def)
  show "trim (show_nat n @ sfx) = show_nat n @ sfx"
    by (rule trim_digits) (use digits letters in \<open>auto simp: is_letter_def\<close>)
  have sfx: "takeWhile is_digit sfx = []" "dropWhile is_digit sfx = sfx"
    using letters nodigit by (cases sfx; auto)+
  show "takeWhile is_digit (show_nat n @ sfx) = show_nat n" "dropWhile is_digit (show_nat n @ sfx) = sfx"
    using digits sfx by (simp_all add: takeWhile_append2 dropWhile_append2)
qed

subsection \<open>Loading\<close>

lemma path_parent_absolute: "path_parent q = Some b \<Longrightarrow> is_absolute q \<Longrightarrow> is_absolute b"
  by (auto simp: path_parent_def Let_def len_before_body_def is_absolute_def split: if_splits)

lemma config_load_Inr:
  assumes "config_load p d ex rd req = Inr c"
  obtains home cp where "home_dir d = Some home" "config_path_of d ex req = Inr cp" "validate c = Inr ()"
    "apply_config_file d rd cp (default_config p home (config_root_of d home)) = Inr c"
  using assms by (auto simp: config_load_def res_bind_eq_Inr app_defaults_Inr)

lemma apply_config_file_wf: "apply_config_file d rd cp c = Inr c' \<Longrightarrow> config_wf c \<Longrightarrow> config_wf c'"
  by (auto simp: apply_config_file_def res_bind_eq_Inr dest: cfg_wf.text_keeps split: option.splits)

text \<open>A home directory and a one-line configuration file, for the witnesses.\<close>

definition test_dirs :: Dirs where
  "test_dirs = \<lparr>home_dir = Some ''/home/u'', config_dir = None\<rparr>"

definition test_text :: string where
  "test_text = ''PermitTTY no''"

lemma test_text_words: "str_lines test_text = [test_text]" "line_text test_text = test_text"
    "split_whitespace test_text = [''PermitTTY'', ''no'']" "to_ascii_lowercase ''PermitTTY'' = ''permittty''"
    "parse_bool ''no'' = Inr False" "test_text \<noteq> []"
  by code_simp+

lemma test_text_applies: "apply_text d test_text base c = Inr (c\<lparr>permit_tty := False\<rparr>)"
  by (simp add: apply_text_def test_text_words apply_line_def apply_directive_def directive_arms
      set_value_def invalid_def)

lemma test_load:
  "\<exists>c. config_load Unix test_dirs (\<lambda>_. True) (\<lambda>_. Some test_text) (Some ''/etc/narrowd.conf'') = Inr c \<and>
     permit_tty c = False"
proof -
  have "expand_home test_dirs ''/etc/narrowd.conf'' = Inr ''/etc/narrowd.conf''"
    by (simp add: expand_home_def starts_with_def)
  then show ?thesis
    by (simp add: config_load_def app_defaults_def config_path_of_def apply_config_file_def test_text_applies
        validate_def default_config_def test_dirs_def)
qed



text \<open>
  The paths of a loaded configuration. With absolute home and configuration
  directories and an absolute requested path, the host key and the authorized keys file
  are absolute, and the shell is absolute or a bare command name.
\<close>

theorem loaded_paths_are_absolute:
  assumes "config_load p d ex rd (Some q) = Inr c" "is_absolute q" "path_parent q = Some b" "dirs_absolute d"
  shows "is_absolute (host_key c) \<and> is_absolute (authorized_keys_file c) \<and>
    (is_absolute (shell c) \<or> length (components (shell c)) \<le> 1)"
proof -
  have b: "is_absolute b" by (rule path_parent_absolute [OF assms(3,2)])
  have "q \<noteq> ''~''" "\<not> starts_with ''~/'' q"
    using assms(2) by (auto simp: is_absolute_def starts_with_def take_Suc hd_conv_nth neq_Nil_conv)
  then have q: "config_path_of d ex (Some q) = Inr (Some q)"
    by (simp add: config_path_of_def expand_home_def)
  from assms(1) obtain home where home: "home_dir d = Some home"
    and app: "apply_config_file d rd (Some q) (default_config p home (config_root_of d home)) = Inr c"
    by (rule config_load_Inr) (simp add: q)
  have "paths_ok d b c" by (rule cfg_paths.file_keeps [OF app assms(3) default_config_paths_ok [OF home]])
  with b assms(4) show ?thesis by (simp add: paths_ok_def)
qed

theorem loaded_paths_are_absolute_witness:
  "\<exists>c. config_load Unix test_dirs (\<lambda>_. True) (\<lambda>_. Some test_text) (Some ''/etc/narrowd.conf'') = Inr c \<and>
     is_absolute (authorized_keys_file c)"
proof -
  obtain c where c: "config_load Unix test_dirs (\<lambda>_. True) (\<lambda>_. Some test_text) (Some ''/etc/narrowd.conf'') = Inr c"
    using test_load by blast
  have "is_absolute ''/etc/narrowd.conf''" "path_parent ''/etc/narrowd.conf'' = Some ''/etc''"
    "dirs_absolute test_dirs"
    by code_simp+
  from loaded_paths_are_absolute [OF c this] c show ?thesis by blast
qed

text \<open>
  [C20] Nothing unknown and no password login gets through. A text is accepted only if
  every line that is not blank or a comment names a supported directive with a value,
  every \<open>PasswordAuthentication\<close> says no and every \<open>PubkeyAuthentication\<close> says yes.
\<close>

theorem accepted_text_is_key_only:
  assumes "apply_text d body base c = Inr c'"
  shows "\<forall>raw \<in> set (str_lines body). line_accepted raw"
  using assms apply_lines_accepted by (auto simp: apply_text_def)

theorem accepted_text_is_key_only_witness: "line_accepted test_text"
  using accepted_text_is_key_only [OF test_text_applies [of test_dirs "''/etc''" "default_config Unix ''/home/u'' ''/etc''"]]
  by (simp add: test_text_words)



text \<open>
  Durations and sizes are read exactly. A decimal number with a suffix of letters
  is rejected when the number exceeds 64 bits, and otherwise is the number times the
  unit; minutes and hours saturate at the largest number of seconds, sizes that exceed
  \<open>usize\<close> are errors.
\<close>

theorem suffixed_values_are_exact:
  assumes "list_all is_letter sfx"
  shows "parse_duration (show_nat n @ sfx) =
      (if n \<le> u64_max then duration_of n (to_ascii_lowercase sfx) else Inl (BadInteger PosOverflow)) \<and>
    parse_byte_size (show_nat n @ sfx) =
      (if n \<le> usize_max then
         res_bind (byte_multiplier (to_ascii_lowercase sfx))
           (\<lambda>m. if n * m \<le> usize_max then Inr (n * m) else Inl TooLarge)
       else Inl (BadInteger PosOverflow))"
  using number_with_suffix [OF assms, of n]
  by (simp add: parse_duration_def parse_byte_size_def parse_int_show)

theorem suffixed_values_are_exact_witness: "parse_duration (show_nat 90 @ ''M'') = Inr (from_secs 5400)"
proof -
  have "to_ascii_lowercase ''M'' = ''m''" "list_all is_letter ''M''" by code_simp+
  with suffixed_values_are_exact [of "''M''" 90] show ?thesis by (simp add: u64_max_def duration_of_def)
qed

end
