(* ===== verification/Metrics.thy ===== *)
theory Metrics
  imports Net
begin

text \<open>
  The counters of the daemon (\<open>src/src/metrics.rs\<close>). Atomic counters are 64-bit words, so
  \<open>fetch_add\<close> wraps; the two tables are hash maps behind locks whose critical sections
  cannot panic (additions wrap, as in a release build), and an event is one call.
  \<open>snapshot\<close>, which only reads, is in \<open>Metrics_Snapshot\<close>.
\<close>

record MetricsState =
  current_unauthenticated_connections :: "64 word"
  rejected_connections_by_reason :: "(string, 64 word) hmap"
  auth_failures_by_ip :: "(IpAddr, 64 word) hmap"
  max_auth_failure_ips :: nat
  auth_failure_ip_overflow :: "64 word"
  temporary_bans_issued :: "64 word"
  preauth_timeouts :: "64 word"
  malformed_packet_disconnects :: "64 word"
  authorized_keys_reload_successes :: "64 word"
  authorized_keys_reload_failures :: "64 word"

definition metrics_new :: "nat \<Rightarrow> MetricsState" where
  "metrics_new n =
     \<lparr>current_unauthenticated_connections = 0, rejected_connections_by_reason = [],
      auth_failures_by_ip = [], max_auth_failure_ips = n, auth_failure_ip_overflow = 0,
      temporary_bans_issued = 0, preauth_timeouts = 0, malformed_packet_disconnects = 0,
      authorized_keys_reload_successes = 0, authorized_keys_reload_failures = 0\<rparr>"

definition preauth_connection_opened :: "MetricsState \<Rightarrow> MetricsState" where
  "preauth_connection_opened m =
     m\<lparr>current_unauthenticated_connections := current_unauthenticated_connections m + 1\<rparr>"

definition saturating_sub1 :: "64 word \<Rightarrow> 64 word" where
  "saturating_sub1 w = (if w = 0 then 0 else w - 1)"

definition preauth_connection_closed :: "MetricsState \<Rightarrow> MetricsState" where
  "preauth_connection_closed m =
     m\<lparr>current_unauthenticated_connections := saturating_sub1 (current_unauthenticated_connections m)\<rparr>"

definition record_rejected_connection :: "string \<Rightarrow> MetricsState \<Rightarrow> MetricsState" where
  "record_rejected_connection reason m =
     m\<lparr>rejected_connections_by_reason :=
        hm_insert reason
          ((case hm_get (rejected_connections_by_reason m) reason of None \<Rightarrow> 0 | Some n \<Rightarrow> n) + 1)
          (rejected_connections_by_reason m)\<rparr>"

definition count_failure_ip :: "IpAddr \<Rightarrow> MetricsState \<Rightarrow> MetricsState" where
  "count_failure_ip addr_ip m =
     (case hm_get (auth_failures_by_ip m) addr_ip of
        Some n \<Rightarrow> m\<lparr>auth_failures_by_ip := hm_insert addr_ip (n + 1) (auth_failures_by_ip m)\<rparr>
      | None \<Rightarrow>
          if hm_len (auth_failures_by_ip m) < max_auth_failure_ips m
          then m\<lparr>auth_failures_by_ip := hm_insert addr_ip 1 (auth_failures_by_ip m)\<rparr>
          else m\<lparr>auth_failure_ip_overflow := auth_failure_ip_overflow m + 1\<rparr>)"

definition metrics_auth_failure :: "IpAddr option \<Rightarrow> bool \<Rightarrow> MetricsState \<Rightarrow> MetricsState" where
  "metrics_auth_failure peer_ip temporary_ban_issued m =
     (let m1 = (case peer_ip of None \<Rightarrow> m | Some addr_ip \<Rightarrow> count_failure_ip addr_ip m) in
      if temporary_ban_issued
      then m1\<lparr>temporary_bans_issued := temporary_bans_issued m1 + 1\<rparr>
      else m1)"

definition record_preauth_timeout :: "MetricsState \<Rightarrow> MetricsState" where
  "record_preauth_timeout m = m\<lparr>preauth_timeouts := preauth_timeouts m + 1\<rparr>"

definition record_malformed_disconnect :: "MetricsState \<Rightarrow> MetricsState" where
  "record_malformed_disconnect m = m\<lparr>malformed_packet_disconnects := malformed_packet_disconnects m + 1\<rparr>"

definition record_cache_reload_success :: "MetricsState \<Rightarrow> MetricsState" where
  "record_cache_reload_success m =
     m\<lparr>authorized_keys_reload_successes := authorized_keys_reload_successes m + 1\<rparr>"

definition record_cache_reload_failure :: "MetricsState \<Rightarrow> MetricsState" where
  "record_cache_reload_failure m =
     m\<lparr>authorized_keys_reload_failures := authorized_keys_reload_failures m + 1\<rparr>"

subsection \<open>Events\<close>

datatype metrics_event =
    PreauthOpened
  | PreauthClosed
  | Rejected string
  | AuthFailed "IpAddr option" bool
  | PreauthTimeout
  | Malformed
  | ReloadOk
  | ReloadFailed

fun metrics_apply :: "metrics_event \<Rightarrow> MetricsState \<Rightarrow> MetricsState" where
  "metrics_apply PreauthOpened m = preauth_connection_opened m"
| "metrics_apply PreauthClosed m = preauth_connection_closed m"
| "metrics_apply (Rejected r) m = record_rejected_connection r m"
| "metrics_apply (AuthFailed addr_ip b) m = metrics_auth_failure addr_ip b m"
| "metrics_apply PreauthTimeout m = record_preauth_timeout m"
| "metrics_apply Malformed m = record_malformed_disconnect m"
| "metrics_apply ReloadOk m = record_cache_reload_success m"
| "metrics_apply ReloadFailed m = record_cache_reload_failure m"

definition metrics_run :: "metrics_event list \<Rightarrow> MetricsState \<Rightarrow> MetricsState" where
  "metrics_run es m = fold metrics_apply es m"

definition known_ip :: "metrics_event \<Rightarrow> bool" where
  "known_ip e = (case e of AuthFailed (Some _) _ \<Rightarrow> True | _ \<Rightarrow> False)"

definition issued_ban :: "metrics_event \<Rightarrow> bool" where
  "issued_ban e = (case e of AuthFailed _ b \<Rightarrow> b | _ \<Rightarrow> False)"

definition word_total :: "('k, 64 word) hmap \<Rightarrow> 64 word" where
  "word_total m = sum_list (map snd m)"

lemma word_total_update:
  "distinct (map fst m) \<Longrightarrow>
     word_total (AList.update k v m) = word_total m - (case map_of m k of None \<Rightarrow> 0 | Some w \<Rightarrow> w) + v"
proof (induction m)
  case (Cons a m)
  obtain k' w where a: "a = (k', w)" by (cases a)
  show ?case
  proof (cases "k' = k")
    case False
    with Cons a show ?thesis by (auto simp: word_total_def split: option.splits)
  qed (use a in \<open>simp add: word_total_def\<close>)
qed (simp add: word_total_def)

lemma word_total_insert:
  "hm_wf m \<Longrightarrow>
     word_total (hm_insert k v m) = word_total m - (case hm_get m k of None \<Rightarrow> 0 | Some w \<Rightarrow> w) + v"
  by (simp add: hm_wf_def word_total_update)

definition metrics_inv :: "nat \<Rightarrow> metrics_event list \<Rightarrow> MetricsState \<Rightarrow> bool" where
  "metrics_inv n es m \<longleftrightarrow>
     hm_wf (auth_failures_by_ip m) \<and> max_auth_failure_ips m = n \<and> hm_len (auth_failures_by_ip m) \<le> n \<and>
     word_total (auth_failures_by_ip m) + auth_failure_ip_overflow m = of_nat (length (filter known_ip es)) \<and>
     temporary_bans_issued m = of_nat (length (filter issued_ban es))"

lemma count_failure_ip_inv:
  assumes "hm_wf (auth_failures_by_ip m)" "hm_len (auth_failures_by_ip m) \<le> max_auth_failure_ips m"
    and m': "m' = count_failure_ip addr_ip m"
  shows "hm_wf (auth_failures_by_ip m')" "max_auth_failure_ips m' = max_auth_failure_ips m"
    "hm_len (auth_failures_by_ip m') \<le> max_auth_failure_ips m"
    "word_total (auth_failures_by_ip m') + auth_failure_ip_overflow m' =
       word_total (auth_failures_by_ip m) + auth_failure_ip_overflow m + 1"
    "temporary_bans_issued m' = temporary_bans_issued m"
  using assms(1,2) hm.len_put [of "auth_failures_by_ip m" addr_ip]
  by (auto simp: m' count_failure_ip_def word_total_insert split: option.splits)

lemma metrics_inv_step: "metrics_inv n es m \<Longrightarrow> metrics_inv n (es @ [e]) (metrics_apply e m)"
proof (cases e)
  case (AuthFailed addr_ip b)
  assume inv: "metrics_inv n es m"
  show ?thesis
  proof (cases addr_ip)
    case None
    with inv AuthFailed show ?thesis
      by (simp add: metrics_inv_def metrics_auth_failure_def known_ip_def issued_ban_def)
  next
    case (Some a)
    with inv AuthFailed count_failure_ip_inv [OF _ _ refl, of m a] show ?thesis
      by (simp add: metrics_inv_def metrics_auth_failure_def known_ip_def issued_ban_def Let_def)
  qed
qed (simp_all add: metrics_inv_def known_ip_def issued_ban_def preauth_connection_opened_def
    preauth_connection_closed_def record_rejected_connection_def record_preauth_timeout_def
    record_malformed_disconnect_def record_cache_reload_success_def record_cache_reload_failure_def)

lemma metrics_run_inv: "metrics_inv n es (metrics_run es (metrics_new n))"
proof (induction es rule: rev_induct)
  case Nil
  show ?case by (simp add: metrics_inv_def metrics_run_def metrics_new_def word_total_def)
next
  case (snoc e es)
  from metrics_inv_step [OF snoc] show ?case by (simp add: metrics_run_def)
qed

text \<open>
  The failure counters lose nothing and stay bounded. After any sequence of events
  the table holds at most the configured number of addresses, its counters and the
  overflow counter add up to the number of failures with a known address, and the ban
  counter is the number of bans, all modulo \<open>2 ^ 64\<close>.
\<close>

theorem failure_counters_account:
  "let m = metrics_run es (metrics_new n) in
     hm_len (auth_failures_by_ip m) \<le> n \<and>
     word_total (auth_failures_by_ip m) + auth_failure_ip_overflow m = of_nat (length (filter known_ip es)) \<and>
     temporary_bans_issued m = of_nat (length (filter issued_ban es))"
  using metrics_run_inv [of n es] by (simp add: metrics_inv_def Let_def)

subsection \<open>The gauge of unauthenticated connections\<close>

text \<open>Every close belongs to an earlier open; fewer than \<open>2 ^ 64\<close> connections are open at once.\<close>

fun live_after :: "metrics_event list \<Rightarrow> nat option" where
  "live_after [] = Some 0"
| "live_after (e # es) =
     (case live_after es of
        None \<Rightarrow> None
      | Some n \<Rightarrow>
          (if e = PreauthOpened then (if n + 1 < 2 ^ 64 then Some (n + 1) else None)
           else if e = PreauthClosed then (if n = 0 then None else Some (n - 1))
           else Some n))"

lemma gauge_frame:
  assumes "e \<noteq> PreauthOpened" "e \<noteq> PreauthClosed"
  shows "current_unauthenticated_connections (metrics_apply e m) = current_unauthenticated_connections m"
  using assms
  by (cases e) (auto simp: record_rejected_connection_def record_preauth_timeout_def
      record_malformed_disconnect_def record_cache_reload_success_def record_cache_reload_failure_def
      metrics_auth_failure_def count_failure_ip_def Let_def split: option.splits)

text \<open>
  The gauge is exact. When every close belongs to an earlier open, the gauge is the
  number of connections open after the events (given latest first).
\<close>

theorem gauge_counts_live_connections:
  assumes "live_after es = Some n"
  shows "unat (current_unauthenticated_connections (metrics_run (rev es) (metrics_new k))) = n"
  using assms
proof (induction es arbitrary: n)
  case Nil
  then show ?case by (simp add: metrics_run_def metrics_new_def)
next
  case (Cons e es)
  let ?m = "metrics_run (rev es) (metrics_new k)"
  from Cons.prems obtain n0 where n0: "live_after es = Some n0" by (auto split: option.splits)
  have IH: "unat (current_unauthenticated_connections ?m) = n0" by (rule Cons.IH [OF n0])
  have step: "metrics_run (rev (e # es)) (metrics_new k) = metrics_apply e ?m" by (simp add: metrics_run_def)
  consider "e = PreauthOpened" | "e = PreauthClosed" | "e \<noteq> PreauthOpened" "e \<noteq> PreauthClosed" by blast
  then show ?case
  proof cases
    case 1
    with Cons.prems n0 have n: "n = n0 + 1" "n0 + 1 < 2 ^ 64" by (auto split: if_splits)
    then show ?thesis
      unfolding step using IH 1
      by (simp add: preauth_connection_opened_def unat_word_ariths)
  next
    case 2
    with Cons.prems n0 have n: "n = n0 - 1" "n0 \<noteq> 0" by (auto split: if_splits)
    then have "current_unauthenticated_connections ?m \<noteq> 0" using IH by auto
    then show ?thesis
      unfolding step using IH 2 n
      by (simp add: preauth_connection_closed_def saturating_sub1_def unat_minus_one)
  next
    case 3
    with Cons.prems n0 have "n = n0" by simp
    with IH 3 show ?thesis unfolding step by (simp add: gauge_frame)
  qed
qed

theorem gauge_counts_live_connections_witness:
  "unat (current_unauthenticated_connections
     (metrics_run (rev [PreauthClosed, Malformed, PreauthOpened, PreauthOpened]) (metrics_new 8))) = 1"
  by (rule gauge_counts_live_connections) simp

end
