(* ===== verification/Rust_Utf8.thy ===== *)
theory Rust_Utf8
  imports Prelude
begin

text \<open>
  Two operations of the standard library on text that the SSH server uses: substring
  search, and reading bytes as UTF-8 with replacement characters for what is not valid
  (\<open>String::from_utf8_lossy\<close>). Strings are their bytes.
\<close>

fun str_contains :: "string \<Rightarrow> string \<Rightarrow> bool" where
  "str_contains [] pat = (pat = [])"
| "str_contains (c # s) pat = (take (length pat) (c # s) = pat \<or> str_contains s pat)"

definition byte_in :: "nat \<Rightarrow> nat \<Rightarrow> char \<Rightarrow> bool" where
  "byte_in a b c = (let n = of_char c :: nat in a \<le> n \<and> n \<le> b)"

text \<open>
  The next item of a byte string: whether it is a valid UTF-8 character, and the number
  of bytes it takes. An invalid item is the longest prefix of some valid character.
\<close>

fun utf8_item :: "string \<Rightarrow> bool \<times> nat" where
  "utf8_item [] = (False, 1)"
| "utf8_item (b # bs) =
     (let cont = (\<lambda>i lo hi. i < length bs \<and> byte_in lo hi (bs ! i));
          three = (\<lambda>lo hi. if \<not> cont 0 lo hi then (False, 1) else if cont 1 0x80 0xBF then (True, 3) else (False, 2));
          four = (\<lambda>lo hi. if \<not> cont 0 lo hi then (False, 1) else if \<not> cont 1 0x80 0xBF then (False, 2)
                          else if cont 2 0x80 0xBF then (True, 4) else (False, 3))
      in if byte_in 0 0x7F b then (True, 1)
         else if byte_in 0xC2 0xDF b then (if cont 0 0x80 0xBF then (True, 2) else (False, 1))
         else if byte_in 0xE0 0xE0 b then three 0xA0 0xBF
         else if byte_in 0xED 0xED b then three 0x80 0x9F
         else if byte_in 0xE1 0xEF b then three 0x80 0xBF
         else if byte_in 0xF0 0xF0 b then four 0x90 0xBF
         else if byte_in 0xF1 0xF3 b then four 0x80 0xBF
         else if byte_in 0xF4 0xF4 b then four 0x80 0x8F
         else (False, 1))"

lemma utf8_item_pos: "0 < snd (utf8_item s)"
  by (cases s) (simp_all add: Let_def if_distrib [of snd] cong: if_cong)

function from_utf8_lossy :: "string \<Rightarrow> string" where
  "from_utf8_lossy s =
     (if s = [] then []
      else case utf8_item s of (valid, n) \<Rightarrow>
          (if valid then take n s else [CHR 0xEF, CHR 0xBF, CHR 0xBD]) @ from_utf8_lossy (drop n s))"
  by pat_completeness auto

termination from_utf8_lossy
proof (relation "measure length")
  fix s :: string and valid n
  assume "s \<noteq> []" "(valid, n) = utf8_item s"
  then have "0 < n" using utf8_item_pos [of s] by (metis snd_conv)
  with \<open>s \<noteq> []\<close> show "(drop n s, s) \<in> measure length" by (simp add: diff_less)
qed simp

declare from_utf8_lossy.simps [simp del]

end
