(* ===== verification/Rust_Fmt.thy ===== *)
theory Rust_Fmt
  imports Rust_Text Rust_Utf8 Net
begin

text \<open>
  Text that the standard library produces for values: numbers in base 16, addresses
  (\<open>Display\<close> of \<open>IpAddr\<close> and \<open>SocketAddr\<close>), and quoted strings (\<open>Debug\<close> of \<open>str\<close>). The text of
  an address determines the address.
\<close>

unbundle bit_operations_syntax

subsection \<open>Numbers in base 16\<close>

definition hex_char :: "nat \<Rightarrow> char" where
  "hex_char n = (if n < 10 then digit_char n else char_of (87 + n))"

fun show_hex :: "nat \<Rightarrow> string" where
  "show_hex n = (if n < 16 then [hex_char n] else show_hex (n div 16) @ [hex_char (n mod 16)])"

declare show_hex.simps [simp del]

definition hex_val :: "char \<Rightarrow> nat" where
  "hex_val c = (if is_digit c then digit_val c else of_char c - 87)"

definition hex_value :: "string \<Rightarrow> nat" where
  "hex_value s = foldl (\<lambda>a c. 16 * a + hex_val c) 0 s"

lemma hex_char_val: "n < 16 \<Longrightarrow> hex_val (hex_char n) = n"
proof (cases "n < 10")
  case False
  assume "n < 16"
  with False have "of_char (char_of (87 + n)) = 87 + n" by simp
  moreover from this have "\<not> is_digit (char_of (87 + n))" by (simp add: is_digit_def)
  ultimately show ?thesis using False by (simp add: hex_val_def hex_char_def)
qed (simp add: hex_val_def hex_char_def)

lemma hex_value_show [simp]: "hex_value (show_hex n) = n"
proof (induction n rule: show_hex.induct)
  case (1 n)
  then show ?case
    by (cases "n < 16") (simp_all add: show_hex.simps [of n] hex_value_def hex_char_val)
qed

lemma show_hex_not_Nil [simp]: "show_hex n \<noteq> []" "[] \<noteq> show_hex n"
  by (subst show_hex.simps, simp)+

definition is_hex :: "char \<Rightarrow> bool" where
  "is_hex c \<longleftrightarrow> is_digit c \<or> 97 \<le> (of_char c :: nat) \<and> (of_char c :: nat) \<le> 102"

lemma hex_char_is_hex:
  assumes "n < 16"
  shows "is_hex (hex_char n)"
proof (cases "n < 10")
  case False
  with assms have "of_char (char_of (87 + n)) = 87 + n" by simp
  with False assms show ?thesis by (simp add: is_hex_def hex_char_def)
qed (simp add: is_hex_def hex_char_def)

lemma show_hex_chars: "c \<in> set (show_hex n) \<Longrightarrow> is_hex c"
proof (induction n rule: show_hex.induct)
  case (1 n)
  then show ?case by (cases "n < 16") (auto simp: show_hex.simps [of n] hex_char_is_hex)
qed

lemma show_nat_inject: "show_nat n = show_nat m \<longleftrightarrow> n = m"
  by (metis parse_uint_show max.cobounded1 max.cobounded2 sum.inject(2))

lemma show_word_inject: "show_nat (unat x) = show_nat (unat y) \<longleftrightarrow> x = y" for x y :: "'a::len word"
  by (simp add: show_nat_inject word_unat_eq_iff)

subsection \<open>Splitting at a separator\<close>

fun split_on :: "char \<Rightarrow> string \<Rightarrow> string list" where
  "split_on c [] = [[]]"
| "split_on c (x # s) =
     (if x = c then [] # split_on c s
      else case split_on c s of [] \<Rightarrow> [[x]] | f # fs \<Rightarrow> (x # f) # fs)"

lemma split_on_not_Nil [simp]: "split_on c s \<noteq> []"
  by (cases s) (auto split: list.split)

lemma split_on_append: "split_on c (a @ c # b) = split_on c a @ split_on c b"
  by (induction a) (auto split: list.splits)

lemma split_on_none: "c \<notin> set s \<Longrightarrow> split_on c s = [s]"
  by (induction s) auto

lemma split_on_join:
  "list_all (\<lambda>f. c \<notin> set f) fs \<Longrightarrow> split_on c (join_with [c] fs) = (if fs = [] then [[]] else fs)"
  by (induction "[c]" fs rule: join_with.induct) (simp_all add: split_on_none split_on_append)

subsection \<open>Addresses\<close>

definition display_v4 :: "8 word \<Rightarrow> 8 word \<Rightarrow> 8 word \<Rightarrow> 8 word \<Rightarrow> string" where
  "display_v4 a b c d = join_with ''.'' (map (\<lambda>x. show_nat (unat x)) [a, b, c, d])"

definition fmt_subslice :: "16 word list \<Rightarrow> string" where
  "fmt_subslice chunk = join_with '':'' (map (\<lambda>s. show_hex (unat s)) chunk)"

text \<open>The loop for the longest run of zero segments: its start and its length.\<close>

fun zero_span :: "nat \<Rightarrow> nat \<times> nat \<Rightarrow> nat \<times> nat \<Rightarrow> 16 word list \<Rightarrow> nat \<times> nat" where
  "zero_span i longest current [] = longest"
| "zero_span i longest current (s # ss) =
     (if s = 0 then
        let current = (if snd current = 0 then (i, 1) else (fst current, snd current + 1)) in
        zero_span (i + 1) (if snd longest < snd current then current else longest) current ss
      else zero_span (i + 1) longest (0, 0) ss)"

definition display_segments :: "16 word list \<Rightarrow> string" where
  "display_segments segs =
     (case zero_span 0 (0, 0) (0, 0) segs of
        (start, len) \<Rightarrow>
          if len > 1 then fmt_subslice (take start segs) @ ''::'' @ fmt_subslice (drop (start + len) segs)
          else fmt_subslice segs)"

fun ip_to_string :: "IpAddr \<Rightarrow> string" where
  "ip_to_string (V4 a b c d) = display_v4 a b c d"
| "ip_to_string (V6 a b c d e f g h) =
     (if list_all (\<lambda>x. x = 0) [a, b, c, d, e] \<and> f = 0xFFFF
      then ''::ffff:'' @ display_v4 (ucast (drop_bit 8 g)) (ucast g) (ucast (drop_bit 8 h)) (ucast h)
      else display_segments [a, b, c, d, e, f, g, h])"

text \<open>Socket addresses carry no scope here; the library prints a scope other than zero after a percent sign.\<close>

definition socket_to_string :: "SocketAddr \<Rightarrow> string" where
  "socket_to_string a =
     (case ip a of
        V4 _ _ _ _ \<Rightarrow> ip_to_string (ip a) @ '':'' @ show_nat (unat (sock_port a))
      | V6 _ _ _ _ _ _ _ _ \<Rightarrow> ''['' @ ip_to_string (ip a) @ '']:'' @ show_nat (unat (sock_port a)))"

subsection \<open>The text of an address determines it\<close>

lemma separators: "\<not> is_hex (CHR '':'')" "\<not> is_hex (CHR ''.'')" "\<not> is_digit (CHR '':'')" "\<not> is_digit (CHR ''.'')"
  by (simp_all add: is_hex_def is_digit_def)

lemma hex_no_sep: "CHR '':'' \<notin> set (show_hex n)" "CHR ''.'' \<notin> set (show_hex n)"
  using show_hex_chars separators by blast+

lemma dec_no_sep: "CHR '':'' \<notin> set (show_nat n)" "CHR ''.'' \<notin> set (show_nat n)"
  using show_nat_digits separators by blast+

lemma display_v4_inject: "display_v4 a b c d = display_v4 a' b' c' d' \<longleftrightarrow> a = a' \<and> b = b' \<and> c = c' \<and> d = d'"
proof -
  have split: "split_on (CHR ''.'') (display_v4 a b c d) = map (\<lambda>x. show_nat (unat x)) [a, b, c, d]" for a b c d
    unfolding display_v4_def by (subst split_on_join) (auto simp: dec_no_sep)
  have "map (\<lambda>x. show_nat (unat x)) [a, b, c, d] = map (\<lambda>x. show_nat (unat x)) [a', b', c', d']"
    if "display_v4 a b c d = display_v4 a' b' c' d'"
    using split that by metis
  then show ?thesis by (auto simp: show_word_inject)
qed

lemma join_with_set: "set (join_with sep fs) \<subseteq> set sep \<union> \<Union> (set (map set fs))"
  by (induction sep fs rule: join_with.induct) auto

lemma display_v4_chars: "CHR ''.'' \<in> set (display_v4 a b c d)" "CHR '':'' \<notin> set (display_v4 a b c d)"
proof -
  show "CHR ''.'' \<in> set (display_v4 a b c d)" by (simp add: display_v4_def)
  show "CHR '':'' \<notin> set (display_v4 a b c d)"
    using join_with_set [of "''.''" "map (\<lambda>x. show_nat (unat x)) [a, b, c, d]"] dec_no_sep(1) by (auto simp: display_v4_def)
qed

lemma split_subslice: "split_on (CHR '':'') (fmt_subslice chunk) = (if chunk = [] then [[]] else map (\<lambda>s. show_hex (unat s)) chunk)"
  unfolding fmt_subslice_def by (subst split_on_join) (auto simp: hex_no_sep list_all_iff)

lemma subslice_no_dot: "CHR ''.'' \<notin> set (fmt_subslice chunk)"
  using join_with_set [of "'':''" "map (\<lambda>s. show_hex (unat s)) chunk"] hex_no_sep(2) by (auto simp: fmt_subslice_def)

definition zero_run :: "16 word list \<Rightarrow> nat \<times> nat \<Rightarrow> bool" where
  "zero_run segs x \<longleftrightarrow> fst x + snd x \<le> length segs \<and> (\<forall>i. fst x \<le> i \<and> i < fst x + snd x \<longrightarrow> segs ! i = 0)"

lemma zero_span_run:
  assumes "zero_run done longest" "zero_run done current" "snd current = 0 \<or> fst current + snd current = length done"
  shows "zero_run (done @ segs) (zero_span (length done) longest current segs)"
  using assms
proof (induction segs arbitrary: longest current "done")
  case (Cons s segs)
  have keep: "zero_run (done @ [s]) x" if "zero_run done x" for x
    using that by (auto simp: zero_run_def nth_append)
  have empty: "zero_run (done @ [s]) (0, 0)" by (simp add: zero_run_def)
  define current' where "current' = (if snd current = 0 then (length done, 1) else (fst current, snd current + 1))"
  have "zero_run (done @ [s]) current' \<and> fst current' + snd current' = length (done @ [s])" if "s = 0"
    using Cons.prems(2,3) that by (auto simp: current'_def zero_run_def nth_append less_Suc_eq)
  note step = this
  show ?case
  proof (cases "s = 0")
    case True
    then have "zero_run ((done @ [s]) @ segs) (zero_span (length (done @ [s])) (if snd longest < snd current' then current' else longest) current' segs)"
      using step keep [OF Cons.prems(1)] by (intro Cons.IH) auto
    with True show ?thesis by (simp add: current'_def [symmetric] Let_def)
  next
    case False
    then have "zero_run ((done @ [s]) @ segs) (zero_span (length (done @ [s])) longest (0, 0) segs)"
      using empty keep [OF Cons.prems(1)] by (intro Cons.IH) auto
    with False show ?thesis by simp
  qed
qed simp

text \<open>The expansion of a list of fields, which inverts the compressed notation.\<close>

definition expand_fields :: "string list \<Rightarrow> nat list" where
  "expand_fields fs =
     (if [] \<notin> set fs then map hex_value fs
      else let pre = takeWhile (\<lambda>f. f \<noteq> []) fs; post = rev (takeWhile (\<lambda>f. f \<noteq> []) (rev fs)) in
           map hex_value pre @ replicate (8 - length pre - length post) 0 @ map hex_value post)"

lemma expand_display:
  assumes "length segs = 8"
  shows "expand_fields (split_on (CHR '':'') (display_segments segs)) = map unat segs"
proof -
  obtain start len where z: "zero_span 0 (0, 0) (0, 0) segs = (start, len)" by fastforce
  have run: "start + len \<le> 8" "\<And>i. start \<le> i \<Longrightarrow> i < start + len \<Longrightarrow> segs ! i = 0"
    using zero_span_run [of "[]" "(0, 0)" "(0, 0)" segs] assms z by (auto simp: zero_run_def)
  let ?h = "\<lambda>s :: 16 word. show_hex (unat s)"
  show ?thesis
  proof (cases "len > 1")
    case False
    with z assms show ?thesis by (auto simp: display_segments_def split_subslice expand_fields_def comp_def)
  next
    case True
    define pre post where "pre = take start segs" and "post = drop (start + len) segs"
    have segs: "segs = pre @ replicate len 0 @ post"
      using run assms by (auto simp: pre_def post_def intro!: nth_equalityI simp: nth_append)
    define fs where "fs = split_on (CHR '':'') (fmt_subslice pre) @ [[]] @ split_on (CHR '':'') (fmt_subslice post)"
    have split: "split_on (CHR '':'') (display_segments segs) = fs"
      using z True by (simp add: display_segments_def pre_def post_def fs_def split_on_append)
    have tw: "takeWhile (\<lambda>f. f \<noteq> []) (map ?h xs @ [] # ys) = map ?h xs" for xs ys
      by (induction xs) simp_all
    have "takeWhile (\<lambda>f. f \<noteq> []) fs = map ?h pre"
      using tw by (simp add: fs_def split_subslice)
    moreover have "takeWhile (\<lambda>f. f \<noteq> []) (rev fs) = map ?h (rev post)"
      using tw [of "rev post"] by (simp add: fs_def split_subslice rev_map)
    moreover have "[] \<in> set fs" by (simp add: fs_def)
    moreover have "8 - length pre - length post = len" using segs assms by (metis add_diff_cancel_left' diff_diff_left length_append length_replicate add.assoc add.commute)
    ultimately have "expand_fields fs = map unat (pre @ replicate len 0 @ post)"
      by (simp add: expand_fields_def Let_def comp_def rev_map [symmetric])
    with split segs show ?thesis by simp
  qed
qed

lemma display_segments_inject:
  assumes "display_segments xs = display_segments ys" "length xs = 8" "length ys = 8"
  shows "xs = ys"
proof -
  have "map unat xs = map unat ys" using expand_display assms by metis
  then show ?thesis by (simp add: inj_def word_unat_eq_iff map_injective)
qed

lemma display_segments_chars: "CHR ''.'' \<notin> set (display_segments segs)" "length segs = 8 \<Longrightarrow> CHR '':'' \<in> set (display_segments segs)"
proof -
  show "CHR ''.'' \<notin> set (display_segments segs)"
    using subslice_no_dot by (auto simp: display_segments_def split: prod.split)
  show "CHR '':'' \<in> set (display_segments segs)" if "length segs = 8"
  proof -
    have "\<exists>x y zs. segs = x # y # zs" using that by (cases segs; cases "tl segs") auto
    then have "CHR '':'' \<in> set (fmt_subslice segs)" by (auto simp: fmt_subslice_def)
    then show ?thesis by (cases "zero_span 0 (0, 0) (0, 0) segs") (simp add: display_segments_def)
  qed
qed

lemma word16_halves:
  assumes "ucast (drop_bit 8 g) = (ucast (drop_bit 8 g') :: 8 word)" "ucast g = (ucast g' :: 8 word)"
  shows "g = (g' :: 16 word)"
proof (rule bit_word_eqI)
  fix n :: nat
  assume "n < LENGTH(16)"
  then consider "n < 8" | "8 \<le> n" "n - 8 < 8" by fastforce
  then show "bit g n = bit g' n"
  proof cases
    case 1
    then have "bit (ucast x :: 8 word) n = bit x n" for x :: "16 word"
      by (simp add: bit_simps)
    with assms(2) show ?thesis by metis
  next
    case 2
    then have "bit (ucast (drop_bit 8 x) :: 8 word) (n - 8) = bit x n" for x :: "16 word"
      by (simp add: bit_simps)
    with assms(1) show ?thesis by metis
  qed
qed

definition v4_mapped :: "IpAddr \<Rightarrow> bool" where
  "v4_mapped x \<longleftrightarrow> (\<exists>g h. x = V6 0 0 0 0 0 0xFFFF g h)"

lemma ip_to_string_kinds:
  "CHR '':'' \<in> set (ip_to_string x) \<longleftrightarrow> (\<exists>a b c d e f g h. x = V6 a b c d e f g h)"
  "CHR ''.'' \<in> set (ip_to_string x) \<longleftrightarrow> v4_mapped x \<or> (\<exists>a b c d. x = V4 a b c d)"
  by (cases x; auto simp: display_v4_chars display_segments_chars v4_mapped_def)+

lemma ip_to_string_inject: "ip_to_string x = ip_to_string y \<longleftrightarrow> x = y"
proof
  assume eq: "ip_to_string x = ip_to_string y"
  note kinds = ip_to_string_kinds [of x] ip_to_string_kinds [of y]
  consider (v4) a b c d a' b' c' d' where "x = V4 a b c d" "y = V4 a' b' c' d'"
    | (mapped) "v4_mapped x" "v4_mapped y"
    | (v6) "\<not> v4_mapped x" "\<not> v4_mapped y" "\<nexists>a b c d. x = V4 a b c d" "\<nexists>a b c d. y = V4 a b c d"
    using kinds unfolding eq by (cases x; cases y) auto
  then show "x = y"
  proof cases
    case v4
    with eq show ?thesis by (simp add: display_v4_inject)
  next
    case mapped
    then obtain g h g' h' where "x = V6 0 0 0 0 0 0xFFFF g h" "y = V6 0 0 0 0 0 0xFFFF g' h'" by (auto simp: v4_mapped_def)
    with eq show ?thesis by (simp add: display_v4_inject word16_halves)
  next
    case v6
    from v6 eq show ?thesis
      by (cases x; cases y) (auto simp: v4_mapped_def split: if_splits dest!: display_segments_inject)
  qed
qed simp

subsection \<open>Quoted strings\<close>

definition backslash_char :: "char \<Rightarrow> string" where
  "backslash_char c = [CHR 0x5C, c]"

definition code_bits :: "nat \<Rightarrow> char \<Rightarrow> nat" where
  "code_bits m c = of_char c mod m"

definition code_point :: "string \<Rightarrow> nat" where
  "code_point ch =
     (case ch of
        [a] \<Rightarrow> of_char a
      | [a, b] \<Rightarrow> code_bits 32 a * 64 + code_bits 64 b
      | [a, b, c] \<Rightarrow> (code_bits 16 a * 64 + code_bits 64 b) * 64 + code_bits 64 c
      | [a, b, c, d] \<Rightarrow> ((code_bits 8 a * 64 + code_bits 64 b) * 64 + code_bits 64 c) * 64 + code_bits 64 d
      | _ \<Rightarrow> 0)"

definition unicode_escape :: "string \<Rightarrow> string" where
  "unicode_escape ch = backslash_char (CHR ''u'') @ ''{'' @ show_hex (code_point ch) @ ''}''"

text \<open>
  One character, by its bytes. Which characters outside ASCII are written as they are is a
  table of the library, here \<open>printable\<close>; the results below hold for every such table.
\<close>

definition debug_char :: "(string \<Rightarrow> bool) \<Rightarrow> string \<Rightarrow> string" where
  "debug_char printable ch =
     (if ch = [CHR 0x00] then backslash_char (CHR ''0'')
      else if ch = [CHR 0x09] then backslash_char (CHR ''t'')
      else if ch = [CHR 0x0D] then backslash_char (CHR ''r'')
      else if ch = [CHR 0x0A] then backslash_char (CHR ''n'')
      else if ch = [CHR 0x5C] then backslash_char (CHR 0x5C)
      else if ch = [CHR 0x22] then backslash_char (CHR 0x22)
      else if length ch = 1 then (if byte_in 0x20 0x7E (hd ch) then ch else unicode_escape ch)
      else if printable ch then ch else unicode_escape ch)"

function debug_body :: "(string \<Rightarrow> bool) \<Rightarrow> string \<Rightarrow> string" where
  "debug_body printable s =
     (if s = [] then []
      else let n = snd (utf8_item s) in debug_char printable (take n s) @ debug_body printable (drop n s))"
  by pat_completeness auto

termination debug_body
  by (relation "measure (\<lambda>(_, s). length s)") (use utf8_item_pos in \<open>auto simp: diff_less\<close>)

declare debug_body.simps [simp del]

definition str_debug :: "(string \<Rightarrow> bool) \<Rightarrow> string \<Rightarrow> string" where
  "str_debug printable s = CHR 0x22 # debug_body printable s @ [CHR 0x22]"

text \<open>Text without control characters stays on its line.\<close>

definition clean_char :: "char \<Rightarrow> bool" where
  "clean_char c \<longleftrightarrow> 32 \<le> (of_char c :: nat) \<and> (of_char c :: nat) \<noteq> 127"

definition clean :: "string \<Rightarrow> bool" where
  "clean s \<longleftrightarrow> list_all clean_char s"

lemma clean_simps [simp]:
  "clean []" "clean (c # s) \<longleftrightarrow> clean_char c \<and> clean s" "clean (s @ t) \<longleftrightarrow> clean s \<and> clean t"
  by (simp_all add: clean_def)

lemma utf8_item_high:
  assumes "\<not> byte_in 0 0x7F b"
  shows "list_all (\<lambda>c. 128 \<le> (of_char c :: nat)) (take (snd (utf8_item (b # bs))) (b # bs))"
proof -
  define high where "high = list_all (\<lambda>c. 128 \<le> (of_char c :: nat))"
  have b: "128 \<le> (of_char b :: nat)" using assms by (simp add: byte_in_def)
  then have one: "high (take 1 (b # bs))" by (simp add: high_def)
  have two: "high (take 2 (b # bs))" if "0 < length bs" "byte_in lo hi (bs ! 0)" "128 \<le> lo" for lo hi
    using that b by (cases bs) (auto simp: high_def byte_in_def Let_def)
  have three: "high (take 3 (b # bs))" if "0 < length bs" "byte_in lo hi (bs ! 0)" "128 \<le> lo"
      "1 < length bs" "byte_in 0x80 0xBF (bs ! 1)" for lo hi
    using that b by (cases bs; cases "tl bs") (auto simp: high_def byte_in_def Let_def)
  have four: "high (take 4 (b # bs))" if "0 < length bs" "byte_in lo hi (bs ! 0)" "128 \<le> lo"
      "1 < length bs" "byte_in 0x80 0xBF (bs ! 1)" "2 < length bs" "byte_in 0x80 0xBF (bs ! 2)" for lo hi
    using that b by (cases bs; cases "tl bs"; cases "tl (tl bs)") (auto simp: high_def byte_in_def Let_def)
  have if_high: "high (take (snd (if P then x else y)) (b # bs))"
    if "P \<Longrightarrow> high (take (snd x) (b # bs))" "high (take (snd y) (b # bs))" for P and x y :: "bool \<times> nat"
    using that by simp
  let ?cont = "\<lambda>i lo hi. i < length bs \<and> byte_in lo hi (bs ! i)"
  have one': "high (take (snd (False, 1)) (b # bs))" using one by simp
  have two': "high (take (snd (if ?cont 0 0x80 0xBF then (True, 2) else (False, 1))) (b # bs))"
    using one two [of 128 191] by simp
  have three': "high (take (snd (if \<not> ?cont 0 lo hi then (False, 1) else if ?cont 1 0x80 0xBF then (True, 3) else (False, 2))) (b # bs))"
    if "128 \<le> lo" for lo hi
    using one two [of lo hi] three [of lo hi] that by simp
  have four': "high (take (snd (if \<not> ?cont 0 lo hi then (False, 1) else if \<not> ?cont 1 0x80 0xBF then (False, 2)
      else if ?cont 2 0x80 0xBF then (True, 4) else (False, 3))) (b # bs))" if "128 \<le> lo" for lo hi
    using one two [of lo hi] three [of lo hi] four [of lo hi] that by simp
  show ?thesis
    unfolding high_def [symmetric] utf8_item.simps Let_def
    by (rule if_high, use assms in simp, rule if_high, rule two', (rule if_high, rule three', simp)+,
        (rule if_high, rule four', simp)+, rule one')
qed

lemma clean_hex [simp]: "clean (show_hex n)"
  using show_hex_chars by (fastforce simp: clean_def clean_char_def list_all_iff is_hex_def is_digit_def)

lemma clean_dec [simp]: "clean (show_nat n)"
  using show_nat_digits by (fastforce simp: clean_def clean_char_def list_all_iff is_digit_def)

lemma clean_char_byte: "byte_in 0x20 0x7E c \<Longrightarrow> clean_char c"
  by (auto simp: byte_in_def clean_char_def Let_def)

lemma clean_char_literals [simp]:
  "clean_char (CHR 0x5C)" "clean_char (CHR 0x22)" "clean_char (CHR ''u'')" "clean_char (CHR ''{'')" "clean_char (CHR ''}'')"
  "clean_char (CHR ''0'')" "clean_char (CHR ''t'')" "clean_char (CHR ''r'')" "clean_char (CHR ''n'')"
  by (simp_all add: clean_char_def)

lemma clean_debug_char:
  assumes "length ch \<noteq> 1 \<Longrightarrow> list_all (\<lambda>c. 128 \<le> (of_char c :: nat)) ch"
  shows "clean (debug_char printable ch)"
proof -
  have "clean ch" if "length ch \<noteq> 1"
    using assms [OF that] by (auto simp: clean_def clean_char_def list_all_iff)
  moreover have "clean ch" if "length ch = 1" "byte_in 0x20 0x7E (hd ch)"
    using that clean_char_byte by (cases ch) auto
  moreover have "clean (unicode_escape ch)" by (simp add: unicode_escape_def backslash_char_def)
  ultimately show ?thesis by (simp add: debug_char_def backslash_char_def)
qed

lemma utf8_item_ascii: "byte_in 0 0x7F b \<Longrightarrow> utf8_item (b # bs) = (True, 1)"
  by (simp add: Let_def)

lemma clean_debug_body: "clean (debug_body printable s)"
proof (induction printable s rule: debug_body.induct)
  case (1 printable s)
  show ?case
  proof (cases s)
    case (Cons b bs)
    have "clean (debug_char printable (take (snd (utf8_item s)) s))"
    proof (cases "byte_in 0 0x7F b")
      case True
      then show ?thesis by (intro clean_debug_char) (simp add: Cons utf8_item_ascii del: utf8_item.simps)
    next
      case False
      from utf8_item_high [OF this, of bs] show ?thesis by (intro clean_debug_char) (simp add: Cons del: utf8_item.simps)
    qed
    moreover have "clean (debug_body printable (drop (snd (utf8_item s)) s))" using 1 [OF _ refl] Cons by blast
    ultimately show ?thesis by (subst debug_body.simps) (simp add: Let_def del: utf8_item.simps)
  qed (simp add: debug_body.simps)
qed

lemma clean_str_debug [simp]: "clean (str_debug printable s)"
  using clean_debug_body by (simp add: str_debug_def)

lemma clean_join: "clean sep \<Longrightarrow> list_all clean fs \<Longrightarrow> clean (join_with sep fs)"
  by (induction sep fs rule: join_with.induct) simp_all

lemma clean_ip [simp]: "clean (ip_to_string a)"
proof -
  have "clean_char (CHR ''.'')" "clean_char (CHR '':'')" "clean_char (CHR ''f'')" by (simp_all add: clean_char_def)
  then have "clean (display_v4 a b c d)" "clean (fmt_subslice segs)" "clean ''::''" "clean ''::ffff:''" for a b c d segs
    by (auto simp: display_v4_def fmt_subslice_def list_all_iff intro!: clean_join)
  then show ?thesis by (cases a) (simp_all add: display_segments_def split: prod.split)
qed

lemma clean_socket [simp]: "clean (socket_to_string a)"
proof -
  have "clean_char (CHR ''['')" "clean_char (CHR '']'')" "clean_char (CHR '':'')" by (simp_all add: clean_char_def)
  then show ?thesis using clean_ip [of "ip a"] by (cases "ip a") (simp_all add: socket_to_string_def del: ip_to_string.simps)
qed

end
