(* ===== verification/Metrics_Snapshot.thy ===== *)
theory Metrics_Snapshot
  imports Metrics Rust_Fmt "HOL-Library.List_Lexorder" "HOL-Library.Char_ord"
begin

text \<open>
  The snapshot of the counters (\<open>Metrics::snapshot\<close> in \<open>src/src/metrics.rs\<close>), with its tables as
  ordered maps from text. An ordered map (\<open>BTreeMap\<close>) is a list of entries with strictly
  increasing keys; \<open>collect\<close> inserts the entries one after the other, so that equal keys would
  be merged. The iteration order of the hash maps is a parameter.
\<close>

subsection \<open>Ordered maps\<close>

fun bt_insert :: "'k::linorder \<Rightarrow> 'v \<Rightarrow> ('k \<times> 'v) list \<Rightarrow> ('k \<times> 'v) list" where
  "bt_insert k v [] = [(k, v)]"
| "bt_insert k v ((k', v') # m) =
     (if k < k' then (k, v) # (k', v') # m
      else if k = k' then (k, v) # m
      else (k', v') # bt_insert k v m)"

definition bt_collect :: "('k::linorder \<times> 'v) list \<Rightarrow> ('k \<times> 'v) list" where
  "bt_collect kvs = foldl (\<lambda>m (k, v). bt_insert k v m) [] kvs"

definition bt_wf :: "('k::linorder \<times> 'v) list \<Rightarrow> bool" where
  "bt_wf m \<longleftrightarrow> sorted_wrt (<) (map fst m)"

record MetricsSnapshot =
  snap_current_unauthenticated_connections :: "64 word"
  snap_rejected_connections_by_reason :: "(string \<times> 64 word) list"
  snap_auth_failures_by_ip :: "(string \<times> 64 word) list"
  snap_auth_failure_ip_overflow :: "64 word"
  snap_temporary_bans_issued :: "64 word"
  snap_preauth_timeouts :: "64 word"
  snap_malformed_packet_disconnects :: "64 word"
  snap_authorized_keys_reload_successes :: "64 word"
  snap_authorized_keys_reload_failures :: "64 word"

definition snapshot ::
    "((string, 64 word) hmap \<Rightarrow> (string \<times> 64 word) list) \<Rightarrow> ((IpAddr, 64 word) hmap \<Rightarrow> (IpAddr \<times> 64 word) list)
       \<Rightarrow> MetricsState \<Rightarrow> MetricsSnapshot" where
  "snapshot iter_reasons iter_ips m =
     \<lparr>snap_current_unauthenticated_connections = current_unauthenticated_connections m,
      snap_rejected_connections_by_reason =
        bt_collect (map (\<lambda>(reason, n). (reason, n)) (iter_reasons (rejected_connections_by_reason m))),
      snap_auth_failures_by_ip = bt_collect (map (\<lambda>(addr_ip, n). (ip_to_string addr_ip, n)) (iter_ips (auth_failures_by_ip m))),
      snap_auth_failure_ip_overflow = auth_failure_ip_overflow m,
      snap_temporary_bans_issued = temporary_bans_issued m,
      snap_preauth_timeouts = preauth_timeouts m,
      snap_malformed_packet_disconnects = malformed_packet_disconnects m,
      snap_authorized_keys_reload_successes = authorized_keys_reload_successes m,
      snap_authorized_keys_reload_failures = authorized_keys_reload_failures m\<rparr>"

text \<open>An iteration yields every entry once, in some order.\<close>

definition iterates :: "(('k, 'v) hmap \<Rightarrow> ('k \<times> 'v) list) \<Rightarrow> bool" where
  "iterates f \<longleftrightarrow> (\<forall>m. mset (f m) = mset m)"

subsection \<open>Collecting\<close>

lemma bt_insert_keys: "fst ` set (bt_insert k v m) = insert k (fst ` set m)"
  by (induction k v m rule: bt_insert.induct) auto

lemma bt_insert_wf: "bt_wf m \<Longrightarrow> bt_wf (bt_insert k v m)"
  by (induction k v m rule: bt_insert.induct)
    (auto simp: bt_wf_def bt_insert_keys)

lemma bt_insert_lookup: "bt_wf m \<Longrightarrow> map_of (bt_insert k v m) = (map_of m)(k \<mapsto> v)"
  by (induction k v m rule: bt_insert.induct) (auto simp: bt_wf_def fun_eq_iff map_of_eq_None_iff)

lemma bt_insert_fresh: "k \<notin> fst ` set m \<Longrightarrow> mset (bt_insert k v m) = add_mset (k, v) (mset m)"
  by (induction k v m rule: bt_insert.induct) auto

lemma bt_collect_distinct:
  assumes "distinct (map fst kvs)"
  shows "bt_wf (bt_collect kvs) \<and> mset (bt_collect kvs) = mset kvs"
  using assms
proof (induction kvs rule: rev_induct)
  case (snoc kv kvs)
  then have ih: "bt_wf (bt_collect kvs)" "mset (bt_collect kvs) = mset kvs" by auto
  have "fst kv \<notin> fst ` set (bt_collect kvs)" using snoc.prems mset_eq_setD [OF ih(2)] by auto
  with ih show ?case by (cases kv) (simp add: bt_collect_def bt_insert_wf bt_insert_fresh)
qed (simp add: bt_collect_def bt_wf_def)

lemma bt_wf_distinct: "bt_wf m \<Longrightarrow> distinct (map fst m)"
  by (simp add: bt_wf_def strict_sorted_iff)

lemma map_of_mset:
  assumes "mset xs = mset ys" "distinct (map fst xs)"
  shows "map_of xs = map_of ys"
proof -
  have "distinct (map fst ys)" using assms by (metis mset_map mset_eq_imp_distinct_iff)
  then show ?thesis using assms mset_eq_setD [OF assms(1)] by (metis map_of_inject_set)
qed

text \<open>Rendering the keys keeps the entries apart when it is injective.\<close>

lemma collect_rendered:
  assumes "inj f" "hm_wf m" "mset kvs = mset m"
  shows "bt_wf (bt_collect (map (\<lambda>(k, v). (f k, v)) kvs))"
    "map_of (bt_collect (map (\<lambda>(k, v). (f k, v)) kvs)) (f a) = hm_get m a"
    "mset (map snd (bt_collect (map (\<lambda>(k, v). (f k, v)) kvs))) = mset (map snd m)"
proof -
  let ?r = "map (\<lambda>(k, v). (f k, v)) kvs"
  have d: "distinct (map fst kvs)" using assms(2,3) by (metis hm_wf_def mset_map mset_eq_imp_distinct_iff)
  have fst: "map fst ?r = map f (map fst kvs)" by (induction kvs) auto
  have dr: "distinct (map fst ?r)" unfolding fst using d assms(1) by (simp only: distinct_map) (blast intro: inj_on_subset)
  note c = bt_collect_distinct [OF dr]
  show "bt_wf (bt_collect ?r)" using c by simp
  have "map_of (bt_collect ?r) = map_of ?r"
    using map_of_mset [OF conjunct2 [OF c] bt_wf_distinct [OF conjunct1 [OF c]]] .
  moreover have "map_of ?r (f a) = map_of kvs a" using assms(1) by (induction kvs) (auto simp: inj_eq)
  moreover have "map_of kvs = map_of m" by (rule map_of_mset [OF assms(3) d])
  ultimately show "map_of (bt_collect ?r) (f a) = hm_get m a" by simp
  have "mset (map snd (bt_collect ?r)) = image_mset snd (mset ?r)" using c by (metis mset_map)
  also have "\<dots> = image_mset snd (mset kvs)" by (simp add: case_prod_unfold comp_def flip: mset_map)
  finally show "mset (map snd (bt_collect ?r)) = mset (map snd m)" by (simp add: assms(3))
qed

subsection \<open>Counters\<close>

definition count_events :: "(metrics_event \<Rightarrow> bool) \<Rightarrow> metrics_event list \<Rightarrow> 64 word" where
  "count_events P es = of_nat (length (filter P es))"

lemma count_events_snoc: "count_events P (es @ [e]) = count_events P es + (if P e then 1 else 0)"
  by (simp add: count_events_def)

definition counters_inv :: "metrics_event list \<Rightarrow> MetricsState \<Rightarrow> bool" where
  "counters_inv es m \<longleftrightarrow>
     hm_wf (rejected_connections_by_reason m) \<and>
     (\<forall>r. hm_get (rejected_connections_by_reason m) r =
        (if Rejected r \<in> set es then Some (count_events (\<lambda>e. e = Rejected r) es) else None)) \<and>
     preauth_timeouts m = count_events (\<lambda>e. e = PreauthTimeout) es \<and>
     malformed_packet_disconnects m = count_events (\<lambda>e. e = Malformed) es \<and>
     authorized_keys_reload_successes m = count_events (\<lambda>e. e = ReloadOk) es \<and>
     authorized_keys_reload_failures m = count_events (\<lambda>e. e = ReloadFailed) es"

lemma count_events_none: "Rejected r \<notin> set es \<Longrightarrow> count_events (\<lambda>e. e = Rejected r) es = 0"
  by (induction es) (auto simp: count_events_def)

lemma counters_step: "counters_inv es m \<Longrightarrow> counters_inv (es @ [e]) (metrics_apply e m)"
  by (cases e)
    (auto simp: counters_inv_def count_events_snoc count_events_none hm.wf_put preauth_connection_opened_def
      preauth_connection_closed_def record_rejected_connection_def record_preauth_timeout_def
      record_malformed_disconnect_def record_cache_reload_success_def record_cache_reload_failure_def
      metrics_auth_failure_def count_failure_ip_def Let_def split: option.splits)

lemma counters_run: "counters_inv es (metrics_run es (metrics_new n))"
proof (induction es rule: rev_induct)
  case Nil
  show ?case by (simp add: counters_inv_def metrics_run_def metrics_new_def count_events_def hm_wf_def)
next
  case (snoc e es)
  from counters_step [OF snoc] show ?case by (simp add: metrics_run_def)
qed

text \<open>
  [C25] A snapshot tells the truth. After any sequence of events, and whatever order the hash
  maps are iterated in, the snapshot lists the rejection reasons and the addresses in
  strictly increasing order of their text, each exactly with its count: a reason with the
  number of its rejections, an address with the counter of the table, no two addresses
  merged under one text. The counts of the addresses and the overflow counter add up to the
  failures with a known address, and every other counter is the number of its events, all
  modulo \<open>2 ^ 64\<close>.
\<close>

theorem snapshot_reports_all_counters:
  assumes "iterates iter_reasons" "iterates iter_ips" "m = metrics_run es (metrics_new n)" "s = snapshot iter_reasons iter_ips m"
  shows "bt_wf (snap_rejected_connections_by_reason s) \<and> bt_wf (snap_auth_failures_by_ip s) \<and>
    (\<forall>r. map_of (snap_rejected_connections_by_reason s) r =
       (if Rejected r \<in> set es then Some (count_events (\<lambda>e. e = Rejected r) es) else None)) \<and>
    (\<forall>a. map_of (snap_auth_failures_by_ip s) (ip_to_string a) = hm_get (auth_failures_by_ip m) a) \<and>
    length (snap_auth_failures_by_ip s) \<le> n \<and>
    sum_list (map snd (snap_auth_failures_by_ip s)) + snap_auth_failure_ip_overflow s = count_events known_ip es \<and>
    snap_temporary_bans_issued s = count_events issued_ban es \<and>
    snap_preauth_timeouts s = count_events (\<lambda>e. e = PreauthTimeout) es \<and>
    snap_malformed_packet_disconnects s = count_events (\<lambda>e. e = Malformed) es \<and>
    snap_authorized_keys_reload_successes s = count_events (\<lambda>e. e = ReloadOk) es \<and>
    snap_authorized_keys_reload_failures s = count_events (\<lambda>e. e = ReloadFailed) es"
proof -
  have c: "counters_inv es m" and i: "metrics_inv n es m" using counters_run metrics_run_inv assms(3) by auto
  have wf: "hm_wf (rejected_connections_by_reason m)" "hm_wf (auth_failures_by_ip m)"
    using c i by (auto simp: counters_inv_def metrics_inv_def)
  have "inj ip_to_string" by (simp add: inj_def ip_to_string_inject)
  note ips = collect_rendered [OF this wf(2), of "iter_ips (auth_failures_by_ip m)"]
  note reasons = collect_rendered [OF inj_on_id wf(1), of "iter_reasons (rejected_connections_by_reason m)"]
  have it: "mset (iter_reasons (rejected_connections_by_reason m)) = mset (rejected_connections_by_reason m)"
    "mset (iter_ips (auth_failures_by_ip m)) = mset (auth_failures_by_ip m)"
    using assms(1,2) by (auto simp: iterates_def)
  have "sum_list (map snd (snap_auth_failures_by_ip s)) = word_total (auth_failures_by_ip m)"
    using ips(3) [OF it(2)] by (simp add: assms(4) snapshot_def word_total_def flip: sum_mset_sum_list)
  moreover have "length (snap_auth_failures_by_ip s) = hm_len (auth_failures_by_ip m)"
    using arg_cong [OF ips(3) [OF it(2)], of size] by (simp add: assms(4) snapshot_def)
  ultimately show ?thesis
    using c i ips(1,2) [OF it(2)] reasons(1,2) [OF it(1)]
    by (simp add: assms(4) snapshot_def counters_inv_def metrics_inv_def count_events_def)
qed

theorem snapshot_reports_all_counters_witness:
  "map_of (snap_auth_failures_by_ip (snapshot rev rev
      (metrics_run [Rejected ''a'', AuthFailed (Some (V4 10 0 0 1)) False, AuthFailed (Some (V4 10 0 0 1)) True] (metrics_new 4))))
     (ip_to_string (V4 10 0 0 1)) = Some 2"
proof -
  let ?es = "[Rejected ''a'', AuthFailed (Some (V4 10 0 0 1)) False, AuthFailed (Some (V4 10 0 0 1)) True]"
  have "iterates rev" "iterates rev" by (simp_all add: iterates_def)
  from snapshot_reports_all_counters [OF this refl refl, of ?es 4]
  have "map_of (snap_auth_failures_by_ip (snapshot rev rev (metrics_run ?es (metrics_new 4)))) (ip_to_string (V4 10 0 0 1)) =
      hm_get (auth_failures_by_ip (metrics_run ?es (metrics_new 4))) (V4 10 0 0 1)"
    by blast
  then show ?thesis
    by (simp add: metrics_run_def metrics_new_def record_rejected_connection_def metrics_auth_failure_def count_failure_ip_def)
qed

end
