(* ===== verification/Log_Limiter.thy ===== *)
theory Log_Limiter
  imports Net Rust_Time
begin

text \<open>
  The log limiter (\<open>src/src/log_limiter.rs\<close>): per key (address and category) at most one
  log line per window, with the number of suppressed lines reported by the next one, in
  a table of bounded size.

  The eviction of the oldest entries walks the hash map in its iteration order, which is
  unspecified: it is the parameter \<open>iter\<close>, of which only \<open>mset (iter xs) = mset xs\<close> is
  ever assumed. \<open>Instant::duration_since\<close> saturates at zero.
\<close>

subsection \<open>State and operations\<close>

record LogKey =
  peer_ip :: "IpAddr option"
  category :: string

datatype LogDecision = Emit nat | Suppress

record LogLimiterConfig =
  window :: duration
  max_entries :: nat

record LogEntry =
  last_emitted_at :: instant
  suppressed :: nat

type_synonym log_entries = "(LogKey, LogEntry) hmap"

record LogLimiterState =
  ll_config :: LogLimiterConfig
  entries :: log_entries
  last_cleanup :: instant

definition usize_limit :: nat where
  "usize_limit = 2 ^ 64 - 1"

definition limiter_new :: "duration \<Rightarrow> nat \<Rightarrow> instant \<Rightarrow> LogLimiterState" where
  "limiter_new w n now =
     \<lparr>ll_config = \<lparr>window = w, max_entries = n\<rparr>, entries = [], last_cleanup = now\<rparr>"

definition evict_oldest :: "(log_entries \<Rightarrow> log_entries) \<Rightarrow> nat \<Rightarrow> log_entries \<Rightarrow> log_entries" where
  "evict_oldest iter n m =
     (let order = sort_key snd (map (\<lambda>(k, e). (k, last_emitted_at e)) (iter m));
          to_remove = hm_len m - n
      in foldl (\<lambda>m' (k, _). hm_remove k m') m (take to_remove order))"

definition maybe_cleanup :: "(log_entries \<Rightarrow> log_entries) \<Rightarrow> instant \<Rightarrow> LogLimiterState \<Rightarrow> LogLimiterState" where
  "maybe_cleanup iter now s =
     (let w = window (ll_config s); n = max_entries (ll_config s) in
      if hm_len (entries s) \<le> n \<and> saturating_duration_since now (last_cleanup s) < w then s
      else
        let retention = duration_saturating_mul w 2;
            kept = filter (\<lambda>(k, e). saturating_duration_since now (last_emitted_at e) \<le> retention) (entries s);
            s1 = s\<lparr>entries := kept, last_cleanup := now\<rparr>
        in if hm_len kept \<le> n then s1
           else s1\<lparr>entries := evict_oldest iter n kept\<rparr>)"

definition check_entry :: "LogKey \<Rightarrow> instant \<Rightarrow> LogLimiterState \<Rightarrow> LogDecision \<times> LogLimiterState" where
  "check_entry key now s =
     (case hm_get (entries s) key of
        Some e \<Rightarrow>
          if window (ll_config s) \<le> saturating_duration_since now (last_emitted_at e)
          then (Emit (suppressed e),
                s\<lparr>entries := hm_insert key (e\<lparr>last_emitted_at := now, suppressed := 0\<rparr>) (entries s)\<rparr>)
          else (Suppress,
                s\<lparr>entries := hm_insert key
                    (e\<lparr>suppressed := saturating_add_max usize_limit (suppressed e) 1\<rparr>) (entries s)\<rparr>)
      | None \<Rightarrow>
          (Emit 0,
           s\<lparr>entries := hm_insert key \<lparr>last_emitted_at = now, suppressed = 0\<rparr> (entries s)\<rparr>))"

definition check ::
    "(log_entries \<Rightarrow> log_entries) \<Rightarrow> LogKey \<Rightarrow> instant \<Rightarrow> LogLimiterState \<Rightarrow> LogDecision \<times> LogLimiterState" where
  "check iter key now s = check_entry key now (maybe_cleanup iter now s)"

type_synonym LogLimiter = "LogLimiterState mutex"

definition check_at ::
    "(log_entries \<Rightarrow> log_entries) \<Rightarrow> LogLimiter \<Rightarrow> LogKey \<Rightarrow> instant \<Rightarrow> LogDecision option \<times> LogLimiter" where
  "check_at iter l key now = with_lock l (\<lambda>s. Some (check iter key now s))"

fun run_checks ::
    "(log_entries \<Rightarrow> log_entries) \<Rightarrow> (LogKey \<times> instant) list \<Rightarrow> LogLimiterState
       \<Rightarrow> LogDecision list \<times> LogLimiterState" where
  "run_checks iter [] s = ([], s)"
| "run_checks iter ((k, t) # kts) s =
     (let (d, s1) = check iter k t s; (ds, s2) = run_checks iter kts s1 in (d # ds, s2))"

subsection \<open>The table is bounded\<close>

lemma foldl_remove:
  assumes "hm_wf m" "distinct (map fst xs)" "set (map fst xs) \<subseteq> set (map fst m)"
  shows "hm_wf (foldl (\<lambda>m' (k, _). hm_remove k m') m xs) \<and>
    hm_len (foldl (\<lambda>m' (k, _). hm_remove k m') m xs) = hm_len m - length xs"
  using assms
proof (induction xs arbitrary: m)
  case (Cons x xs)
  obtain k v where x: "x = (k, v)" by (cases x)
  have k: "hm_get m k \<noteq> None" using Cons.prems x by (auto simp: map_of_eq_None_iff)
  have "hm_wf (hm_remove k m)" "hm_len (hm_remove k m) = hm_len m - 1"
    using k hm.wf_del [OF Cons.prems(1), of k] hm.len_del [OF Cons.prems(1), of k] by auto
  moreover have "set (map fst xs) \<subseteq> set (map fst (hm_remove k m))"
    using Cons.prems x by (force simp: AList.delete_keys)
  ultimately show ?case using Cons x by auto
qed simp

lemma evict_oldest_len:
  assumes "hm_wf m" "mset (iter m) = mset m"
  shows "hm_wf (evict_oldest iter n m)" "hm_len (evict_oldest iter n m) = min n (hm_len m)"
proof -
  let ?order = "sort_key snd (map (\<lambda>(k, e). (k, last_emitted_at e)) (iter m))"
  let ?xs = "take (hm_len m - n) ?order"
  have keys: "mset (map fst ?order) = mset (map fst m)"
    using arg_cong [OF assms(2), of "image_mset fst"] by (simp add: image_mset.compositionality comp_def split_def)
  have dist: "distinct (map fst ?order)"
    using keys assms(1) by (metis hm_wf_def mset_eq_imp_distinct_iff)
  have "set (map fst ?xs) \<subseteq> set (map fst m)"
    using mset_eq_setD [OF keys] by (metis image_mono set_map set_take_subset)
  moreover have "distinct (map fst ?xs)" using distinct_take [OF dist, of "hm_len m - n"] by (simp only: take_map)
  moreover have "length ?order = hm_len m" using mset_eq_length [OF assms(2)] by simp
  ultimately show "hm_wf (evict_oldest iter n m)" "hm_len (evict_oldest iter n m) = min n (hm_len m)"
    using foldl_remove [OF assms(1), of ?xs] by (auto simp: evict_oldest_def Let_def)
qed

lemma hm_wf_filter [simp]: "hm_wf m \<Longrightarrow> hm_wf (filter P m)"
  by (simp add: hm_wf_def distinct_map_filter)

lemma maybe_cleanup_bound:
  assumes "hm_wf (entries s)" "\<And>xs. mset (iter xs) = mset xs" and s': "s' = maybe_cleanup iter now s"
  shows "hm_wf (entries s')" "hm_len (entries s') \<le> max_entries (ll_config s)" "ll_config s' = ll_config s"
  using assms(1,2) evict_oldest_len by (auto simp: s' maybe_cleanup_def Let_def)

definition limiter_inv :: "LogLimiterConfig \<Rightarrow> LogLimiterState \<Rightarrow> bool" where
  "limiter_inv c s \<longleftrightarrow> ll_config s = c \<and> hm_wf (entries s) \<and> hm_len (entries s) \<le> max_entries c + 1"

lemma check_entry_len:
  assumes "hm_wf (entries s)" "check_entry k now s = (d, s')"
  shows "hm_wf (entries s')" "hm_len (entries s') \<le> hm_len (entries s) + 1" "ll_config s' = ll_config s"
  using assms hm.len_put_le [of "entries s" k]
  by (auto simp: check_entry_def split: option.splits if_splits)

lemma check_inv:
  assumes "\<And>xs. mset (iter xs) = mset xs" "limiter_inv c s" "check iter k now s = (d, s')"
  shows "limiter_inv c s'"
  using maybe_cleanup_bound [OF _ _ refl, of s iter now] check_entry_len [of "maybe_cleanup iter now s" k now d s'] assms
  by (auto simp: limiter_inv_def check_def)

lemma run_checks_inv:
  assumes "\<And>xs. mset (iter xs) = mset xs" "limiter_inv c s" "run_checks iter kts s = (ds, s')"
  shows "limiter_inv c s'"
  using assms(2,3)
proof (induction kts arbitrary: s ds)
  case (Cons kt kts)
  obtain k t where "kt = (k, t)" by (cases kt)
  with Cons check_inv [OF assms(1)] show ?case by (fastforce simp: Let_def split: prod.splits)
qed simp

text \<open>
  The table stays small. Whatever keys are checked at whatever times, and whatever
  the iteration order of the hash map, the limiter never holds more than one entry above
  its configured maximum, and that one only until the next check.
\<close>

theorem limiter_table_is_bounded:
  assumes "\<And>xs. mset (iter xs) = mset xs"
    and "run_checks iter kts (limiter_new w n t0) = (ds, s)"
  shows "hm_len (entries s) \<le> n + 1 \<and> hm_len (entries (maybe_cleanup iter now s)) \<le> n"
proof -
  have "limiter_inv \<lparr>window = w, max_entries = n\<rparr> s"
    using run_checks_inv [OF assms(1) _ assms(2)] by (simp add: limiter_inv_def limiter_new_def)
  with maybe_cleanup_bound [OF _ _ refl, of s iter now] assms(1) show ?thesis by (simp add: limiter_inv_def)
qed

theorem limiter_table_is_bounded_witness:
  "hm_len (entries (snd (run_checks rev
     [(\<lparr>peer_ip = None, category = ''a''\<rparr>, 5), (\<lparr>peer_ip = None, category = ''b''\<rparr>, 6)]
     (limiter_new 10 1 0)))) \<le> 2"
proof -
  obtain ds s where run: "run_checks rev
      [(\<lparr>peer_ip = None, category = ''a''\<rparr>, 5), (\<lparr>peer_ip = None, category = ''b''\<rparr>, 6)]
      (limiter_new 10 1 0) = (ds, s)"
    by fastforce
  have "\<And>xs :: log_entries. mset (rev xs) = mset xs" by simp
  from limiter_table_is_bounded [OF this run, of 0] show ?thesis unfolding run by (simp add: numeral_2_eq_2)
qed

subsection \<open>At most one line per window\<close>

text \<open>
  The specification: per key the time of the last emitted line and the lines suppressed
  since. A line is emitted exactly when none was within the window. It reports the
  suppressed lines; only when the last line is older than the retention may the count
  have been forgotten.
\<close>

type_synonym log_spec = "LogKey \<Rightarrow> (instant \<times> nat) option"

fun decisions_ok :: "duration \<Rightarrow> log_spec \<Rightarrow> (LogKey \<times> instant) list \<Rightarrow> LogDecision list \<Rightarrow> bool" where
  "decisions_ok w st [] ds = (ds = [])"
| "decisions_ok w st ((k, t) # kts) [] = False"
| "decisions_ok w st ((k, t) # kts) (d # ds) =
     (case st k of
        None \<Rightarrow> d = Emit 0 \<and> decisions_ok w (st(k \<mapsto> (t, 0))) kts ds
      | Some (l, n) \<Rightarrow>
          if t - l < int w
          then d = Suppress \<and> decisions_ok w (st(k \<mapsto> (l, saturating_add_max usize_limit n 1))) kts ds
          else (d = Emit n \<or> (d = Emit 0 \<and> int (duration_saturating_mul w 2) < t - l)) \<and>
               decisions_ok w (st(k \<mapsto> (t, 0))) kts ds)"

definition entry_sim :: "duration \<Rightarrow> instant \<Rightarrow> (instant \<times> nat) option \<Rightarrow> LogEntry option \<Rightarrow> bool" where
  "entry_sim w t sp e \<longleftrightarrow>
     (case sp of
        None \<Rightarrow> e = None
      | Some (l, n) \<Rightarrow>
          l \<le> t \<and>
          (e = Some \<lparr>last_emitted_at = l, suppressed = n\<rparr> \<or>
           (e = None \<and> int (duration_saturating_mul w 2) < t - l)))"

definition limiter_sim :: "duration \<Rightarrow> instant \<Rightarrow> log_spec \<Rightarrow> LogLimiterState \<Rightarrow> bool" where
  "limiter_sim w t st s \<longleftrightarrow>
     window (ll_config s) = w \<and> hm_wf (entries s) \<and> (\<forall>k. entry_sim w t (st k) (hm_get (entries s) k))"

lemma hm_get_filter:
  "hm_wf m \<Longrightarrow> hm_get (filter (\<lambda>(k, v). P v) m) k =
     (case hm_get m k of None \<Rightarrow> None | Some v \<Rightarrow> if P v then Some v else None)"
  unfolding hm_wf_def
proof (induction m)
  case (Cons a m)
  obtain k' v where a: "a = (k', v)" by (cases a)
  have "k' \<notin> fst ` set m" using Cons.prems a by simp
  then have "hm_get m k' = None" "hm_get (filter (\<lambda>(k, v). P v) m) k' = None"
    by (auto simp: map_of_eq_None_iff)
  with Cons a show ?case by auto
qed simp

lemma limiter_sim_len:
  assumes "limiter_sim w t st s" "finite K" "dom st \<subseteq> K"
  shows "hm_len (entries s) \<le> card K"
proof -
  have "set (map fst (entries s)) \<subseteq> dom st"
  proof
    fix k
    assume "k \<in> set (map fst (entries s))"
    then have "hm_get (entries s) k \<noteq> None" by (simp add: map_of_eq_None_iff)
    moreover have "entry_sim w t (st k) (hm_get (entries s) k)" using assms(1) by (simp add: limiter_sim_def)
    ultimately have "st k \<noteq> None" by (cases "st k") (simp_all add: entry_sim_def)
    then show "k \<in> dom st" by (rule domIff [THEN iffD2])
  qed
  with assms(2,3) have "card (set (map fst (entries s))) \<le> card K" by (meson card_mono order_trans)
  moreover have "card (set (map fst (entries s))) = hm_len (entries s)"
    using assms(1) by (metis distinct_card hm_wf_def length_map limiter_sim_def)
  ultimately show ?thesis by simp
qed

lemma maybe_cleanup_sim:
  assumes sim: "limiter_sim w t st s" and "t \<le> now" and "hm_len (entries s) \<le> max_entries (ll_config s)"
  shows "limiter_sim w now st (maybe_cleanup iter now s)"
    and "max_entries (ll_config (maybe_cleanup iter now s)) = max_entries (ll_config s)"
proof -
  let ?ret = "duration_saturating_mul w 2"
  let ?kept = "filter (\<lambda>(k, e). saturating_duration_since now (last_emitted_at e) \<le> ?ret) (entries s)"
  have wf: "hm_wf (entries s)" and w: "window (ll_config s) = w" using sim by (simp_all add: limiter_sim_def)
  have len: "hm_len ?kept \<le> max_entries (ll_config s)"
    using assms(3) length_filter_le [of _ "entries s"] by (meson order_trans)
  have later: "entry_sim w now (st k) (hm_get (entries s) k)"
    and kept: "entry_sim w now (st k) (hm_get ?kept k)" for k
  proof -
    have *: "entry_sim w t (st k) (hm_get (entries s) k)" using sim by (simp add: limiter_sim_def)
    then show "entry_sim w now (st k) (hm_get (entries s) k)"
      using assms(2) by (auto simp: entry_sim_def split: option.splits)
    then show "entry_sim w now (st k) (hm_get ?kept k)"
      using hm_get_filter [OF wf, of "\<lambda>e. saturating_duration_since now (last_emitted_at e) \<le> ?ret" k]
      by (auto simp: entry_sim_def saturating_duration_since_def split: option.splits)
  qed
  show "limiter_sim w now st (maybe_cleanup iter now s)"
    "max_entries (ll_config (maybe_cleanup iter now s)) = max_entries (ll_config s)"
    using later kept len wf w by (auto simp: maybe_cleanup_def Let_def limiter_sim_def)
qed

lemma check_entry_sim:
  assumes sim: "limiter_sim w now st s" and w: "w \<le> duration_max"
    and chk: "check_entry k now s = (d, s')"
    and rest: "\<And>st'. limiter_sim w now st' s' \<Longrightarrow> dom st' = insert k (dom st) \<Longrightarrow> decisions_ok w st' kts ds"
  shows "decisions_ok w st ((k, now) # kts) (d # ds)"
proof -
  have e: "entry_sim w now (st k) (hm_get (entries s) k)" and others: "\<And>j. entry_sim w now (st j) (hm_get (entries s) j)"
    and wf: "hm_wf (entries s)" and cw: "window (ll_config s) = w"
    using sim by (simp_all add: limiter_sim_def)
  have ret: "int w \<le> int (duration_saturating_mul w 2)"
    using w by (simp add: duration_saturating_mul_def)
  show ?thesis
  proof (cases "st k")
    case None
    with e chk have "d = Emit 0" "s' = s\<lparr>entries := hm_insert k \<lparr>last_emitted_at = now, suppressed = 0\<rparr> (entries s)\<rparr>"
      by (auto simp: entry_sim_def check_entry_def)
    with None rest [of "st(k \<mapsto> (now, 0))"] wf cw others show ?thesis
      by (auto simp: limiter_sim_def entry_sim_def [of w now "Some _"])
  next
    case (Some ln)
    obtain l n where ln: "ln = (l, n)" by (cases ln)
    show ?thesis
    proof (cases "now - l < int w")
      case True
      with e Some ln chk cw ret have "d = Suppress"
        "s' = s\<lparr>entries := hm_insert k \<lparr>last_emitted_at = l, suppressed = saturating_add_max usize_limit n 1\<rparr> (entries s)\<rparr>"
        by (auto simp: entry_sim_def check_entry_def saturating_duration_since_def split: if_splits)
      with Some ln True rest [of "st(k \<mapsto> (l, saturating_add_max usize_limit n 1))"] wf cw others e show ?thesis
        by (auto simp: limiter_sim_def entry_sim_def [of w now "Some _"] entry_sim_def [of w now "st k"])
    next
      case False
      with e Some ln chk cw have "d = Emit n \<or> (d = Emit 0 \<and> int (duration_saturating_mul w 2) < now - l)"
        "s' = s\<lparr>entries := hm_insert k \<lparr>last_emitted_at = now, suppressed = 0\<rparr> (entries s)\<rparr>"
        by (auto simp: entry_sim_def check_entry_def saturating_duration_since_def split: if_splits)
      with Some ln False rest [of "st(k \<mapsto> (now, 0))"] wf cw others show ?thesis
        by (auto simp: limiter_sim_def entry_sim_def [of w now "Some _"])
    qed
  qed
qed

lemma run_checks_sim:
  assumes "limiter_sim w t st s" "w \<le> duration_max" "finite K" "dom st \<union> fst ` set kts \<subseteq> K"
    "card K \<le> max_entries (ll_config s)" "sorted (t # map snd kts)"
  shows "decisions_ok w st kts (fst (run_checks iter kts s))"
  using assms
proof (induction kts arbitrary: t st s)
  case (Cons kt kts)
  obtain k now where kt: "kt = (k, now)" by (cases kt)
  let ?s1 = "maybe_cleanup iter now s"
  obtain d s2 where chk: "check_entry k now ?s1 = (d, s2)" by fastforce
  have "hm_len (entries s) \<le> max_entries (ll_config s)"
    using limiter_sim_len [OF Cons.prems(1,3)] Cons.prems(4,5) by (meson le_sup_iff order_trans)
  then have sim: "limiter_sim w now st ?s1" and max: "max_entries (ll_config ?s1) = max_entries (ll_config s)"
    using maybe_cleanup_sim [OF Cons.prems(1), of now iter] Cons.prems(6) kt by auto
  have wf: "hm_wf (entries ?s1)" using sim by (simp add: limiter_sim_def)
  have "decisions_ok w st ((k, now) # kts) (d # fst (run_checks iter kts s2))"
  proof (rule check_entry_sim [OF sim Cons.prems(2) chk])
    fix st'
    assume "limiter_sim w now st' s2" "dom st' = insert k (dom st)"
    with Cons kt max check_entry_len(3) [OF wf chk] show "decisions_ok w st' kts (fst (run_checks iter kts s2))"
      by auto
  qed
  with chk kt show ?case by (simp add: check_def split_def Let_def)
qed simp



end
