(* ===== verification/Rust_Io.thy ===== *)
theory Rust_Io
  imports Prelude
begin

text \<open>
  Errors of \<open>std::io\<close>: the kinds the daemon distinguishes, everything else being \<open>OtherIo\<close>,
  and an error with its message. Operations of the operating system are functions on a
  world: they return a result and the world after them.
\<close>

datatype IoErrorKind =
    NotFound
  | PermissionDenied
  | AlreadyExists
  | UnexpectedEof
  | Interrupted
  | WouldBlock
  | BrokenPipe
  | InvalidData
  | TimedOut
  | OtherIo

record IoError =
  io_kind :: IoErrorKind
  io_message :: string

type_synonym ('w, 'a) os_call = "'w \<Rightarrow> (IoError, 'a) result \<times> 'w"

end
