(* ===== verification/Authorized_Keys.thy ===== *)
theory Authorized_Keys
  imports Rust_Text Rust_Time Rust_Io
begin

text \<open>
  The authorized keys cache (\<open>src/src/authorized_keys.rs\<close>): reading the file with its size
  and entry limits, the set of accepted keys, and the debounced reload that keeps the
  last good set.

  The crate \<open>ssh_key\<close> is a parameter: \<open>parse\<close> is its iterator over the entries of a text,
  \<open>to_bytes\<close> its serialisation of a public key. What the file system answers during one
  refresh is a value of \<open>FsView\<close>: the result of \<open>metadata(path)\<close>, then of opening the
  file, of its metadata and of reading it; successive refreshes see unrelated views.
  Refreshing panics (outer \<open>None\<close>) when the next check time exceeds the largest \<open>Instant\<close>.
\<close>

subsection \<open>Entries and the cache\<close>

record 'k KeyEntry =
  config_opts :: string
  public_key :: 'k

type_synonym 'k entry_parser = "string \<Rightarrow> (string, 'k KeyEntry) result list"
type_synonym 'k serializer = "'k \<Rightarrow> (string, string) result"

datatype KeysError =
    OpenFailed
  | StatFailed
  | FileReadFailed
  | SizeLimit nat
  | EntryLimit nat
  | EntryParse string
  | Serialize string
  | DuplicateKey
  | PathStatFailed

record AuthorizedKeysCache =
  accepted_keys :: "string set"
  cache_ignored :: nat

definition cache_empty :: AuthorizedKeysCache where
  "cache_empty = \<lparr>accepted_keys = {}, cache_ignored = 0\<rparr>"

definition cache_contains :: "'k serializer \<Rightarrow> AuthorizedKeysCache \<Rightarrow> 'k \<Rightarrow> (KeysError, bool) result" where
  "cache_contains to_bytes c key =
     (case to_bytes key of Inl e \<Rightarrow> Inl (Serialize e) | Inr b \<Rightarrow> Inr (b \<in> accepted_keys c))"

fun collect_entries ::
    "'k serializer \<Rightarrow> nat \<Rightarrow> nat \<Rightarrow> (string, 'k KeyEntry) result list \<Rightarrow> AuthorizedKeysCache
       \<Rightarrow> (KeysError, AuthorizedKeysCache) result" where
  "collect_entries to_bytes max_entries index [] c = Inr c"
| "collect_entries to_bytes max_entries index (r # rest) c =
     (if max_entries \<le> index then Inl (EntryLimit max_entries)
      else case r of
          Inl err \<Rightarrow> Inl (EntryParse err)
        | Inr entry \<Rightarrow>
            if config_opts entry \<noteq> []
            then collect_entries to_bytes max_entries (index + 1) rest (c\<lparr>cache_ignored := cache_ignored c + 1\<rparr>)
            else (case to_bytes (public_key entry) of
                Inl err \<Rightarrow> Inl (Serialize err)
              | Inr b \<Rightarrow>
                  if b \<in> accepted_keys c then Inl DuplicateKey
                  else collect_entries to_bytes max_entries (index + 1) rest
                    (c\<lparr>accepted_keys := insert b (accepted_keys c)\<rparr>)))"

definition from_text ::
    "'k entry_parser \<Rightarrow> 'k serializer \<Rightarrow> string \<Rightarrow> nat \<Rightarrow> (KeysError, AuthorizedKeysCache) result" where
  "from_text parse to_bytes text max_entries = collect_entries to_bytes max_entries 0 (parse text) cache_empty"

subsection \<open>Files and fingerprints\<close>

record Metadata =
  md_modified :: "nat option"
  md_len :: nat

record FsView =
  path_metadata :: "(IoErrorKind, Metadata) result"
  opened :: "(IoErrorKind, unit) result"
  handle_metadata :: "(IoErrorKind, Metadata) result"
  contents :: "(IoErrorKind, string) result"

record AuthorizedKeysFingerprint =
  fp_modified :: "nat option"
  fp_len :: "nat option"
  fp_missing :: bool

definition FP_MISSING :: AuthorizedKeysFingerprint where
  "FP_MISSING = \<lparr>fp_modified = None, fp_len = None, fp_missing = True\<rparr>"

definition from_metadata :: "Metadata \<Rightarrow> AuthorizedKeysFingerprint" where
  "from_metadata m = \<lparr>fp_modified = md_modified m, fp_len = Some (md_len m), fp_missing = False\<rparr>"

definition from_path :: "FsView \<Rightarrow> (KeysError, AuthorizedKeysFingerprint) result" where
  "from_path v =
     (case path_metadata v of
        Inr m \<Rightarrow> Inr (from_metadata m)
      | Inl NotFound \<Rightarrow> Inr FP_MISSING
      | Inl _ \<Rightarrow> Inl PathStatFailed)"

definition cache_load ::
    "'k entry_parser \<Rightarrow> 'k serializer \<Rightarrow> FsView \<Rightarrow> nat \<Rightarrow> nat
       \<Rightarrow> (KeysError, AuthorizedKeysCache \<times> AuthorizedKeysFingerprint) result" where
  "cache_load parse to_bytes v max_size max_entries =
     res_bind (with_context OpenFailed (opened v)) (\<lambda>_.
     res_bind (with_context StatFailed (handle_metadata v)) (\<lambda>metadata.
     if max_size < md_len metadata then Inl (SizeLimit max_size)
     else
       res_bind (with_context FileReadFailed (contents v)) (\<lambda>body.
       res_bind (from_text parse to_bytes body max_entries) (\<lambda>cache.
       Inr (cache, from_metadata metadata)))))"

subsection \<open>The reloading state\<close>

datatype AuthorizedKeysReloadStatus = StatusLoaded | StatusMissing | StatusFailed KeysError

datatype AuthorizedKeysReloadEvent = EventLoaded nat nat | EventMissing | EventFailed KeysError

record AuthorizedKeysState =
  max_size :: nat
  keys_max_entries :: nat
  reload_interval :: duration
  keys_cache :: AuthorizedKeysCache
  generation :: nat
  observed_fingerprint :: AuthorizedKeysFingerprint
  last_failed_reload_fingerprint :: "AuthorizedKeysFingerprint option"
  last_reload_status :: AuthorizedKeysReloadStatus
  next_reload_check_at :: instant

definition state_loaded ::
    "platform \<Rightarrow> instant \<Rightarrow> nat \<Rightarrow> nat \<Rightarrow> duration \<Rightarrow> AuthorizedKeysCache \<Rightarrow> AuthorizedKeysFingerprint
       \<Rightarrow> AuthorizedKeysState option" where
  "state_loaded p now sz n interval c fp =
     do {
       due \<leftarrow> instant_add p now interval;
       Some \<lparr>max_size = sz, keys_max_entries = n, reload_interval = interval, keys_cache = c,
             generation = 1, observed_fingerprint = fp, last_failed_reload_fingerprint = None,
             last_reload_status = StatusLoaded, next_reload_check_at = due\<rparr>
     }"

definition state_missing ::
    "platform \<Rightarrow> instant \<Rightarrow> nat \<Rightarrow> nat \<Rightarrow> duration \<Rightarrow> AuthorizedKeysState option" where
  "state_missing p now sz n interval =
     do {
       due \<leftarrow> instant_add p now interval;
       Some \<lparr>max_size = sz, keys_max_entries = n, reload_interval = interval, keys_cache = cache_empty,
             generation = 0, observed_fingerprint = FP_MISSING, last_failed_reload_fingerprint = None,
             last_reload_status = StatusMissing, next_reload_check_at = due\<rparr>
     }"

definition store_load ::
    "'k entry_parser \<Rightarrow> 'k serializer \<Rightarrow> platform \<Rightarrow> instant \<Rightarrow> FsView \<Rightarrow> nat \<Rightarrow> nat \<Rightarrow> duration
       \<Rightarrow> (KeysError, AuthorizedKeysState) result option" where
  "store_load parse to_bytes p now v sz n interval =
     (case cache_load parse to_bytes v sz n of
        Inl e \<Rightarrow> Some (Inl e)
      | Inr (c, fp) \<Rightarrow> map_option Inr (state_loaded p now sz n interval c fp))"

text \<open>The reload of a changed file, and the three outcomes.\<close>

definition reload ::
    "'k entry_parser \<Rightarrow> 'k serializer \<Rightarrow> FsView \<Rightarrow> AuthorizedKeysFingerprint \<Rightarrow> AuthorizedKeysState
       \<Rightarrow> AuthorizedKeysReloadEvent \<times> AuthorizedKeysState" where
  "reload parse to_bytes v current s =
     (case cache_load parse to_bytes v (max_size s) (keys_max_entries s) of
        Inr (c, fp) \<Rightarrow>
          let g = min (generation s + 1) u64_max in
          (EventLoaded g (cache_ignored c),
           s\<lparr>keys_cache := c, generation := g, observed_fingerprint := fp,
             last_failed_reload_fingerprint := None, last_reload_status := StatusLoaded\<rparr>)
      | Inl err \<Rightarrow>
          if current = FP_MISSING
          then (EventMissing,
                s\<lparr>observed_fingerprint := FP_MISSING, last_failed_reload_fingerprint := None,
                  last_reload_status := StatusMissing\<rparr>)
          else (EventFailed err,
                s\<lparr>last_failed_reload_fingerprint := Some current, last_reload_status := StatusFailed err\<rparr>))"

definition refresh_if_due ::
    "'k entry_parser \<Rightarrow> 'k serializer \<Rightarrow> platform \<Rightarrow> instant \<Rightarrow> FsView \<Rightarrow> AuthorizedKeysState
       \<Rightarrow> ((KeysError, AuthorizedKeysReloadEvent option) result \<times> AuthorizedKeysState) option" where
  "refresh_if_due parse to_bytes p now v s =
     (if now < next_reload_check_at s then Some (Inr None, s)
      else do {
        due \<leftarrow> instant_add p now (reload_interval s);
        let s1 = s\<lparr>next_reload_check_at := due\<rparr>;
        Some (case from_path v of
            Inl e \<Rightarrow> (Inl e, s1)
          | Inr current \<Rightarrow>
              if current = observed_fingerprint s1 then (Inr None, s1)
              else if last_failed_reload_fingerprint s1 = Some current then (Inr None, s1)
              else case reload parse to_bytes v current s1 of (ev, s2) \<Rightarrow> (Inr (Some ev), s2))
      })"

text \<open>The shared store: a write lock for refreshing, read locks for queries.\<close>

type_synonym AuthorizedKeysStore = "AuthorizedKeysState mutex"

definition store_refresh ::
    "'k entry_parser \<Rightarrow> 'k serializer \<Rightarrow> platform \<Rightarrow> instant \<Rightarrow> FsView \<Rightarrow> AuthorizedKeysStore
       \<Rightarrow> (KeysError, AuthorizedKeysReloadEvent option) result option \<times> AuthorizedKeysStore" where
  "store_refresh parse to_bytes p now v st = with_lock st (refresh_if_due parse to_bytes p now v)"

fun store_contains ::
    "'k serializer \<Rightarrow> AuthorizedKeysStore \<Rightarrow> 'k \<Rightarrow> (KeysError, bool) result option" where
  "store_contains to_bytes Poisoned key = None"
| "store_contains to_bytes (Unlocked s) key = Some (cache_contains to_bytes (keys_cache s) key)"

record AuthorizedKeysStatus =
  status_generation :: nat
  status_ignored :: nat
  status_reload :: AuthorizedKeysReloadStatus

definition keys_status :: "AuthorizedKeysState \<Rightarrow> AuthorizedKeysStatus" where
  "keys_status s =
     \<lparr>status_generation = generation s, status_ignored = cache_ignored (keys_cache s),
      status_reload = last_reload_status s\<rparr>"

subsection \<open>What a valid file is\<close>

definition plain_entries :: "(string, 'k KeyEntry) result list \<Rightarrow> 'k KeyEntry list" where
  "plain_entries rs = filter (\<lambda>e. config_opts e = []) (map projr (filter (\<lambda>r. \<not> isl r) rs))"

definition plain_keys :: "'k serializer \<Rightarrow> (string, 'k KeyEntry) result list \<Rightarrow> string list" where
  "plain_keys to_bytes rs = map (\<lambda>e. projr (to_bytes (public_key e))) (plain_entries rs)"

definition optioned_count :: "(string, 'k KeyEntry) result list \<Rightarrow> nat" where
  "optioned_count rs = length (filter (\<lambda>e. config_opts e \<noteq> []) (map projr (filter (\<lambda>r. \<not> isl r) rs)))"

definition entries_valid :: "'k serializer \<Rightarrow> nat \<Rightarrow> (string, 'k KeyEntry) result list \<Rightarrow> bool" where
  "entries_valid to_bytes n rs \<longleftrightarrow>
     length rs \<le> n \<and> list_all (\<lambda>r. \<not> isl r) rs \<and>
     list_all (\<lambda>e. \<not> isl (to_bytes (public_key e))) (plain_entries rs) \<and>
     distinct (plain_keys to_bytes rs)"

lemma plain_Cons [simp]:
  "plain_entries (Inl e # rs) = plain_entries rs"
  "plain_entries (Inr k # rs) = (if config_opts k = [] then k # plain_entries rs else plain_entries rs)"
  "optioned_count (Inl e # rs) = optioned_count rs"
  "optioned_count (Inr k # rs) = (if config_opts k = [] then optioned_count rs else Suc (optioned_count rs))"
  by (simp_all add: plain_entries_def optioned_count_def)

lemma collect_entries_Inr:
  "collect_entries to_bytes n i rs c = Inr c' \<longleftrightarrow>
     (rs \<noteq> [] \<longrightarrow> i + length rs \<le> n) \<and> list_all (\<lambda>r. \<not> isl r) rs \<and>
     list_all (\<lambda>e. \<not> isl (to_bytes (public_key e))) (plain_entries rs) \<and>
     distinct (plain_keys to_bytes rs) \<and> set (plain_keys to_bytes rs) \<inter> accepted_keys c = {} \<and>
     c' = \<lparr>accepted_keys = accepted_keys c \<union> set (plain_keys to_bytes rs),
           cache_ignored = cache_ignored c + optioned_count rs\<rparr>"
proof (induction to_bytes n i rs c rule: collect_entries.induct)
  case (1 to_bytes n i c)
  show ?case by (auto simp: plain_entries_def plain_keys_def optioned_count_def)
next
  case (2 to_bytes n i r rs c)
  show ?case
  proof (cases r)
    case (Inl e)
    then show ?thesis by simp
  next
    case r: (Inr k)
    show ?thesis
    proof (cases "i < n \<and> config_opts k = []")
      case True
      show ?thesis
      proof (cases "to_bytes (public_key k)")
        case (Inl e)
        with True r show ?thesis by simp
      next
        case (Inr b)
        have "plain_keys to_bytes (r # rs) = b # plain_keys to_bytes rs"
          using True r Inr by (simp add: plain_keys_def)
        then show ?thesis
          using 2(2) [OF _ r _ Inr] True r Inr by (cases rs) auto
      qed
    next
      case False
      show ?thesis
      proof (cases "n \<le> i")
        case True
        then show ?thesis by simp
      next
        case le: False
        have "plain_keys to_bytes (r # rs) = plain_keys to_bytes rs"
          using False le r by (simp add: plain_keys_def)
        then show ?thesis
          using 2(1) [OF _ r] False le r by (cases rs) auto
      qed
    qed
  qed
qed

lemma from_text_Inr:
  "from_text parse to_bytes body n = Inr c \<longleftrightarrow>
     entries_valid to_bytes n (parse body) \<and>
     c = \<lparr>accepted_keys = set (plain_keys to_bytes (parse body)), cache_ignored = optioned_count (parse body)\<rparr>"
  unfolding from_text_def collect_entries_Inr entries_valid_def cache_empty_def by auto

definition file_cache :: "'k serializer \<Rightarrow> (string, 'k KeyEntry) result list \<Rightarrow> AuthorizedKeysCache" where
  "file_cache to_bytes rs =
     \<lparr>accepted_keys = set (plain_keys to_bytes rs), cache_ignored = optioned_count rs\<rparr>"

text \<open>A view whose file loads: it opens, is within the size limit, and its text is valid.\<close>

definition view_loads ::
    "'k entry_parser \<Rightarrow> 'k serializer \<Rightarrow> nat \<Rightarrow> nat \<Rightarrow> FsView \<Rightarrow> string \<Rightarrow> bool" where
  "view_loads parse to_bytes sz n v body \<longleftrightarrow>
     \<not> isl (opened v) \<and> contents v = Inr body \<and>
     (\<exists>m. handle_metadata v = Inr m \<and> md_len m \<le> sz) \<and> entries_valid to_bytes n (parse body)"

lemma cache_load_Inr:
  "cache_load parse to_bytes v sz n = Inr (c, fp) \<longleftrightarrow>
     (\<exists>body m. view_loads parse to_bytes sz n v body \<and> handle_metadata v = Inr m \<and>
        fp = from_metadata m \<and> c = file_cache to_bytes (parse body))"
  by (cases "opened v"; cases "handle_metadata v"; cases "contents v")
    (auto simp: cache_load_def view_loads_def res_bind_eq_Inr from_text_Inr file_cache_def)

subsection \<open>Refreshing\<close>

lemma reload_frame:
  assumes "reload parse to_bytes v current s = (ev, s')"
  shows "max_size s' = max_size s" "keys_max_entries s' = keys_max_entries s"
    "reload_interval s' = reload_interval s" "next_reload_check_at s' = next_reload_check_at s"
    "(keys_cache s' = keys_cache s \<and> generation s' = generation s) \<or>
     (\<exists>fp. cache_load parse to_bytes v (max_size s) (keys_max_entries s) = Inr (keys_cache s', fp))"
  using assms by (auto simp: reload_def Let_def split: sum.splits prod.splits if_splits)

text \<open>What one refresh does: the limits stay, and the keys stay or are those of the file just read.\<close>

lemma keys_refresh_frame:
  assumes "refresh_if_due parse to_bytes p now v s = Some (r, s')"
  shows "max_size s' = max_size s" "keys_max_entries s' = keys_max_entries s"
    "reload_interval s' = reload_interval s"
    "keys_cache s' = keys_cache s \<or>
     (\<exists>fp. cache_load parse to_bytes v (max_size s) (keys_max_entries s) = Inr (keys_cache s', fp))"
    "next_reload_check_at s' =
      (if now < next_reload_check_at s then next_reload_check_at s else now + int (reload_interval s))"
  using assms
  by (auto simp: refresh_if_due_def bind_eq_Some_conv Let_def instant_add_eq_Some
      split: if_splits sum.splits prod.splits dest: reload_frame)

fun run_refreshes ::
    "'k entry_parser \<Rightarrow> 'k serializer \<Rightarrow> platform \<Rightarrow> (instant \<times> FsView) list \<Rightarrow> AuthorizedKeysState
       \<Rightarrow> AuthorizedKeysState option" where
  "run_refreshes parse to_bytes p [] s = Some s"
| "run_refreshes parse to_bytes p ((now, v) # hist) s =
     do {
       (r, s') \<leftarrow> refresh_if_due parse to_bytes p now v s;
       run_refreshes parse to_bytes p hist s'
     }"

text \<open>The times at which a run looks at the file at all.\<close>

fun check_times ::
    "'k entry_parser \<Rightarrow> 'k serializer \<Rightarrow> platform \<Rightarrow> (instant \<times> FsView) list \<Rightarrow> AuthorizedKeysState \<Rightarrow> instant list" where
  "check_times parse to_bytes p [] s = []"
| "check_times parse to_bytes p ((now, v) # hist) s =
     (case refresh_if_due parse to_bytes p now v s of
        None \<Rightarrow> []
      | Some (r, s') \<Rightarrow>
          (if now < next_reload_check_at s then [] else [now]) @ check_times parse to_bytes p hist s')"

lemma run_refreshes_keys:
  assumes "run_refreshes parse to_bytes p hist s = Some s'"
  shows "keys_cache s' = keys_cache s \<or>
    (\<exists>now v body. (now, v) \<in> set hist \<and> view_loads parse to_bytes (max_size s) (keys_max_entries s) v body \<and>
       keys_cache s' = file_cache to_bytes (parse body))"
  using assms
proof (induction hist arbitrary: s)
  case (Cons h hist)
  obtain now v where h: "h = (now, v)" by (cases h)
  with Cons.prems obtain r s1 where s1: "refresh_if_due parse to_bytes p now v s = Some (r, s1)"
    and rest: "run_refreshes parse to_bytes p hist s1 = Some s'"
    by (auto simp: bind_eq_Some_conv)
  note frame = keys_refresh_frame [OF s1]
  have first: "keys_cache s1 = keys_cache s \<or>
      (\<exists>body. view_loads parse to_bytes (max_size s) (keys_max_entries s) v body \<and>
        keys_cache s1 = file_cache to_bytes (parse body))"
    using frame(4) by (auto simp: cache_load_Inr)
  from Cons.IH [OF rest] show ?case
    unfolding frame(1,2) h using first by (metis list.set_intros(1,2))
qed simp

lemma check_times_spaced:
  "sorted_wrt (\<lambda>a b. a + int (reload_interval s) \<le> b) (check_times parse to_bytes p hist s) \<and>
   (\<forall>t \<in> set (check_times parse to_bytes p hist s). next_reload_check_at s \<le> t)"
proof (induction hist arbitrary: s)
  case (Cons h hist)
  obtain now v where h: "h = (now, v)" by (cases h)
  show ?case
  proof (cases "refresh_if_due parse to_bytes p now v s")
    case None
    with h show ?thesis by simp
  next
    case (Some rs)
    obtain r s1 where rs: "rs = (r, s1)" by (cases rs)
    note frame = keys_refresh_frame [OF Some [unfolded rs]]
    from Cons.IH [of s1] show ?thesis
      unfolding frame(3,5) using h Some rs by (auto split: if_splits)
  qed
qed simp

subsection \<open>Properties\<close>

text \<open>A parser and a serialiser for the witnesses: an entry is a line, a bang in front means options.\<close>

definition test_parse :: "string entry_parser" where
  "test_parse body =
     map (\<lambda>l. Inr \<lparr>config_opts = takeWhile (\<lambda>ch. ch = CHR ''!'') l,
                  public_key = dropWhile (\<lambda>ch. ch = CHR ''!'') l\<rparr>) (str_lines body)"

definition test_bytes :: "string serializer" where
  "test_bytes k = Inr k"

definition test_view :: "nat \<Rightarrow> string \<Rightarrow> FsView" where
  "test_view t body =
     \<lparr>path_metadata = Inr \<lparr>md_modified = Some t, md_len = length body\<rparr>, opened = Inr (),
      handle_metadata = Inr \<lparr>md_modified = Some t, md_len = length body\<rparr>, contents = Inr body\<rparr>"

definition test_state :: AuthorizedKeysState where
  "test_state =
     \<lparr>max_size = 1024, keys_max_entries = 8, reload_interval = 10,
      keys_cache = \<lparr>accepted_keys = {''old''}, cache_ignored = 0\<rparr>, generation = 1,
      observed_fingerprint = from_metadata \<lparr>md_modified = Some 1, md_len = 3\<rparr>,
      last_failed_reload_fingerprint = None, last_reload_status = StatusLoaded, next_reload_check_at = 10\<rparr>"

text \<open>
  [C32] Only plain listed keys are accepted. A text is accepted exactly if it has at most
  the configured number of entries, all of them parse, all plain keys serialise and none
  is repeated; the accepted set is then exactly the plain entries, and entries with
  options only count as ignored.
\<close>

theorem accepted_keys_are_plain_entries:
  "from_text parse to_bytes body n = Inr c \<longleftrightarrow>
     length (parse body) \<le> n \<and> list_all (\<lambda>r. \<not> isl r) (parse body) \<and>
     list_all (\<lambda>e. \<not> isl (to_bytes (public_key e))) (plain_entries (parse body)) \<and>
     distinct (plain_keys to_bytes (parse body)) \<and>
     accepted_keys c = set (plain_keys to_bytes (parse body)) \<and>
     cache_ignored c = optioned_count (parse body)"
  by (auto simp: from_text_Inr entries_valid_def)

text \<open>
  [C12] Every authorised key comes from a valid file. After any run of refreshes, over any
  sequence of file system answers, a key that the store accepts was accepted before the
  run, or is a plain entry of a file version that one of the refreshes read completely,
  within its limits, and without error.
\<close>

theorem authorised_keys_come_from_valid_files:
  assumes "run_refreshes parse to_bytes p hist s = Some s'"
    and "store_contains to_bytes (Unlocked s') key = Some (Inr True)"
  shows "store_contains to_bytes (Unlocked s) key = Some (Inr True) \<or>
    (\<exists>now v body b. (now, v) \<in> set hist \<and> view_loads parse to_bytes (max_size s) (keys_max_entries s) v body \<and>
       to_bytes key = Inr b \<and> b \<in> set (plain_keys to_bytes (parse body)))"
proof -
  obtain b where b: "to_bytes key = Inr b" "b \<in> accepted_keys (keys_cache s')"
    using assms(2) by (auto simp: cache_contains_def split: sum.splits)
  from run_refreshes_keys [OF assms(1)] show ?thesis
    using b by (auto simp: cache_contains_def file_cache_def)
qed

theorem authorised_keys_come_from_valid_files_witness:
  "\<exists>v body. (12, v) \<in> {(12 :: instant, test_view 5 ''new'')} \<and> ''new'' \<in> set (plain_keys test_bytes (test_parse body))"
proof -
  have parse: "test_parse ''new'' = [Inr \<lparr>config_opts = [], public_key = ''new''\<rparr>]" by code_simp
  obtain s' where run: "run_refreshes test_parse test_bytes Unix [(12, test_view 5 ''new'')] test_state = Some s'"
    and key: "accepted_keys (keys_cache s') = {''new''}"
    by (simp add: refresh_if_due_def test_state_def test_view_def from_path_def from_metadata_def instant_add_def
        reload_def cache_load_def from_text_def parse cache_empty_def test_bytes_def Let_def)
  have "store_contains test_bytes (Unlocked s') ''new'' = Some (Inr True)"
    using key by (simp add: cache_contains_def test_bytes_def)
  from authorised_keys_come_from_valid_files [OF run this] show ?thesis
    by (auto simp: cache_contains_def test_bytes_def test_state_def)
qed

text \<open>The file has a version the store has neither loaded nor failed to load.\<close>

definition new_version :: "FsView \<Rightarrow> AuthorizedKeysState \<Rightarrow> bool" where
  "new_version v s \<longleftrightarrow>
     (case from_path v of
        Inl _ \<Rightarrow> False
      | Inr fp \<Rightarrow> fp \<noteq> observed_fingerprint s \<and> last_failed_reload_fingerprint s \<noteq> Some fp)"

lemma refresh_unchanged:
  assumes "refresh_if_due parse to_bytes p now v s = Some (r, s')"
    and "\<not> (next_reload_check_at s \<le> now \<and> new_version v s)"
  shows "keys_cache s' = keys_cache s \<and> generation s' = generation s"
  using assms
  by (auto simp: refresh_if_due_def new_version_def bind_eq_Some_conv Let_def split: if_splits sum.splits)

lemma refresh_reloads:
  assumes "refresh_if_due parse to_bytes p now v s = Some (r, s')" "next_reload_check_at s \<le> now" "new_version v s"
  obtains fp ev t where "reload parse to_bytes v fp (s\<lparr>next_reload_check_at := t\<rparr>) = (ev, s')"
  using assms
  by (auto simp: refresh_if_due_def new_version_def bind_eq_Some_conv Let_def split: sum.splits prod.splits)

lemma reload_outcome:
  assumes "reload parse to_bytes v fp s = (ev, s')"
  shows "case cache_load parse to_bytes v (max_size s) (keys_max_entries s) of
      Inl e \<Rightarrow> keys_cache s' = keys_cache s \<and> generation s' = generation s
    | Inr (c, fp') \<Rightarrow> keys_cache s' = c \<and> generation s' = min (generation s + 1) u64_max \<and>
        last_reload_status s' = StatusLoaded"
  using assms by (auto simp: reload_def Let_def split: sum.splits if_splits)

lemma view_loads_iff:
  "(\<exists>body. view_loads parse to_bytes sz n v body) \<longleftrightarrow> \<not> isl (cache_load parse to_bytes v sz n)"
proof (cases "cache_load parse to_bytes v sz n")
  case (Inl e)
  have "\<not> view_loads parse to_bytes sz n v body" for body
  proof
    assume l: "view_loads parse to_bytes sz n v body"
    then obtain m where "handle_metadata v = Inr m" by (auto simp: view_loads_def)
    with l cache_load_Inr [of parse to_bytes v sz n] Inl show False by auto
  qed
  with Inl show ?thesis by simp
next
  case (Inr cf)
  with cache_load_Inr [of parse to_bytes v sz n "fst cf" "snd cf"] show ?thesis by auto
qed

text \<open>
  [C33] The outcome of a refresh. A refresh changes the accepted keys exactly when it is
  due, the file's fingerprint differs from the observed and from the last failed one,
  and the file loads; then the keys are exactly its plain entries and the generation
  grows (up to the largest 64-bit value). Failed and missing files keep the last good keys.
\<close>

theorem refresh_keeps_last_good_keys:
  assumes "refresh_if_due parse to_bytes p now v s = Some (r, s')"
  shows "if next_reload_check_at s \<le> now \<and> new_version v s \<and>
      (\<exists>body. view_loads parse to_bytes (max_size s) (keys_max_entries s) v body)
    then (\<exists>body. contents v = Inr body \<and> keys_cache s' = file_cache to_bytes (parse body)) \<and>
      generation s' = min (generation s + 1) u64_max \<and> last_reload_status s' = StatusLoaded
    else keys_cache s' = keys_cache s \<and> generation s' = generation s"
proof (cases "next_reload_check_at s \<le> now \<and> new_version v s")
  case False
  from refresh_unchanged [OF assms this] False show ?thesis by auto
next
  case True
  then obtain fp ev t where "reload parse to_bytes v fp (s\<lparr>next_reload_check_at := t\<rparr>) = (ev, s')"
    using refresh_reloads [OF assms] by metis
  note out = reload_outcome [OF this, simplified]
  show ?thesis
  proof (cases "cache_load parse to_bytes v (max_size s) (keys_max_entries s)")
    case (Inl e)
    with out True show ?thesis by (simp add: view_loads_iff)
  next
    case (Inr cf)
    with cache_load_Inr [of parse to_bytes v "max_size s" "keys_max_entries s" "fst cf" "snd cf"]
    obtain body where "view_loads parse to_bytes (max_size s) (keys_max_entries s) v body"
      "fst cf = file_cache to_bytes (parse body)" by auto
    with Inr out True show ?thesis
      by (cases cf) (auto simp: view_loads_iff, auto simp: view_loads_def)
  qed
qed

theorem refresh_keeps_last_good_keys_witness:
  "\<exists>r s'. refresh_if_due test_parse test_bytes Unix 12 ((test_view 5 ''new'')\<lparr>opened := Inl OtherIo\<rparr>) test_state =
      Some (r, s') \<and> accepted_keys (keys_cache s') = {''old''}"
proof -
  let ?v = "(test_view 5 ''new'')\<lparr>opened := Inl OtherIo\<rparr>"
  obtain r s' where run: "refresh_if_due test_parse test_bytes Unix 12 ?v test_state = Some (r, s')"
    by (simp add: refresh_if_due_def test_state_def test_view_def from_path_def from_metadata_def instant_add_def
        reload_def cache_load_def FP_MISSING_def Let_def)
  have "\<nexists>body. view_loads test_parse test_bytes (max_size test_state) (keys_max_entries test_state) ?v body"
    by (simp add: view_loads_def)
  with refresh_keeps_last_good_keys [OF run] have "keys_cache s' = keys_cache test_state" by simp
  with run show ?thesis by (auto simp: test_state_def)
qed

text \<open>
  The file is looked at no more than once per interval. In any run of refreshes the
  times at which the file system is consulted lie at least the reload interval apart.
\<close>

theorem reload_checks_are_debounced:
  "sorted_wrt (\<lambda>a b. a + int (reload_interval s) \<le> b) (check_times parse to_bytes p hist s)"
  using check_times_spaced by blast

text \<open>
  A version of the file that failed to load is not tried again: while the fingerprint
  (modification time and length) stays the same, no later refresh reads the file, even
  if it has become readable.
\<close>

lemma failed_version_is_not_retried:
  assumes "run_refreshes parse to_bytes p hist s = Some s'" "last_failed_reload_fingerprint s = Some fp"
    and "\<forall>(now, v) \<in> set hist. from_path v = Inr fp"
  shows "keys_cache s' = keys_cache s \<and> last_reload_status s' = last_reload_status s"
  using assms
proof (induction hist arbitrary: s)
  case (Cons h hist)
  obtain now v where h: "h = (now, v)" by (cases h)
  with Cons.prems obtain r s1 where s1: "refresh_if_due parse to_bytes p now v s = Some (r, s1)"
    and rest: "run_refreshes parse to_bytes p hist s1 = Some s'" "from_path v = Inr fp"
    by (auto simp: bind_eq_Some_conv)
  then have "last_failed_reload_fingerprint s1 = Some fp" "keys_cache s1 = keys_cache s"
    "last_reload_status s1 = last_reload_status s"
    using Cons.prems(2) by (auto simp: refresh_if_due_def bind_eq_Some_conv Let_def split: if_splits)
  with Cons.IH [OF rest(1)] Cons.prems(3) show ?case by simp
qed simp

end
