(* ===== verification/Sftp.thy ===== *)
theory Sftp
  imports Rust_Text Rust_Io
begin

text \<open>
  The SFTP server (\<open>src/src/sftp.rs\<close>): lexical path resolution, the table of open handles,
  and every request of the handler.

  The operating system (\<open>std::fs\<close>, \<open>tokio::fs\<close>) is the parameter \<open>Os\<close>: functions on a world
  \<open>'w\<close>, with open files \<open>'f\<close>, directory streams \<open>'d\<close> and file attributes \<open>'m\<close>; the
  conversions of attributes and open flags belong to the crate \<open>russh_sftp\<close>. Paths are
  Unix paths, without the prefix component of Windows.
\<close>

subsection \<open>Replies and errors\<close>

datatype StatusCode = StOk | StEof | StNoSuchFile | StPermissionDenied | StFailure | StOpUnsupported

record StatusReply =
  status_code :: StatusCode
  status_message :: "string option"

datatype 'm reply =
    ReplyVersion
  | ReplyHandle "32 word" string
  | ReplyStatus "32 word" StatusCode string
  | ReplyData "32 word" string
  | ReplyAttrs "32 word" 'm
  | ReplyName "32 word" "(string \<times> 'm option) list"

definition io_error_to_status :: "IoError \<Rightarrow> StatusReply" where
  "io_error_to_status e =
     \<lparr>status_code =
        (case io_kind e of
           NotFound \<Rightarrow> StNoSuchFile
         | PermissionDenied \<Rightarrow> StPermissionDenied
         | AlreadyExists \<Rightarrow> StFailure
         | UnexpectedEof \<Rightarrow> StEof
         | _ \<Rightarrow> StFailure),
      status_message = Some (io_message e)\<rparr>"

definition code_reply :: "StatusCode \<Rightarrow> StatusReply" where
  "code_reply c = \<lparr>status_code = c, status_message = None\<rparr>"

definition with_message :: "StatusCode \<Rightarrow> string \<Rightarrow> StatusReply" where
  "with_message c msg = \<lparr>status_code = c, status_message = Some msg\<rparr>"

definition ok_status :: "32 word \<Rightarrow> 'm reply" where
  "ok_status i = ReplyStatus i StOk ''Ok''"

subsection \<open>Path resolution\<close>

definition path_pop :: "path \<Rightarrow> path" where
  "path_pop p = (case path_parent p of None \<Rightarrow> p | Some q \<Rightarrow> q)"

fun push_component :: "path \<Rightarrow> path_component \<Rightarrow> path" where
  "push_component out RootDir = ''/''"
| "push_component out CurDir = out"
| "push_component out ParentDir = path_pop out"
| "push_component out (Normal w) = path_join out w"

definition normalize_path :: "path \<Rightarrow> path \<Rightarrow> path" where
  "normalize_path base input =
     (let out = foldl push_component base (components input) in if out = [] then ''/'' else out)"

subsection \<open>The server\<close>

datatype ('f, 'd) HandleState = FileHandle 'f | DirHandle path 'd

record ('f, 'd) LocalSftp =
  root_dir :: path
  handles :: "(string, ('f, 'd) HandleState) hmap"
  next_handle_id :: "64 word"

record ('w, 'f, 'd, 'm) Os =
  os_open :: "path \<Rightarrow> 32 word \<Rightarrow> ('w, 'f) os_call"
  os_seek :: "'f \<Rightarrow> 64 word \<Rightarrow> ('w, unit) os_call"
  os_read :: "'f \<Rightarrow> nat \<Rightarrow> ('w, string) os_call"
  os_write_all :: "'f \<Rightarrow> string \<Rightarrow> ('w, unit) os_call"
  os_flush :: "'f \<Rightarrow> ('w, unit) os_call"
  os_file_metadata :: "'f \<Rightarrow> ('w, 'm) os_call"
  os_metadata :: "path \<Rightarrow> ('w, 'm) os_call"
  os_symlink_metadata :: "path \<Rightarrow> ('w, 'm) os_call"
  os_read_dir :: "path \<Rightarrow> ('w, 'd) os_call"
  os_next_entry :: "'d \<Rightarrow> ('w, (string \<times> (IoError, 'm) result) option) os_call"
  os_remove_file :: "path \<Rightarrow> ('w, unit) os_call"
  os_create_dir :: "path \<Rightarrow> ('w, unit) os_call"
  os_remove_dir :: "path \<Rightarrow> ('w, unit) os_call"
  os_canonicalize :: "path \<Rightarrow> ('w, path) os_call"
  os_rename :: "path \<Rightarrow> path \<Rightarrow> ('w, unit) os_call"
  os_read_link :: "path \<Rightarrow> ('w, path) os_call"
  os_symlink :: "path \<Rightarrow> path \<Rightarrow> ('w, unit) os_call"

definition sftp_new :: "path \<Rightarrow> ('f, 'd) LocalSftp" where
  "sftp_new r = \<lparr>root_dir = r, handles = [], next_handle_id = 0\<rparr>"

definition handle_name :: "64 word \<Rightarrow> string" where
  "handle_name n = CHR ''h'' # show_nat (unat n)"

definition make_handle :: "('f, 'd) LocalSftp \<Rightarrow> string \<times> ('f, 'd) LocalSftp" where
  "make_handle s =
     (let s' = s\<lparr>next_handle_id := next_handle_id s + 1\<rparr> in (handle_name (next_handle_id s'), s'))"

definition resolve_path :: "('f, 'd) LocalSftp \<Rightarrow> string \<Rightarrow> path" where
  "resolve_path s p =
     (if is_absolute p then normalize_path ''/'' p else normalize_path (root_dir s) p)"

definition MAX_SFTP_READ_LEN :: "32 word" where
  "MAX_SFTP_READ_LEN = push_bit 20 1"

type_synonym ('f, 'd, 'm, 'w) outcome = "(StatusReply, 'm reply) result \<times> ('f, 'd) LocalSftp \<times> 'w"

text \<open>The question mark after \<open>map_err(io_error_to_status)\<close>.\<close>

definition on_ok ::
    "(IoError, 'a) result \<times> 'w \<Rightarrow> ('f, 'd) LocalSftp \<Rightarrow> ('a \<Rightarrow> 'w \<Rightarrow> ('f, 'd, 'm, 'w) outcome)
       \<Rightarrow> ('f, 'd, 'm, 'w) outcome" where
  "on_ok r s k =
     (case r of (Inl e, w) \<Rightarrow> (Inl (io_error_to_status e), s, w) | (Inr a, w) \<Rightarrow> k a w)"

definition unknown_handle :: StatusReply where
  "unknown_handle = with_message StNoSuchFile ''unknown SFTP handle''"

definition sftp_open ::
    "('w, 'f, 'd, 'm) Os \<Rightarrow> 32 word \<Rightarrow> string \<Rightarrow> 32 word \<Rightarrow> ('f, 'd) LocalSftp \<Rightarrow> 'w \<Rightarrow> ('f, 'd, 'm, 'w) outcome" where
  "sftp_open os i filename pflags s w =
     on_ok (os_open os (resolve_path s filename) pflags w) s (\<lambda>file w1.
       let (h, s1) = make_handle s in
       (Inr (ReplyHandle i h), s1\<lparr>handles := hm_insert h (FileHandle file) (handles s1)\<rparr>, w1))"

definition sftp_close :: "32 word \<Rightarrow> string \<Rightarrow> ('f, 'd) LocalSftp \<Rightarrow> 'w \<Rightarrow> ('f, 'd, 'm, 'w) outcome" where
  "sftp_close i h s w =
     (case hm_get (handles s) h of
        None \<Rightarrow> (Inl unknown_handle, s, w)
      | Some _ \<Rightarrow> (Inr (ok_status i), s\<lparr>handles := hm_remove h (handles s)\<rparr>, w))"

definition sftp_read ::
    "('w, 'f, 'd, 'm) Os \<Rightarrow> 32 word \<Rightarrow> string \<Rightarrow> 64 word \<Rightarrow> 32 word \<Rightarrow> ('f, 'd) LocalSftp \<Rightarrow> 'w
       \<Rightarrow> ('f, 'd, 'm, 'w) outcome" where
  "sftp_read os i h offset len s w =
     (case hm_get (handles s) h of
        None \<Rightarrow> (Inl unknown_handle, s, w)
      | Some (DirHandle _ _) \<Rightarrow> (Inl (with_message StFailure ''handle is not a file''), s, w)
      | Some (FileHandle file) \<Rightarrow>
          on_ok (os_seek os file offset w) s (\<lambda>_ w1.
            let effective_len = min len MAX_SFTP_READ_LEN in
            on_ok (os_read os file (unat effective_len) w1) s (\<lambda>buffer w2.
              if length buffer = 0 then (Inl (code_reply StEof), s, w2)
              else (Inr (ReplyData i buffer), s, w2))))"

definition sftp_write ::
    "('w, 'f, 'd, 'm) Os \<Rightarrow> 32 word \<Rightarrow> string \<Rightarrow> 64 word \<Rightarrow> string \<Rightarrow> ('f, 'd) LocalSftp \<Rightarrow> 'w
       \<Rightarrow> ('f, 'd, 'm, 'w) outcome" where
  "sftp_write os i h offset data s w =
     (case hm_get (handles s) h of
        None \<Rightarrow> (Inl unknown_handle, s, w)
      | Some (DirHandle _ _) \<Rightarrow> (Inl (with_message StFailure ''handle is not a file''), s, w)
      | Some (FileHandle file) \<Rightarrow>
          on_ok (os_seek os file offset w) s (\<lambda>_ w1.
          on_ok (os_write_all os file data w1) s (\<lambda>_ w2.
          on_ok (os_flush os file w2) s (\<lambda>_ w3. (Inr (ok_status i), s, w3)))))"

definition sftp_lstat ::
    "('w, 'f, 'd, 'm) Os \<Rightarrow> 32 word \<Rightarrow> string \<Rightarrow> ('f, 'd) LocalSftp \<Rightarrow> 'w \<Rightarrow> ('f, 'd, 'm, 'w) outcome" where
  "sftp_lstat os i p s w =
     on_ok (os_symlink_metadata os (resolve_path s p) w) s (\<lambda>m w1. (Inr (ReplyAttrs i m), s, w1))"

definition sftp_fstat ::
    "('w, 'f, 'd, 'm) Os \<Rightarrow> 32 word \<Rightarrow> string \<Rightarrow> ('f, 'd) LocalSftp \<Rightarrow> 'w \<Rightarrow> ('f, 'd, 'm, 'w) outcome" where
  "sftp_fstat os i h s w =
     (case hm_get (handles s) h of
        None \<Rightarrow> (Inl unknown_handle, s, w)
      | Some (FileHandle file) \<Rightarrow> on_ok (os_file_metadata os file w) s (\<lambda>m w1. (Inr (ReplyAttrs i m), s, w1))
      | Some (DirHandle p _) \<Rightarrow> on_ok (os_metadata os p w) s (\<lambda>m w1. (Inr (ReplyAttrs i m), s, w1)))"

definition sftp_opendir ::
    "('w, 'f, 'd, 'm) Os \<Rightarrow> 32 word \<Rightarrow> string \<Rightarrow> ('f, 'd) LocalSftp \<Rightarrow> 'w \<Rightarrow> ('f, 'd, 'm, 'w) outcome" where
  "sftp_opendir os i p s w =
     (let q = resolve_path s p in
      on_ok (os_read_dir os q w) s (\<lambda>entries w1.
        let (h, s1) = make_handle s in
        (Inr (ReplyHandle i h), s1\<lparr>handles := hm_insert h (DirHandle q entries) (handles s1)\<rparr>, w1)))"

definition sftp_readdir ::
    "('w, 'f, 'd, 'm) Os \<Rightarrow> 32 word \<Rightarrow> string \<Rightarrow> ('f, 'd) LocalSftp \<Rightarrow> 'w \<Rightarrow> ('f, 'd, 'm, 'w) outcome" where
  "sftp_readdir os i h s w =
     (case hm_get (handles s) h of
        None \<Rightarrow> (Inl unknown_handle, s, w)
      | Some (FileHandle _) \<Rightarrow> (Inl (with_message StFailure ''handle is not a directory''), s, w)
      | Some (DirHandle _ entries) \<Rightarrow>
          on_ok (os_next_entry os entries w) s (\<lambda>e w1.
            case e of
              None \<Rightarrow> (Inl (code_reply StEof), s, w1)
            | Some (name, meta) \<Rightarrow> on_ok (meta, w1) s (\<lambda>m w2. (Inr (ReplyName i [(name, Some m)]), s, w2))))"

definition sftp_remove ::
    "('w, 'f, 'd, 'm) Os \<Rightarrow> 32 word \<Rightarrow> string \<Rightarrow> ('f, 'd) LocalSftp \<Rightarrow> 'w \<Rightarrow> ('f, 'd, 'm, 'w) outcome" where
  "sftp_remove os i p s w =
     on_ok (os_remove_file os (resolve_path s p) w) s (\<lambda>_ w1. (Inr (ok_status i), s, w1))"

definition sftp_mkdir ::
    "('w, 'f, 'd, 'm) Os \<Rightarrow> 32 word \<Rightarrow> string \<Rightarrow> ('f, 'd) LocalSftp \<Rightarrow> 'w \<Rightarrow> ('f, 'd, 'm, 'w) outcome" where
  "sftp_mkdir os i p s w =
     on_ok (os_create_dir os (resolve_path s p) w) s (\<lambda>_ w1. (Inr (ok_status i), s, w1))"

definition sftp_rmdir ::
    "('w, 'f, 'd, 'm) Os \<Rightarrow> 32 word \<Rightarrow> string \<Rightarrow> ('f, 'd) LocalSftp \<Rightarrow> 'w \<Rightarrow> ('f, 'd, 'm, 'w) outcome" where
  "sftp_rmdir os i p s w =
     on_ok (os_remove_dir os (resolve_path s p) w) s (\<lambda>_ w1. (Inr (ok_status i), s, w1))"

definition sftp_realpath ::
    "('w, 'f, 'd, 'm) Os \<Rightarrow> 32 word \<Rightarrow> string \<Rightarrow> ('f, 'd) LocalSftp \<Rightarrow> 'w \<Rightarrow> ('f, 'd, 'm, 'w) outcome" where
  "sftp_realpath os i p s w =
     (let q = resolve_path s p in
      case os_canonicalize os q w of
        (Inr canonical, w1) \<Rightarrow> (Inr (ReplyName i [(canonical, None)]), s, w1)
      | (Inl _, w1) \<Rightarrow> (Inr (ReplyName i [(q, None)]), s, w1))"

definition sftp_stat ::
    "('w, 'f, 'd, 'm) Os \<Rightarrow> 32 word \<Rightarrow> string \<Rightarrow> ('f, 'd) LocalSftp \<Rightarrow> 'w \<Rightarrow> ('f, 'd, 'm, 'w) outcome" where
  "sftp_stat os i p s w =
     on_ok (os_metadata os (resolve_path s p) w) s (\<lambda>m w1. (Inr (ReplyAttrs i m), s, w1))"

definition sftp_rename ::
    "('w, 'f, 'd, 'm) Os \<Rightarrow> 32 word \<Rightarrow> string \<Rightarrow> string \<Rightarrow> ('f, 'd) LocalSftp \<Rightarrow> 'w \<Rightarrow> ('f, 'd, 'm, 'w) outcome" where
  "sftp_rename os i oldpath newpath s w =
     on_ok (os_rename os (resolve_path s oldpath) (resolve_path s newpath) w) s
       (\<lambda>_ w1. (Inr (ok_status i), s, w1))"

definition sftp_readlink ::
    "('w, 'f, 'd, 'm) Os \<Rightarrow> 32 word \<Rightarrow> string \<Rightarrow> ('f, 'd) LocalSftp \<Rightarrow> 'w \<Rightarrow> ('f, 'd, 'm, 'w) outcome" where
  "sftp_readlink os i p s w =
     on_ok (os_read_link os (resolve_path s p) w) s (\<lambda>target w1. (Inr (ReplyName i [(target, None)]), s, w1))"

definition sftp_symlink ::
    "('w, 'f, 'd, 'm) Os \<Rightarrow> 32 word \<Rightarrow> string \<Rightarrow> string \<Rightarrow> ('f, 'd) LocalSftp \<Rightarrow> 'w \<Rightarrow> ('f, 'd, 'm, 'w) outcome" where
  "sftp_symlink os i linkpath targetpath s w =
     on_ok (os_symlink os (resolve_path s targetpath) (resolve_path s linkpath) w) s
       (\<lambda>_ w1. (Inr (ok_status i), s, w1))"

text \<open>The requests of the protocol; the ones the handler does not define are unsupported.\<close>

datatype request =
    Init
  | Open "32 word" string "32 word"
  | Close "32 word" string
  | Read "32 word" string "64 word" "32 word"
  | Write "32 word" string "64 word" string
  | Lstat "32 word" string
  | Fstat "32 word" string
  | Opendir "32 word" string
  | Readdir "32 word" string
  | Remove "32 word" string
  | Mkdir "32 word" string
  | Rmdir "32 word" string
  | Realpath "32 word" string
  | Stat "32 word" string
  | Rename "32 word" string string
  | Readlink "32 word" string
  | Symlink "32 word" string string
  | OtherRequest "32 word"

fun serve :: "('w, 'f, 'd, 'm) Os \<Rightarrow> request \<Rightarrow> ('f, 'd) LocalSftp \<Rightarrow> 'w \<Rightarrow> ('f, 'd, 'm, 'w) outcome" where
  "serve os Init s w = (Inr ReplyVersion, s, w)"
| "serve os (Open i p f) s w = sftp_open os i p f s w"
| "serve os (Close i h) s w = sftp_close i h s w"
| "serve os (Read i h off len) s w = sftp_read os i h off len s w"
| "serve os (Write i h off data) s w = sftp_write os i h off data s w"
| "serve os (Lstat i p) s w = sftp_lstat os i p s w"
| "serve os (Fstat i h) s w = sftp_fstat os i h s w"
| "serve os (Opendir i p) s w = sftp_opendir os i p s w"
| "serve os (Readdir i h) s w = sftp_readdir os i h s w"
| "serve os (Remove i p) s w = sftp_remove os i p s w"
| "serve os (Mkdir i p) s w = sftp_mkdir os i p s w"
| "serve os (Rmdir i p) s w = sftp_rmdir os i p s w"
| "serve os (Realpath i p) s w = sftp_realpath os i p s w"
| "serve os (Stat i p) s w = sftp_stat os i p s w"
| "serve os (Rename i a b) s w = sftp_rename os i a b s w"
| "serve os (Readlink i p) s w = sftp_readlink os i p s w"
| "serve os (Symlink i a b) s w = sftp_symlink os i a b s w"
| "serve os (OtherRequest i) s w = (Inl (code_reply StOpUnsupported), s, w)"

subsection \<open>Paths as stacks of names\<close>

definition ok_part :: "string \<Rightarrow> bool" where
  "ok_part w \<longleftrightarrow> w \<noteq> [] \<and> w \<noteq> ''.'' \<and> w \<noteq> ''..'' \<and> CHR ''/'' \<notin> set w"

definition abs_path :: "string list \<Rightarrow> path" where
  "abs_path ws = ''/'' @ join_with ''/'' ws"

fun stack_step :: "string list \<Rightarrow> path_component \<Rightarrow> string list" where
  "stack_step ws RootDir = []"
| "stack_step ws CurDir = ws"
| "stack_step ws ParentDir = butlast ws"
| "stack_step ws (Normal w) = ws @ [w]"

lemma join_with_snoc: "join_with sep (ws @ [w]) = (if ws = [] then w else join_with sep ws @ sep @ w)"
  by (induction sep ws rule: join_with.induct) auto

lemma last_part_snoc_both:
  assumes "CHR ''/'' \<notin> set w"
  shows "last_part (join_with ''/'' (ws @ [w])) = w \<and> drop_last_part (join_with ''/'' (ws @ [w])) = join_with ''/'' ws"
proof (cases "ws = []")
  case True
  have j: "join_with ''/'' (ws @ [w]) = w" using True by simp
  have w: "takeWhile (\<lambda>c. c \<noteq> CHR ''/'') (rev w) = rev w"  "dropWhile (\<lambda>c. c \<noteq> CHR ''/'') (rev w) = []"
    using assms by (auto simp: takeWhile_eq_all_conv)
  show ?thesis unfolding last_part_def drop_last_part_def j w using True by simp
next
  case False
  have split: "takeWhile (\<lambda>c. c \<noteq> CHR ''/'') (xs @ CHR ''/'' # r) = xs \<and>
      dropWhile (\<lambda>c. c \<noteq> CHR ''/'') (xs @ CHR ''/'' # r) = CHR ''/'' # r" if "CHR ''/'' \<notin> set xs" for xs r
    using that by (induction xs) auto
  have r: "rev (join_with ''/'' (ws @ [w])) = rev w @ CHR ''/'' # rev (join_with ''/'' ws)"
    using False by (simp add: join_with_snoc)
  have "CHR ''/'' \<notin> set (rev w)" using assms by simp
  note sp = split [OF this, THEN conjunct1] split [OF this, THEN conjunct2]
  show ?thesis unfolding last_part_def drop_last_part_def r sp by simp
qed

lemmas last_part_snoc = last_part_snoc_both [THEN conjunct1] last_part_snoc_both [THEN conjunct2]

lemma ok_part_component: "ok_part w \<Longrightarrow> body_component w = Some (Normal w)"
  by (simp add: ok_part_def body_component_def)

lemma strip_back_join: "list_all ok_part ws \<Longrightarrow> strip_back (join_with ''/'' ws) = join_with ''/'' ws"
proof (cases ws rule: rev_cases)
  case (snoc us w)
  assume "list_all ok_part ws"
  with snoc have w: "ok_part w" by simp
  then have "last_part (join_with ''/'' ws) = w" using last_part_snoc(1) snoc by (simp add: ok_part_def)
  with ok_part_component [OF w] show ?thesis by (simp add: strip_back.simps)
qed (simp add: strip_back.simps)

lemma abs_path_absolute [simp]: "is_absolute (abs_path ws)" "abs_path ws \<noteq> []"
  by (simp_all add: abs_path_def is_absolute_def)

lemma join_not_Nil: "list_all ok_part ws \<Longrightarrow> ws \<noteq> [] \<Longrightarrow> join_with ''/'' ws \<noteq> []"
  by (cases ws rule: rev_cases) (auto simp: join_with_snoc ok_part_def)

lemma abs_path_last: "list_all ok_part ws \<Longrightarrow> last (abs_path ws) = CHR ''/'' \<longleftrightarrow> ws = []"
proof (cases ws rule: rev_cases)
  case (snoc us w)
  assume "list_all ok_part ws"
  with snoc have "w \<noteq> []" "CHR ''/'' \<notin> set w" by (auto simp: ok_part_def)
  moreover from this have "last w \<noteq> CHR ''/''" using last_in_set by metis
  ultimately show ?thesis using snoc by (auto simp: abs_path_def join_with_snoc)
qed (simp add: abs_path_def)

lemma path_join_push:
  assumes "list_all ok_part ws" "ok_part w"
  shows "path_join (abs_path ws) w = abs_path (ws @ [w])"
proof -
  have "\<not> is_absolute w" using assms(2) by (cases w) (auto simp: is_absolute_def ok_part_def)
  then show ?thesis
    using abs_path_last [OF assms(1)]
    by (auto simp: path_join_def) (auto simp: abs_path_def join_with_snoc)
qed

lemma path_pop_push:
  assumes "list_all ok_part ws"
  shows "path_pop (abs_path ws) = abs_path (butlast ws)"
proof (cases ws rule: rev_cases)
  case Nil
  have "path_parent ''/'' = None" by code_simp
  with Nil show ?thesis by (simp add: path_pop_def abs_path_def)
next
  case (snoc us w)
  have len: "len_before_body (abs_path ws) = 1" by (simp add: len_before_body_def)
  have d: "drop 1 (abs_path ws) = join_with ''/'' ws" "take 1 (abs_path ws) = ''/''" by (simp_all add: abs_path_def)
  have ok: "list_all ok_part us" "ok_part w" using assms snoc by auto
  have ne: "join_with ''/'' ws \<noteq> []" using join_not_Nil [OF assms] snoc by simp
  have "path_parent (abs_path ws) = Some (''/'' @ strip_back (drop_last_part (join_with ''/'' ws)))"
    unfolding path_parent_def Let_def len d strip_back_join [OF assms] using ne by simp
  also have "drop_last_part (join_with ''/'' ws) = join_with ''/'' us"
    using last_part_snoc(2) ok(2) snoc by (simp add: ok_part_def)
  finally show ?thesis using snoc ok(1) by (simp add: path_pop_def abs_path_def strip_back_join)
qed

lemma split_at_slash_parts:
  "w \<in> set (split_at_slash u p) \<Longrightarrow> CHR ''/'' \<notin> set u \<Longrightarrow> CHR ''/'' \<notin> set w"
  by (induction u p rule: split_at_slash.induct) (auto split: if_splits)

lemma component_ok: "Normal w \<in> set (components p) \<Longrightarrow> ok_part w"
  using split_at_slash_parts [of w "[]" p]
  by (auto simp: components_def map_filter_def path_parts_def body_component_def ok_part_def split: if_splits)

lemma push_components:
  assumes "list_all ok_part ws" "\<forall>w. Normal w \<in> set cs \<longrightarrow> ok_part w"
  shows "foldl push_component (abs_path ws) cs = abs_path (foldl stack_step ws cs) \<and>
    list_all ok_part (foldl stack_step ws cs)"
  using assms
proof (induction cs arbitrary: ws)
  case (Cons c cs)
  show ?case
  proof (cases c)
    case RootDir
    then show ?thesis using Cons.IH [of "[]"] Cons.prems by (simp add: abs_path_def)
  next
    case CurDir
    then show ?thesis using Cons.IH [of ws] Cons.prems by simp
  next
    case ParentDir
    have "list_all ok_part (butlast ws)" using Cons.prems(1) by (auto simp: list_all_iff dest: in_set_butlastD)
    with ParentDir show ?thesis using Cons.IH [of "butlast ws"] Cons.prems by (simp add: path_pop_push)
  next
    case (Normal w)
    then have "ok_part w" using Cons.prems(2) by simp
    with Normal show ?thesis using Cons.IH [of "ws @ [w]"] Cons.prems by (simp add: path_join_push)
  qed
qed simp

text \<open>
  [C34] Path resolution is lexical and total. With a root directory in normal form, every
  requested path resolves to the absolute path of a stack of names: a name pushes, two
  dots pop and stop at the root, a leading slash empties the stack. The result has no
  dot, no double dot and no empty component.
\<close>

theorem resolve_path_is_lexical:
  assumes "root_dir s = abs_path rs" "list_all ok_part rs"
  shows "let ws = foldl stack_step (if is_absolute p then [] else rs) (components p)
    in resolve_path s p = abs_path ws \<and> list_all ok_part ws"
proof -
  have root: "abs_path [] = ''/''" by (simp add: abs_path_def)
  show ?thesis
  proof (cases "is_absolute p")
    case True
    with push_components [of "[]" "components p"] component_ok root show ?thesis
      by (auto simp: resolve_path_def normalize_path_def Let_def)
  next
    case False
    with push_components [OF assms(2), of "components p"] component_ok assms(1) show ?thesis
      by (auto simp: resolve_path_def normalize_path_def Let_def)
  qed
qed

theorem resolve_path_is_lexical_witness:
  "resolve_path (sftp_new ''/home/u'' :: (unit, unit) LocalSftp) ''../../../etc/./x/..'' = ''/etc''"
proof -
  let ?s = "sftp_new ''/home/u'' :: (unit, unit) LocalSftp"
  have r: "root_dir ?s = abs_path [''home'', ''u'']" "list_all ok_part [''home'', ''u'']"
    by (simp_all add: sftp_new_def abs_path_def ok_part_def)
  let ?p = "''../../../etc/./x/..''"
  have c: "foldl stack_step (if is_absolute ?p then [] else [''home'', ''u'']) (components ?p) = [''etc'']"
    by code_simp
  from resolve_path_is_lexical [OF r, of ?p] have "resolve_path ?s ?p = abs_path [''etc'']"
    unfolding c Let_def by blast
  then show ?thesis by (simp only: abs_path_def) simp
qed

subsection \<open>Handles\<close>

lemma show_nat_inj: "show_nat a = show_nat b \<Longrightarrow> a = b"
  by (metis digits_from_show max.cobounded1 max.cobounded2 sum.inject(2))

lemma handle_name_inj [simp]: "handle_name a = handle_name b \<longleftrightarrow> a = b"
  by (auto simp: handle_name_def word_unat_eq_iff dest: show_nat_inj)

text \<open>Every open handle was issued: its number lies between one and the last one used.\<close>

definition issued :: "('f, 'd) LocalSftp \<Rightarrow> string \<Rightarrow> bool" where
  "issued s h \<longleftrightarrow> (\<exists>n. h = handle_name n \<and> 0 < n \<and> n \<le> next_handle_id s)"

definition handles_ok :: "('f, 'd) LocalSftp \<Rightarrow> bool" where
  "handles_ok s \<longleftrightarrow> hm_wf (handles s) \<and> (\<forall>h. hm_get (handles s) h \<noteq> None \<longrightarrow> issued s h)"

definition free_ids :: "('f, 'd) LocalSftp \<Rightarrow> nat" where
  "free_ids s = 2 ^ 64 - 1 - unat (next_handle_id s)"

lemma next_id_grows:
  assumes "0 < free_ids s"
  shows "next_handle_id s < next_handle_id s + 1" "0 < next_handle_id s + 1"
    "unat (next_handle_id s + 1) = unat (next_handle_id s) + 1"
proof -
  have "unat (next_handle_id s) + 1 < 2 ^ 64" using assms by (simp add: free_ids_def)
  then show 1: "unat (next_handle_id s + 1) = unat (next_handle_id s) + 1"
    by (simp add: unat_word_ariths)
  show "next_handle_id s < next_handle_id s + 1" "0 < next_handle_id s + 1"
    using 1 by (simp_all add: word_less_nat_alt)
qed

lemma issued_make_handle:
  assumes "0 < free_ids s" "make_handle s = (h, s')"
  shows "issued s' h" "\<not> issued s h" "issued s g \<Longrightarrow> issued s' g"
    "handles s' = handles s" "root_dir s' = root_dir s" "free_ids s' = free_ids s - 1"
  using assms next_id_grows [OF assms(1)]
  by (auto simp: make_handle_def Let_def issued_def free_ids_def)

text \<open>What a request may do to the table.\<close>

inductive table_step :: "('f, 'd) LocalSftp \<Rightarrow> request \<Rightarrow> ('f, 'd) LocalSftp \<Rightarrow> bool" where
  same: "table_step s r s"
| opens: "make_handle s = (h, s1) \<Longrightarrow> (\<exists>i p f. r = Open i p f) \<or> (\<exists>i p. r = Opendir i p) \<Longrightarrow>
     table_step s r (s1\<lparr>handles := hm_insert h st (handles s1)\<rparr>)"
| closes: "hm_get (handles s) h = Some st \<Longrightarrow> table_step s (Close i h) (s\<lparr>handles := hm_remove h (handles s)\<rparr>)"

lemma on_ok_cases:
  assumes "on_ok r s k = (res, s', w')"
  obtains (err) e w where "r = (Inl e, w)" "res = Inl (io_error_to_status e)" "s' = s" "w' = w"
  | (ok) a w where "r = (Inr a, w)" "k a w = (res, s', w')"
  using assms by (cases r; cases "fst r") (auto simp: on_ok_def)

lemma sftp_open_step: "sftp_open os i p f s w = (res, s', w') \<Longrightarrow> table_step s (Open i p f) s'"
  unfolding sftp_open_def
  by (erule on_ok_cases) (auto simp: Let_def split: prod.splits intro: same opens)

lemma sftp_opendir_step: "sftp_opendir os i p s w = (res, s', w') \<Longrightarrow> table_step s (Opendir i p) s'"
  unfolding sftp_opendir_def Let_def
  by (erule on_ok_cases) (auto simp: split: prod.splits intro: same opens)

lemma sftp_close_step: "sftp_close i h s w = (res, s', w') \<Longrightarrow> table_step s (Close i h) s'"
  by (auto simp: sftp_close_def split: option.splits intro: same closes)

lemmas sftp_ops = sftp_read_def sftp_write_def sftp_lstat_def sftp_fstat_def sftp_readdir_def sftp_remove_def
  sftp_mkdir_def sftp_rmdir_def sftp_realpath_def sftp_stat_def sftp_rename_def sftp_readlink_def sftp_symlink_def

lemma serve_others_frame:
  assumes "serve os r s w = (res, s', w')"
    and "\<nexists>i p f. r = Open i p f" "\<nexists>i p. r = Opendir i p" "\<nexists>i h. r = Close i h"
  shows "s' = s"
  using assms
  by (cases r) (auto simp: sftp_ops on_ok_def Let_def
      split: option.splits HandleState.splits prod.splits sum.splits if_splits)

lemma serve_step:
  assumes "serve os r s w = (res, s', w')"
  shows "table_step s r s'"
proof -
  consider i p f where "r = Open i p f" | i p where "r = Opendir i p" | i h where "r = Close i h"
    | "s' = s"
    using serve_others_frame [OF assms] by blast
  then show ?thesis
    by cases (use assms in \<open>auto intro: same dest: sftp_open_step sftp_opendir_step sftp_close_step\<close>)
qed

lemma table_step_ok:
  assumes "table_step s r s'" "handles_ok s" "0 < free_ids s"
  shows "handles_ok s'" "free_ids s - 1 \<le> free_ids s'" "issued s g \<Longrightarrow> issued s' g" "root_dir s' = root_dir s"
proof -
  have "handles_ok s' \<and> free_ids s - 1 \<le> free_ids s' \<and> (issued s g \<longrightarrow> issued s' g) \<and> root_dir s' = root_dir s" for g
    using assms
  proof cases
    case (opens h s1 st)
    note m = issued_make_handle [OF assms(3) opens(2)]
    have iss: "issued s' g \<longleftrightarrow> issued s1 g" "free_ids s' = free_ids s1" for g
      using opens(1) by (simp_all add: issued_def free_ids_def)
    show ?thesis using assms(2) m opens(1) iss by (auto simp: handles_ok_def)
  next
    case (closes h st i)
    then have "issued s' g \<longleftrightarrow> issued s g" "free_ids s' = free_ids s" for g
      by (simp_all add: issued_def free_ids_def)
    with closes assms(2) show ?thesis by (auto simp: handles_ok_def)
  qed simp
  then show "handles_ok s'" "free_ids s - 1 \<le> free_ids s'" "issued s g \<Longrightarrow> issued s' g" "root_dir s' = root_dir s"
    by blast+
qed

fun serve_all :: "('w, 'f, 'd, 'm) Os \<Rightarrow> request list \<Rightarrow> ('f, 'd) LocalSftp \<Rightarrow> 'w \<Rightarrow> ('f, 'd) LocalSftp \<times> 'w" where
  "serve_all os [] s w = (s, w)"
| "serve_all os (r # rs) s w = (case serve os r s w of (res, s1, w1) \<Rightarrow> serve_all os rs s1 w1)"

lemma table_step_dead:
  assumes "table_step s r s'" "handles_ok s" "0 < free_ids s" "issued s g" "hm_get (handles s) g = None"
  shows "hm_get (handles s') g = None"
  using assms(1)
proof cases
  case (opens h s1 st)
  from issued_make_handle(2,4) [OF assms(3) opens(2)] assms(4,5) opens(1) show ?thesis by auto
qed (use assms in auto)

lemma serve_all_ok:
  assumes "serve_all os rs s w = (s', w')" "handles_ok s" "length rs \<le> free_ids s"
  shows "handles_ok s' \<and> free_ids s - length rs \<le> free_ids s' \<and> root_dir s' = root_dir s \<and>
    (\<forall>g. issued s g \<longrightarrow> issued s' g) \<and>
    (\<forall>g. issued s g \<and> hm_get (handles s) g = None \<longrightarrow> hm_get (handles s') g = None)"
  using assms
proof (induction rs arbitrary: s w)
  case (Cons r rs)
  obtain res s1 w1 where s1: "serve os r s w = (res, s1, w1)" by (cases "serve os r s w") auto
  have step: "table_step s r s1" by (rule serve_step [OF s1])
  have free: "0 < free_ids s" using Cons.prems(3) by auto
  note ok = table_step_ok [OF step Cons.prems(2) free] table_step_dead [OF step Cons.prems(2) free]
  have "serve_all os rs s1 w1 = (s', w')" "length rs \<le> free_ids s1"
    using Cons.prems(1,3) s1 ok(2) by auto
  from Cons.IH [OF this(1) ok(1) this(2)] ok show ?case by fastforce
qed simp

lemma sftp_new_ok: "handles_ok (sftp_new r)" "free_ids (sftp_new r) = 2 ^ 64 - 1"
  by (simp_all add: handles_ok_def sftp_new_def free_ids_def hm_wf_def)

text \<open>A file system with one readable file, for the witnesses.\<close>

definition test_os :: "(unit, unit, unit, unit) Os" where
  "test_os = \<lparr>
     os_open = \<lambda>p f w. (Inr (), w), os_seek = \<lambda>f off w. (Inr (), w),
     os_read = \<lambda>f n w. (Inr (take n ''data''), w), os_write_all = \<lambda>f d w. (Inr (), w),
     os_flush = \<lambda>f w. (Inr (), w), os_file_metadata = \<lambda>f w. (Inr (), w), os_metadata = \<lambda>p w. (Inr (), w),
     os_symlink_metadata = \<lambda>p w. (Inr (), w), os_read_dir = \<lambda>p w. (Inr (), w),
     os_next_entry = \<lambda>d w. (Inr None, w), os_remove_file = \<lambda>p w. (Inr (), w),
     os_create_dir = \<lambda>p w. (Inr (), w), os_remove_dir = \<lambda>p w. (Inr (), w),
     os_canonicalize = \<lambda>p w. (Inr p, w), os_rename = \<lambda>a b w. (Inr (), w),
     os_read_link = \<lambda>p w. (Inr p, w), os_symlink = \<lambda>a b w. (Inr (), w)\<rparr>"

text \<open>
  A new handle is fresh. When a request of any run with fewer than \<open>2 ^ 64\<close> requests
  is answered with a handle, that handle was not in use, it is in use afterwards, and
  every other handle means what it meant before.
\<close>

theorem issued_handles_are_fresh:
  assumes "serve_all os rs (sftp_new r) w0 = (s, w)" "length rs < 2 ^ 64 - 1"
    and "serve os q s w = (Inr (ReplyHandle i h), s', w')"
  shows "hm_get (handles s) h = None \<and> hm_get (handles s') h \<noteq> None \<and>
    (\<forall>g. g \<noteq> h \<longrightarrow> hm_get (handles s') g = hm_get (handles s) g)"
proof -
  from serve_all_ok [OF assms(1) sftp_new_ok(1)] sftp_new_ok(2) assms(2)
  have ok: "handles_ok s" and free: "0 < free_ids s" by (auto simp: sftp_new_ok(2))
  obtain st s1 where m: "make_handle s = (h, s1)" "s' = s1\<lparr>handles := hm_insert h st (handles s1)\<rparr>"
    using assms(3)
    by (cases q) (auto simp: sftp_open_def sftp_opendir_def sftp_close_def sftp_ops on_ok_def Let_def ok_status_def
        split: option.splits HandleState.splits prod.splits sum.splits if_splits)
  from issued_make_handle(2,4) [OF free m(1)] ok m(2) show ?thesis by (auto simp: handles_ok_def)
qed

theorem issued_handles_are_fresh_witness:
  "\<exists>h s'. serve test_os (Open 2 ''b'' 1) (fst (serve_all test_os [Open 1 ''a'' 1] (sftp_new ''/r'') ())) () =
      (Inr (ReplyHandle 2 h), s', ()) \<and> hm_get (handles s') h \<noteq> None"
proof -
  obtain s where run: "serve_all test_os [Open 1 ''a'' 1] (sftp_new ''/r'') () = (s, ())"
    by (metis (full_types) old.unit.exhaust surj_pair)
  obtain h s' where q: "serve test_os (Open 2 ''b'' 1) s () = (Inr (ReplyHandle 2 h), s', ())"
    by (simp add: sftp_open_def test_os_def on_ok_def Let_def make_handle_def)
  from issued_handles_are_fresh [OF run _ q] q run show ?thesis by auto
qed

text \<open>
  [C35] A closed handle stays closed. Once an issued handle is no longer in the table, no
  later sequence of requests (fewer than \<open>2 ^ 64\<close> in all) brings it back: reading, writing,
  listing, inspecting or closing it is answered with the error for unknown handles.
\<close>

theorem closed_handles_stay_closed:
  assumes "serve_all os rs1 (sftp_new r) w0 = (s1, w1)" "issued s1 h" "hm_get (handles s1) h = None"
    and "serve_all os rs2 s1 w1 = (s2, w2)" "length rs1 + length rs2 < 2 ^ 64"
  shows "\<forall>q \<in> {Read i h off len, Write i h off body, Readdir i h, Fstat i h, Close i h}.
    serve os q s2 w2 = (Inl unknown_handle, s2, w2)"
proof -
  from serve_all_ok [OF assms(1) sftp_new_ok(1)] assms(5)
  have ok: "handles_ok s1" and free: "length rs2 \<le> free_ids s1" by (auto simp: sftp_new_ok(2))
  from serve_all_ok [OF assms(4) ok free] assms(2,3) have "hm_get (handles s2) h = None" by blast
  then show ?thesis
    by (simp add: sftp_read_def sftp_write_def sftp_readdir_def sftp_fstat_def sftp_close_def)
qed

theorem closed_handles_stay_closed_witness:
  "\<exists>s2. serve_all test_os [Open 2 ''b'' 1] (fst (serve_all test_os [Open 1 ''a'' 1, Close 7 (handle_name 1)]
      (sftp_new ''/r'') ())) () = (s2, ()) \<and>
    serve test_os (Read 3 (handle_name 1) 0 10) s2 () = (Inl unknown_handle, s2, ())"
proof -
  let ?run = "serve_all test_os [Open 1 ''a'' 1, Close 7 (handle_name 1)] (sftp_new ''/r'') ()"
  obtain s1 where run: "?run = (s1, ())" by (metis (full_types) old.unit.exhaust surj_pair)
  have s1: "s1 = \<lparr>root_dir = ''/r'', handles = [], next_handle_id = 1\<rparr>"
    using run
    by (simp add: sftp_open_def sftp_close_def sftp_new_def make_handle_def test_os_def on_ok_def Let_def)
  obtain s2 where run2: "serve_all test_os [Open 2 ''b'' 1] s1 () = (s2, ())"
    by (metis (full_types) old.unit.exhaust surj_pair)
  have "issued s1 (handle_name 1)" "hm_get (handles s1) (handle_name 1) = None" by (auto simp: s1 issued_def)
  from closed_handles_stay_closed [OF run this run2, of 3 0 10] run run2 show ?thesis by auto
qed

text \<open>
  [C36] Reads are bounded. If the operating system returns at most the bytes asked for, a
  successful read returns at least one byte, at most the bytes the client asked for and
  at most one mebibyte, under the request's own number, and changes no handle.
\<close>

theorem reads_are_bounded:
  assumes "\<And>f n v d v'. os_read os f n v = (Inr d, v') \<Longrightarrow> length d \<le> n"
    and "serve os (Read i h off len) s w = (Inr rep, s', w')"
  shows "s' = s \<and> (\<exists>d. rep = ReplyData i d \<and> 0 < length d \<and> length d \<le> unat len \<and> length d \<le> 2 ^ 20)"
proof -
  obtain f w1 d where f: "os_read os f (unat (min len MAX_SFTP_READ_LEN)) w1 = (Inr d, w')" "d \<noteq> []"
    "rep = ReplyData i d" "s' = s"
    using assms(2)
    by (auto simp: sftp_read_def on_ok_def Let_def split: option.splits HandleState.splits prod.splits sum.splits if_splits)
  have cap: "unat MAX_SFTP_READ_LEN = 2 ^ 20" by (simp add: MAX_SFTP_READ_LEN_def)
  have "unat (min len MAX_SFTP_READ_LEN) \<le> unat len" "unat (min len MAX_SFTP_READ_LEN) \<le> 2 ^ 20"
    unfolding cap [symmetric] by (simp_all add: word_le_nat_alt [symmetric])
  with assms(1) [OF f(1)] f(2-4) show ?thesis by auto
qed

theorem reads_are_bounded_witness:
  "\<exists>d. serve test_os (Read 3 (handle_name 1) 0 10)
      (fst (serve_all test_os [Open 1 ''a'' 1] (sftp_new ''/r'') ())) () =
      (Inr (ReplyData 3 d), fst (serve_all test_os [Open 1 ''a'' 1] (sftp_new ''/r'') ()), ()) \<and> length d \<le> 2 ^ 20"
proof -
  let ?s = "fst (serve_all test_os [Open 1 ''a'' 1] (sftp_new ''/r'') ())"
  have law: "\<And>f n v d v'. os_read test_os f n v = (Inr d, v') \<Longrightarrow> length d \<le> n" by (auto simp: test_os_def)
  obtain rep s' where rd: "serve test_os (Read 3 (handle_name 1) 0 10) ?s () = (Inr rep, s', ())"
    by (simp add: sftp_open_def sftp_read_def sftp_new_def make_handle_def test_os_def on_ok_def Let_def
        MAX_SFTP_READ_LEN_def)
  from reads_are_bounded [OF law rd] rd show ?thesis by auto
qed

end
