(* ===== verification/Sandbox.thy ===== *)
theory Sandbox
  imports Rust_Text
begin

text \<open>
  The pre-authentication sandbox (\<open>src/src/sandbox.rs\<close>) on Linux: the Landlock rule for the
  directory of the authorized keys file, the two stacked seccomp filters, and the order
  in which they are installed. On other systems the operations do nothing.

  System calls are their names. The kernel and the crates \<open>seccompiler\<close> and \<open>landlock\<close> are
  parameters: \<open>eval\<close> is the action of one compiled filter on a system call, \<open>stack\<close> the
  action the kernel takes for the actions of all installed filters, and \<open>restrict\<close> the
  answer of \<open>restrict_self\<close>. What is assumed of them is documented in seccomp(2) and in
  the crates: a filter without argument conditions matches by number only, and the most
  restrictive action wins. The probes \<open>internal_probe\<close> are diagnostics of the test suite and
  are not modelled.
\<close>

subsection \<open>Filters\<close>

type_synonym syscall = string

datatype SeccompAction = Allow | Errno nat | KillProcess

record SeccompFilter =
  rules :: "syscall list"
  mismatch_action :: SeccompAction
  match_action :: SeccompAction

definition EPERM :: nat where
  "EPERM = 1"

definition errno_syscalls :: "syscall list" where
  "errno_syscalls = [
     ''execve'', ''execveat'', ''fork'', ''vfork'', ''clone'', ''clone3'',
     ''socket'', ''connect'', ''bind'', ''listen'', ''kill'', ''tkill'',
     ''tgkill'', ''ptrace'', ''process_vm_writev'', ''bpf'', ''perf_event_open'', ''userfaultfd'',
     ''mount'', ''umount2'', ''pivot_root'', ''swapon'', ''swapoff'', ''init_module'',
     ''finit_module'', ''delete_module'', ''kexec_load'', ''open_by_handle_at'', ''setns'', ''unshare'']"

definition allowed_syscalls :: "syscall list" where
  "allowed_syscalls = [
     ''accept'', ''accept4'', ''brk'', ''clock_gettime'', ''close'', ''epoll_ctl'',
     ''epoll_pwait'', ''epoll_pwait2'', ''epoll_wait'', ''exit'', ''exit_group'', ''fcntl'',
     ''futex'', ''getrandom'', ''getsockopt'', ''ioctl'', ''lseek'', ''madvise'',
     ''mlock'', ''mmap'', ''mprotect'', ''mremap'', ''munlock'', ''munmap'',
     ''newfstatat'', ''openat'', ''prctl'', ''read'', ''readv'', ''recvfrom'',
     ''recvmsg'', ''rseq'', ''rt_sigaction'', ''rt_sigprocmask'', ''rt_sigreturn'', ''sendmsg'',
     ''sendto'', ''set_robust_list'', ''setsockopt'', ''shutdown'', ''sigaltstack'', ''socketpair'',
     ''statx'', ''write'', ''writev'']"

text \<open>\<open>SeccompFilter::new\<close> refuses a filter whose two actions are the same.\<close>

definition compile_seccomp_filter ::
    "syscall list \<Rightarrow> SeccompAction \<Rightarrow> SeccompAction \<Rightarrow> SeccompFilter option" where
  "compile_seccomp_filter syscalls mismatch match =
     (if mismatch = match then None
      else Some \<lparr>rules = remdups syscalls, mismatch_action = mismatch, match_action = match\<rparr>)"

definition build_preauth_seccomp_filters :: "(SeccompFilter \<times> SeccompFilter) option" where
  "build_preauth_seccomp_filters =
     do {
       errno_filter \<leftarrow> compile_seccomp_filter errno_syscalls Allow (Errno EPERM);
       allowlist_filter \<leftarrow> compile_seccomp_filter (allowed_syscalls @ errno_syscalls) KillProcess Allow;
       Some (errno_filter, allowlist_filter)
     }"

subsection \<open>The sandboxed process\<close>

datatype access =
    Execute | WriteFile | ReadFile | ReadDir | RemoveDir | RemoveFile
  | MakeChar | MakeDir | MakeReg | MakeSock | MakeFifo | MakeBlock | MakeSym

record Ruleset =
  handled :: "access set"
  beneath :: "(path \<times> access set) list"

datatype RulesetStatus = FullyEnforced | PartiallyEnforced | NotEnforced

record RestrictionStatus =
  ruleset_status :: RulesetStatus
  status_no_new_privs :: bool

record Process =
  no_new_privs :: bool
  rulesets :: "Ruleset list"
  filters :: "SeccompFilter list"
  killed :: bool

datatype SandboxError =
    NoNewPrivsFailed nat
  | NoExistingDirectory path
  | LandlockFailed
  | LandlockNotEnforced RestrictionStatus
  | FilterCompileFailed
  | FilterInstallFailed nat

type_synonym filter_eval = "SeccompFilter \<Rightarrow> syscall \<Rightarrow> SeccompAction"
type_synonym action_stack = "SeccompAction list \<Rightarrow> SeccompAction"

definition verdict :: "filter_eval \<Rightarrow> action_stack \<Rightarrow> SeccompFilter list \<Rightarrow> syscall \<Rightarrow> SeccompAction" where
  "verdict eval stack fs c = stack (map (\<lambda>f. eval f c) fs)"

definition enable_no_new_privs :: "nat option \<Rightarrow> Process \<Rightarrow> (SandboxError, unit) result \<times> Process" where
  "enable_no_new_privs prctl_errno p =
     (case prctl_errno of
        None \<Rightarrow> (Inr (), p\<lparr>no_new_privs := True\<rparr>)
      | Some e \<Rightarrow> (Inl (NoNewPrivsFailed e), p))"

text \<open>Installing a filter is itself the system call \<open>seccomp\<close>, subject to the filters in force.\<close>

definition apply_filter_all_threads ::
    "filter_eval \<Rightarrow> action_stack \<Rightarrow> SeccompFilter \<Rightarrow> Process \<Rightarrow> (SandboxError, unit) result \<times> Process" where
  "apply_filter_all_threads eval stack f p =
     (case verdict eval stack (filters p) ''seccomp'' of
        Allow \<Rightarrow> (Inr (), p\<lparr>filters := filters p @ [f]\<rparr>)
      | Errno e \<Rightarrow> (Inl (FilterInstallFailed e), p)
      | KillProcess \<Rightarrow> (Inl (FilterInstallFailed 0), p\<lparr>killed := True\<rparr>))"

definition install_preauth_seccomp_filter ::
    "filter_eval \<Rightarrow> action_stack \<Rightarrow> Process \<Rightarrow> (SandboxError, unit) result \<times> Process" where
  "install_preauth_seccomp_filter eval stack p =
     (case build_preauth_seccomp_filters of
        None \<Rightarrow> (Inl FilterCompileFailed, p)
      | Some (errno_filter, allowlist_filter) \<Rightarrow>
          (case apply_filter_all_threads eval stack errno_filter p of
             (Inl e, p1) \<Rightarrow> (Inl e, p1)
           | (Inr _, p1) \<Rightarrow> apply_filter_all_threads eval stack allowlist_filter p1))"

subsection \<open>The directory of the rule\<close>

lemma strip_back_length: "length (strip_back b) \<le> length b"
proof (induction b rule: strip_back.induct)
  case (1 b)
  then show ?case
    using drop_last_part_shorter [of b] by (subst strip_back.simps) (auto intro: order_trans less_imp_le)
qed

lemma path_parent_shorter: "path_parent p = Some q \<Longrightarrow> length q < length p"
proof -
  assume par: "path_parent p = Some q"
  let ?n = "len_before_body p"
  let ?b = "strip_back (drop ?n p)"
  have b: "length ?b \<le> length p - ?n" using strip_back_length [of "drop ?n p"] by simp
  show ?thesis
  proof (cases "?b = []")
    case False
    have "length (strip_back (drop_last_part ?b)) < length ?b"
      using strip_back_length [of "drop_last_part ?b"] drop_last_part_shorter [OF False] by simp
    moreover have "q = take ?n p @ strip_back (drop_last_part ?b)"
      using par False by (simp add: path_parent_def Let_def)
    moreover have "?n < length p" using False b by (cases "?n < length p") auto
    ultimately show ?thesis using b by simp
  next
    case True
    with par have "q = []" "starts_with_cur_dir p" by (auto simp: path_parent_def Let_def split: if_splits)
    then show ?thesis by (cases p) (auto simp: starts_with_cur_dir_def path_parts_def)
  qed
qed

function nearest_from :: "(path \<Rightarrow> bool) \<Rightarrow> path \<Rightarrow> path option" where
  "nearest_from is_dir current =
     (if is_dir current then Some current
      else case path_parent current of
          None \<Rightarrow> None
        | Some parent \<Rightarrow> nearest_from is_dir parent)"
  by pat_completeness auto

termination nearest_from
  by (relation "measure (\<lambda>(is_dir, p). length p)") (auto dest: path_parent_shorter)

declare nearest_from.simps [simp del]

definition nearest_existing_directory :: "(path \<Rightarrow> bool) \<Rightarrow> path \<Rightarrow> (SandboxError, path) result" where
  "nearest_existing_directory is_dir p =
     (let current = (if is_dir p then p else case path_parent p of None \<Rightarrow> p | Some q \<Rightarrow> q)
      in ok_or (NoExistingDirectory p) (nearest_from is_dir current))"

text \<open>\<open>AccessFs::from_all(ABI::V1)\<close>: every right of the first Landlock version.\<close>

definition abi_v1 :: "access set" where
  "abi_v1 = {Execute, WriteFile, ReadFile, ReadDir, RemoveDir, RemoveFile,
     MakeChar, MakeDir, MakeReg, MakeSock, MakeFifo, MakeBlock, MakeSym}"

definition install_authorized_keys_landlock ::
    "(path \<Rightarrow> bool) \<Rightarrow> (Ruleset \<Rightarrow> Process \<Rightarrow> RestrictionStatus option) \<Rightarrow> path \<Rightarrow> Process
       \<Rightarrow> (SandboxError, path) result \<times> Process" where
  "install_authorized_keys_landlock is_dir restrict authorized_keys_file p =
     (case nearest_existing_directory is_dir authorized_keys_file of
        Inl e \<Rightarrow> (Inl e, p)
      | Inr root' \<Rightarrow>
          let r = \<lparr>handled = abi_v1, beneath = [(root', {ReadFile, ReadDir})]\<rparr> in
          (case restrict r p of
             None \<Rightarrow> (Inl LandlockFailed, p)
           | Some status \<Rightarrow>
               let p1 = p\<lparr>rulesets := rulesets p @ [r]\<rparr> in
               if ruleset_status status \<noteq> FullyEnforced \<or> \<not> status_no_new_privs status
               then (Inl (LandlockNotEnforced status), p1)
               else (Inr root', p1)))"

definition apply_preauth_sandbox ::
    "filter_eval \<Rightarrow> action_stack \<Rightarrow> (path \<Rightarrow> bool) \<Rightarrow> (Ruleset \<Rightarrow> Process \<Rightarrow> RestrictionStatus option) \<Rightarrow> path
       \<Rightarrow> Process \<Rightarrow> (SandboxError, unit) result \<times> Process" where
  "apply_preauth_sandbox eval stack is_dir restrict authorized_keys_file p =
     (case install_authorized_keys_landlock is_dir restrict authorized_keys_file p of
        (Inl e, p1) \<Rightarrow> (Inl e, p1)
      | (Inr _, p1) \<Rightarrow> install_preauth_seccomp_filter eval stack p1)"

subsection \<open>The policy\<close>

text \<open>The documented behaviour of the kernel and of the filter compiler.\<close>

definition kernel_laws :: "filter_eval \<Rightarrow> action_stack \<Rightarrow> bool" where
  "kernel_laws eval stack \<longleftrightarrow>
     (\<forall>f c. eval f c = (if c \<in> set (rules f) then match_action f else mismatch_action f)) \<and>
     (\<forall>acts. KillProcess \<in> set acts \<longrightarrow> stack acts = KillProcess) \<and>
     (\<forall>acts e. KillProcess \<notin> set acts \<and> Errno e \<in> set acts \<and> set acts \<subseteq> {Allow, Errno e} \<longrightarrow> stack acts = Errno e) \<and>
     (\<forall>acts. set acts \<subseteq> {Allow} \<longrightarrow> stack acts = Allow)"

definition preauth_policy :: "syscall \<Rightarrow> SeccompAction" where
  "preauth_policy c =
     (if c \<in> set errno_syscalls then Errno EPERM
      else if c \<in> set allowed_syscalls then Allow
      else KillProcess)"

definition errno_filter :: SeccompFilter where
  "errno_filter = \<lparr>rules = remdups errno_syscalls, mismatch_action = Allow, match_action = Errno EPERM\<rparr>"

definition allowlist_filter :: SeccompFilter where
  "allowlist_filter =
     \<lparr>rules = remdups (allowed_syscalls @ errno_syscalls), mismatch_action = KillProcess, match_action = Allow\<rparr>"

lemma build_filters: "build_preauth_seccomp_filters = Some (errno_filter, allowlist_filter)"
  by (simp add: build_preauth_seccomp_filters_def compile_seccomp_filter_def errno_filter_def allowlist_filter_def
      del: remdups.simps)

lemma stacked_verdict:
  assumes "kernel_laws eval stack"
  shows "verdict eval stack [errno_filter, allowlist_filter] c = preauth_policy c"
proof -
  have e: "eval errno_filter c = (if c \<in> set errno_syscalls then Errno EPERM else Allow)"
    and a: "eval allowlist_filter c = (if c \<in> set allowed_syscalls \<union> set errno_syscalls then Allow else KillProcess)"
    using assms by (auto simp: kernel_laws_def errno_filter_def allowlist_filter_def)
  show ?thesis
    using assms unfolding verdict_def preauth_policy_def list.map e a kernel_laws_def by auto
qed

lemma seccomp_unlisted: "''seccomp'' \<notin> set errno_syscalls" "''seccomp'' \<notin> set allowed_syscalls"
  by code_simp+

lemma first_verdict:
  assumes "kernel_laws eval stack"
  shows "verdict eval stack [] c = Allow" "verdict eval stack [errno_filter] ''seccomp'' = Allow"
    "verdict eval stack [allowlist_filter] ''seccomp'' = KillProcess"
  using assms seccomp_unlisted
  by (auto simp: kernel_laws_def verdict_def errno_filter_def allowlist_filter_def)

definition test_eval :: filter_eval where
  "test_eval f c = (if c \<in> set (rules f) then match_action f else mismatch_action f)"

definition test_stack :: action_stack where
  "test_stack acts =
     (if KillProcess \<in> set acts then KillProcess
      else case filter (\<lambda>a. a \<noteq> Allow) acts of [] \<Rightarrow> Allow | a # _ \<Rightarrow> a)"

lemma test_kernel: "kernel_laws test_eval test_stack"
  unfolding kernel_laws_def
proof (intro conjI allI impI)
  fix acts e
  assume a: "KillProcess \<notin> set acts \<and> Errno e \<in> set acts \<and> set acts \<subseteq> {Allow, Errno e}"
  then have "filter (\<lambda>a. a \<noteq> Allow) acts \<noteq> []" by (auto simp: filter_empty_conv)
  then obtain b bs where b: "filter (\<lambda>a. a \<noteq> Allow) acts = b # bs" by (auto simp: neq_Nil_conv)
  then have "b \<in> set acts" "b \<noteq> Allow" by (auto dest: filter_eq_ConsD)
  with a b show "test_stack acts = Errno e" by (auto simp: test_stack_def)
next
  fix acts :: "SeccompAction list"
  assume "set acts \<subseteq> {Allow}"
  then have "filter (\<lambda>a. a \<noteq> Allow) acts = []" by (auto simp: filter_empty_conv)
  with \<open>set acts \<subseteq> {Allow}\<close> show "test_stack acts = Allow" by (auto simp: test_stack_def)
qed (auto simp: test_eval_def test_stack_def)

text \<open>
  [C14] The two stacked filters are one policy. Under the documented rules of the kernel
  they refuse the listed dangerous calls with \<open>EPERM\<close>, allow the listed calls of the
  event loop, and kill the process on every other system call.
\<close>

theorem stacked_filters_enforce_policy:
  assumes "kernel_laws eval stack"
  shows "\<exists>e a. build_preauth_seccomp_filters = Some (e, a) \<and>
    (\<forall>c. verdict eval stack [e, a] c = preauth_policy c)"
  using build_filters stacked_verdict [OF assms] by blast

theorem stacked_filters_enforce_policy_witness:
  "\<exists>e a. build_preauth_seccomp_filters = Some (e, a) \<and>
     verdict test_eval test_stack [e, a] ''execve'' = Errno EPERM \<and>
     verdict test_eval test_stack [e, a] ''read'' = Allow \<and>
     verdict test_eval test_stack [e, a] ''memfd_create'' = KillProcess"
proof -
  have "preauth_policy ''execve'' = Errno EPERM" "preauth_policy ''read'' = Allow"
    "preauth_policy ''memfd_create'' = KillProcess" by code_simp+
  with stacked_filters_enforce_policy [OF test_kernel] show ?thesis by metis
qed

lemma install_fresh:
  assumes "kernel_laws eval stack" "filters p = []"
  shows "install_preauth_seccomp_filter eval stack p = (Inr (), p\<lparr>filters := [errno_filter, allowlist_filter]\<rparr>)"
  using assms(2) first_verdict [OF assms(1)]
  by (simp add: install_preauth_seccomp_filter_def build_filters apply_filter_all_threads_def)

text \<open>
  The order of installation matters and is the right one. From a process without
  filters the errno filter leaves the installing call available, so both filters get
  installed; installing the allowlist first would kill the process on the second
  installation.
\<close>

theorem filter_installation_order:
  assumes "kernel_laws eval stack" "filters p = []"
  shows "install_preauth_seccomp_filter eval stack p =
      (Inr (), p\<lparr>filters := [errno_filter, allowlist_filter]\<rparr>) \<and>
    (\<forall>p1. apply_filter_all_threads eval stack allowlist_filter p = (Inr (), p1) \<longrightarrow>
       killed (snd (apply_filter_all_threads eval stack errno_filter p1)))"
  using install_fresh [OF assms] assms(2) first_verdict [OF assms(1)]
  by (auto simp: apply_filter_all_threads_def)

definition fresh_process :: Process where
  "fresh_process = \<lparr>no_new_privs = False, rulesets = [], filters = [], killed = False\<rparr>"

theorem filter_installation_order_witness:
  "fst (install_preauth_seccomp_filter test_eval test_stack fresh_process) = Inr () \<and>
   killed (snd (apply_filter_all_threads test_eval test_stack errno_filter
     (snd (apply_filter_all_threads test_eval test_stack allowlist_filter fresh_process))))"
proof -
  have "filters fresh_process = []" by (simp add: fresh_process_def)
  moreover have "fst (apply_filter_all_threads test_eval test_stack allowlist_filter fresh_process) = Inr ()"
    by (simp add: apply_filter_all_threads_def fresh_process_def first_verdict(1) [OF test_kernel])
  ultimately show ?thesis
    using filter_installation_order [OF test_kernel, of fresh_process]
    by (metis fst_conv prod.collapse)
qed

function path_ancestors :: "path \<Rightarrow> path list" where
  "path_ancestors p = (case path_parent p of None \<Rightarrow> [] | Some q \<Rightarrow> q # path_ancestors q)"
  by pat_completeness auto

termination path_ancestors
  by (relation "measure length") (auto dest: path_parent_shorter)

declare path_ancestors.simps [simp del]

lemma nearest_from_find: "nearest_from is_dir p = find is_dir (p # path_ancestors p)"
proof (induction is_dir p rule: nearest_from.induct)
  case (1 is_dir p)
  then show ?case
    by (subst nearest_from.simps, subst path_ancestors.simps) (auto split: option.split)
qed

lemma nearest_find: "nearest_existing_directory is_dir p = ok_or (NoExistingDirectory p) (find is_dir (p # path_ancestors p))"
  by (subst path_ancestors.simps)
     (auto simp: nearest_existing_directory_def nearest_from_find Let_def path_ancestors.simps split: option.split)

lemma nearest_is_dir: "nearest_existing_directory is_dir p = Inr d \<Longrightarrow> is_dir d"
  by (auto simp: nearest_find ok_or_def find_Some_iff split: option.splits if_splits)

lemma find_split:
  assumes "find P xs = Some d"
  shows "P d \<and> (\<exists>before rest. xs = before @ d # rest \<and> (\<forall>x \<in> set before. \<not> P x))"
proof -
  obtain i where i: "i < length xs" "P (xs ! i)" "d = xs ! i" "\<forall>j<i. \<not> P (xs ! j)"
    using assms by (auto simp: find_Some_iff)
  then have "xs = take i xs @ d # drop (Suc i) xs" by (simp add: id_take_nth_drop)
  moreover have "\<forall>x \<in> set (take i xs). \<not> P x" using i by (auto simp: in_set_conv_nth)
  ultimately show ?thesis using i by metis
qed

lemma landlock_success:
  assumes "install_authorized_keys_landlock is_dir restrict keys p = (Inr d, p1)"
  shows "is_dir d \<and> p1 = p\<lparr>rulesets := rulesets p @ [\<lparr>handled = abi_v1, beneath = [(d, {ReadFile, ReadDir})]\<rparr>]\<rparr> \<and>
    (\<exists>status. restrict \<lparr>handled = abi_v1, beneath = [(d, {ReadFile, ReadDir})]\<rparr> p = Some status \<and>
       ruleset_status status = FullyEnforced \<and> status_no_new_privs status)"
  using assms nearest_is_dir
  by (auto simp: install_authorized_keys_landlock_def Let_def split: sum.splits option.splits if_splits)

text \<open>
  The sandbox reports success only when it is complete. If it does, the process has
  a fully enforced Landlock rule set that handles every access right and grants only
  reading files and directories below one existing directory, and its system calls
  follow the policy.
\<close>

theorem sandbox_success_is_complete:
  assumes "kernel_laws eval stack" "filters p = []" "rulesets p = []"
    and "apply_preauth_sandbox eval stack is_dir restrict keys p = (Inr (), p')"
  shows "(\<forall>c. verdict eval stack (filters p') c = preauth_policy c) \<and>
    (\<exists>d status. is_dir d \<and> rulesets p' = [\<lparr>handled = abi_v1, beneath = [(d, {ReadFile, ReadDir})]\<rparr>] \<and>
       restrict (hd (rulesets p')) p = Some status \<and> ruleset_status status = FullyEnforced \<and>
       status_no_new_privs status)"
proof -
  obtain d p1 where i: "install_authorized_keys_landlock is_dir restrict keys p = (Inr d, p1)"
    and f: "install_preauth_seccomp_filter eval stack p1 = (Inr (), p')"
    using assms(4) by (auto simp: apply_preauth_sandbox_def split: sum.splits prod.splits)
  note l = landlock_success [OF i]
  have "filters p1 = []" "rulesets p1 = [\<lparr>handled = abi_v1, beneath = [(d, {ReadFile, ReadDir})]\<rparr>]"
    using l assms(2,3) by auto
  moreover have "p' = p1\<lparr>filters := [errno_filter, allowlist_filter]\<rparr>"
    using f install_fresh [OF assms(1) \<open>filters p1 = []\<close>] by simp
  ultimately show ?thesis using l stacked_verdict [OF assms(1)] by auto
qed

theorem sandbox_success_is_complete_witness:
  "\<exists>p'. apply_preauth_sandbox test_eval test_stack (\<lambda>d. d \<in> {''/'', ''/home''})
      (\<lambda>_ _. Some \<lparr>ruleset_status = FullyEnforced, status_no_new_privs = True\<rparr>) ''/home/.ssh/keys'' fresh_process = (Inr (), p') \<and>
    verdict test_eval test_stack (filters p') ''execve'' = Errno EPERM \<and>
    (\<exists>d. rulesets p' = [\<lparr>handled = abi_v1, beneath = [(d, {ReadFile, ReadDir})]\<rparr>])"
proof -
  let ?is = "\<lambda>d. d \<in> {''/'', ''/home''}"
  let ?re = "\<lambda>(_::Ruleset) (_::Process). Some \<lparr>ruleset_status = FullyEnforced, status_no_new_privs = True\<rparr>"
  have "nearest_existing_directory ?is ''/home/.ssh/keys'' = Inr ''/home''" by code_simp
  then have "\<exists>p'. apply_preauth_sandbox test_eval test_stack ?is ?re ''/home/.ssh/keys'' fresh_process = (Inr (), p')"
    by (simp add: apply_preauth_sandbox_def install_authorized_keys_landlock_def fresh_process_def
        install_fresh [OF test_kernel])
  then obtain p' where p': "apply_preauth_sandbox test_eval test_stack ?is ?re ''/home/.ssh/keys'' fresh_process = (Inr (), p')" ..
  have "preauth_policy ''execve'' = Errno EPERM" by code_simp
  moreover have "filters fresh_process = []" "rulesets fresh_process = []" by (simp_all add: fresh_process_def)
  note sandbox_success_is_complete [OF test_kernel this p']
  ultimately show ?thesis using p' by (intro exI [of _ p']) auto
qed

text \<open>
  The search for the directory of the rule ends, and finds an existing directory
  whenever the path is below one: it returns an ancestor that is a directory (the
  path itself when that is one), passing over no directory on the way.
\<close>

lemma nearest_existing_directory_liveness:
  assumes "q \<in> set (p # path_ancestors p)" "is_dir q"
  shows "\<exists>d before rest. nearest_existing_directory is_dir p = Inr d \<and> is_dir d \<and>
    p # path_ancestors p = before @ d # rest \<and> (\<forall>x \<in> set before. \<not> is_dir x)"
proof -
  have "find is_dir (p # path_ancestors p) \<noteq> None" using assms unfolding find_None_iff by blast
  then obtain d where d: "find is_dir (p # path_ancestors p) = Some d" by blast
  have "nearest_existing_directory is_dir p = Inr d" unfolding nearest_find d by (simp add: ok_or_def)
  with find_split [OF d] show ?thesis by blast
qed

end
