(* ===== verification/Executor_Protocol.thy ===== *)
theory Executor_Protocol
  imports Config Rust_Io
begin

text \<open>
  The messages between the SSH server and the executor process and their framing
  (\<open>src/src/executor.rs\<close>, and the server's side of the session framing in
  \<open>src/src/sshd.rs\<close>).

  JSON encoding (\<open>serde_json\<close>) and the byte order of lengths (\<open>tokio\<close>) are the fields of a
  parameter, the \<open>codec\<close>; \<open>codec_laws\<close> states what the program relies on. A byte stream
  being read is what it still delivers, and the error it ends with, if any.
\<close>

subsection \<open>Messages\<close>

record SerializablePtySize =
  rows :: "16 word"
  cols :: "16 word"
  pixel_width :: "16 word"
  pixel_height :: "16 word"

record SerializablePtyRequest =
  pty_term :: string
  pty_size :: SerializablePtySize

record ProcessRequest =
  req_pty :: "SerializablePtyRequest option"
  req_env :: "(string, string) hmap"
  req_command :: "string option"

datatype ExecutorSignal = ExecAbrt | ExecAlrm | ExecFpe | ExecHup | ExecIll | ExecInt | ExecKill | ExecPipe | ExecQuit | ExecSegv | ExecTerm | ExecUsr1

datatype ProcessInput =
    InData string
  | InSignal ExecutorSignal
  | InResize SerializablePtySize
  | InEof
  | InClose

datatype ProcessOutput = Stdout string | Stderr string | ExitStatus "32 word"

record ExecutorHello =
  hello_home_dir :: path
  hello_shell :: path
  hello_exec_mode :: ExecMode

datatype ExecutorRequest =
    Hello ExecutorHello
  | StartProcess "64 word" ProcessRequest
  | StartSftp "64 word"
  | ConnectTcp "64 word" string "16 word"
  | StartRemoteForward "64 word" "64 word" string "16 word"
  | CancelRemoteForward "64 word" "64 word"

datatype ResponseDetail = Empty | BoundPort "16 word"

datatype ExecutorResponse =
    HelloAck
  | RequestOk "64 word" ResponseDetail
  | RequestErr "64 word" string
  | RemoteForwardIncoming "64 word" string "32 word"

fun request_id :: "ExecutorRequest \<Rightarrow> 64 word option" where
  "request_id (Hello _) = None"
| "request_id (StartProcess i _) = Some i"
| "request_id (StartSftp i) = Some i"
| "request_id (ConnectTcp i _ _) = Some i"
| "request_id (StartRemoteForward i _ _ _) = Some i"
| "request_id (CancelRemoteForward i _) = Some i"

subsection \<open>Signals and exit codes\<close>

text \<open>The signal names of the SSH protocol, and the signals of the system by their names.\<close>

datatype Sig =
    Sig_ABRT | Sig_ALRM | Sig_FPE | Sig_HUP | Sig_ILL | Sig_INT | Sig_KILL | Sig_PIPE | Sig_QUIT | Sig_SEGV
  | Sig_TERM | Sig_USR1 | Sig_Custom string

fun map_signal :: "Sig \<Rightarrow> ExecutorSignal option" where
  "map_signal Sig_ABRT = Some ExecAbrt"
| "map_signal Sig_ALRM = Some ExecAlrm"
| "map_signal Sig_FPE = Some ExecFpe"
| "map_signal Sig_HUP = Some ExecHup"
| "map_signal Sig_ILL = Some ExecIll"
| "map_signal Sig_INT = Some ExecInt"
| "map_signal Sig_KILL = Some ExecKill"
| "map_signal Sig_PIPE = Some ExecPipe"
| "map_signal Sig_QUIT = Some ExecQuit"
| "map_signal Sig_SEGV = Some ExecSegv"
| "map_signal Sig_TERM = Some ExecTerm"
| "map_signal Sig_USR1 = Some ExecUsr1"
| "map_signal (Sig_Custom _) = None"

datatype Signal =
    SIGABRT | SIGALRM | SIGFPE | SIGHUP | SIGILL | SIGINT | SIGKILL | SIGPIPE | SIGQUIT | SIGSEGV
  | SIGTERM | SIGUSR1

fun os_signal :: "ExecutorSignal \<Rightarrow> Signal" where
  "os_signal ExecAbrt = SIGABRT"
| "os_signal ExecAlrm = SIGALRM"
| "os_signal ExecFpe = SIGFPE"
| "os_signal ExecHup = SIGHUP"
| "os_signal ExecIll = SIGILL"
| "os_signal ExecInt = SIGINT"
| "os_signal ExecKill = SIGKILL"
| "os_signal ExecPipe = SIGPIPE"
| "os_signal ExecQuit = SIGQUIT"
| "os_signal ExecSegv = SIGSEGV"
| "os_signal ExecTerm = SIGTERM"
| "os_signal ExecUsr1 = SIGUSR1"

text \<open>An exit status: the exit code, or on Unix the signal that ended the process.\<close>

record ExitStatusInfo =
  status_code :: "32 word option"
  status_signal :: "32 word option"

fun exit_status_code :: "platform \<Rightarrow> ExitStatusInfo \<Rightarrow> 32 word" where
  "exit_status_code Unix status =
     (case status_code status of
        Some code \<Rightarrow> code
      | None \<Rightarrow> (case status_signal status of Some signal \<Rightarrow> 128 + signal | None \<Rightarrow> 255))"
| "exit_status_code Windows status = (case status_code status of Some code \<Rightarrow> code | None \<Rightarrow> 255)"

subsection \<open>Framing\<close>

record 'm codec =
  to_vec :: "'m \<Rightarrow> (string, string) result"
  from_slice :: "string \<Rightarrow> (string, 'm) result"
  u32_bytes :: "nat \<Rightarrow> string"
  u32_value :: "string \<Rightarrow> nat"

definition codec_laws :: "'m codec \<Rightarrow> bool" where
  "codec_laws c \<longleftrightarrow>
     (\<forall>m b. to_vec c m = Inr b \<longrightarrow> from_slice c b = Inr m) \<and>
     (\<forall>n < 2 ^ 32. length (u32_bytes c n) = 4 \<and> u32_value c (u32_bytes c n) = n)"

datatype FrameError =
    Encode string
  | FrameTooLarge
  | LengthFailed IoError
  | LengthExceeded nat
  | BodyFailed IoError
  | Decode string
  | WriteFailed IoError

definition MAX_SESSION_MESSAGE_SIZE :: nat where
  "MAX_SESSION_MESSAGE_SIZE = 1024 * 1024"

definition encode_message :: "'m codec \<Rightarrow> 'm \<Rightarrow> (FrameError, string) result" where
  "encode_message c m = map_sum Encode id (to_vec c m)"

definition decode_message :: "'m codec \<Rightarrow> string \<Rightarrow> (FrameError, 'm) result" where
  "decode_message c payload = map_sum Decode id (from_slice c payload)"

type_synonym reader = "string \<times> IoError option"

text \<open>\<open>read_exact\<close>: the next \<open>n\<close> bytes, or the error at the end of the stream.\<close>

fun read_exact :: "nat \<Rightarrow> reader \<Rightarrow> (IoError, string) result \<times> reader" where
  "read_exact n (bytes, end_error) =
     (if n \<le> length bytes then (Inr (take n bytes), (drop n bytes, end_error))
      else (Inl (case end_error of
                   None \<Rightarrow> \<lparr>io_kind = UnexpectedEof, io_message = ''early eof''\<rparr>
                 | Some err \<Rightarrow> err),
            ([], end_error)))"

definition read_session_message :: "'m codec \<Rightarrow> reader \<Rightarrow> (FrameError, 'm option) result \<times> reader" where
  "read_session_message c r =
     (case read_exact 4 r of
        (Inl err, r1) \<Rightarrow>
          (if io_kind err = UnexpectedEof then Inr None else Inl (LengthFailed err), r1)
      | (Inr header, r1) \<Rightarrow>
          let len = u32_value c header in
          if len > MAX_SESSION_MESSAGE_SIZE then (Inl (LengthExceeded len), r1)
          else (case read_exact len r1 of
              (Inl err, r2) \<Rightarrow> (Inl (BodyFailed err), r2)
            | (Inr buffer, r2) \<Rightarrow> (res_bind (decode_message c buffer) (\<lambda>m. Inr (Some m)), r2)))"

definition send_session_message ::
    "'m codec \<Rightarrow> (string \<Rightarrow> ('w, unit) os_call) \<Rightarrow> 'm \<Rightarrow> 'w \<Rightarrow> (FrameError, unit) result \<times> 'w" where
  "send_session_message c write_all m w =
     (case encode_message c m of
        Inl e \<Rightarrow> (Inl e, w)
      | Inr payload \<Rightarrow>
          if 2 ^ 32 \<le> length payload then (Inl FrameTooLarge, w)
          else (case write_all (u32_bytes c (length payload)) w of
              (Inl err, w1) \<Rightarrow> (Inl (WriteFailed err), w1)
            | (Inr _, w1) \<Rightarrow>
                (case write_all payload w1 of
                   (Inl err, w2) \<Rightarrow> (Inl (WriteFailed err), w2)
                 | (Inr _, w2) \<Rightarrow> (Inr (), w2))))"

text \<open>The server's own copies of the two functions.\<close>

definition send_process_message ::
    "'m codec \<Rightarrow> (string \<Rightarrow> ('w, unit) os_call) \<Rightarrow> 'm \<Rightarrow> 'w \<Rightarrow> (FrameError, unit) result \<times> 'w" where
  "send_process_message c write_all m w =
     (case map_sum Encode id (to_vec c m) of
        Inl e \<Rightarrow> (Inl e, w)
      | Inr payload \<Rightarrow>
          if 2 ^ 32 \<le> length payload then (Inl FrameTooLarge, w)
          else (case write_all (u32_bytes c (length payload)) w of
              (Inl err, w1) \<Rightarrow> (Inl (WriteFailed err), w1)
            | (Inr _, w1) \<Rightarrow>
                (case write_all payload w1 of
                   (Inl err, w2) \<Rightarrow> (Inl (WriteFailed err), w2)
                 | (Inr _, w2) \<Rightarrow> (Inr (), w2))))"

definition read_process_message :: "'m codec \<Rightarrow> reader \<Rightarrow> (FrameError, 'm option) result \<times> reader" where
  "read_process_message c r =
     (case read_exact 4 r of
        (Inl err, r1) \<Rightarrow>
          (if io_kind err = UnexpectedEof then Inr None else Inl (LengthFailed err), r1)
      | (Inr header, r1) \<Rightarrow>
          let len = u32_value c header in
          if len > 1024 * 1024 then (Inl (LengthExceeded len), r1)
          else (case read_exact len r1 of
              (Inl err, r2) \<Rightarrow> (Inl (BodyFailed err), r2)
            | (Inr buffer, r2) \<Rightarrow> (res_bind (map_sum Decode id (from_slice c buffer)) (\<lambda>m. Inr (Some m)), r2)))"

text \<open>
  Reading a stream to its end: every message, and the error that stopped the reading, if
  any. Each frame takes at least four bytes, so this ends.
\<close>

lemma read_session_shorter:
  "read_session_message c r = (Inr (Some m), r') \<Longrightarrow> length (fst r') < length (fst r)"
  by (cases r) (auto simp: read_session_message_def res_bind_eq_Inr Let_def split: if_splits sum.splits prod.splits)

function read_all :: "'m codec \<Rightarrow> reader \<Rightarrow> 'm list \<times> FrameError option" where
  "read_all c r =
     (case read_session_message c r of
        (Inl e, r') \<Rightarrow> ([], Some e)
      | (Inr None, r') \<Rightarrow> ([], None)
      | (Inr (Some m), r') \<Rightarrow> (case read_all c r' of (ms, e) \<Rightarrow> (m # ms, e)))"
  by pat_completeness auto

termination read_all
  by (relation "measure (\<lambda>(c, r). length (fst r))") (auto dest!: read_session_shorter [OF sym])

declare read_all.simps [simp del]

subsection \<open>Round trip\<close>

fun send_all ::
    "'m codec \<Rightarrow> (string \<Rightarrow> ('w, unit) os_call) \<Rightarrow> 'm list \<Rightarrow> 'w \<Rightarrow> (FrameError, unit) result \<times> 'w" where
  "send_all c write_all [] w = (Inr (), w)"
| "send_all c write_all (m # ms) w =
     (case send_session_message c write_all m w of
        (Inl e, w') \<Rightarrow> (Inl e, w')
      | (Inr _, w') \<Rightarrow> send_all c write_all ms w')"

definition frame :: "'m codec \<Rightarrow> 'm \<Rightarrow> string" where
  "frame c m = u32_bytes c (length (projr (to_vec c m))) @ projr (to_vec c m)"

definition fits :: "'m codec \<Rightarrow> 'm \<Rightarrow> bool" where
  "fits c m \<longleftrightarrow> (\<exists>b. to_vec c m = Inr b \<and> length b \<le> MAX_SESSION_MESSAGE_SIZE)"

lemma process_messages_same:
  "send_process_message c = send_session_message c" "read_process_message c = read_session_message c"
  unfolding fun_eq_iff send_process_message_def send_session_message_def read_process_message_def
    read_session_message_def encode_message_def decode_message_def MAX_SESSION_MESSAGE_SIZE_def
  by (rule allI refl)+

lemma read_frame:
  assumes "codec_laws c" "fits c m"
  shows "read_session_message c (frame c m @ rest, e) = (Inr (Some m), (rest, e))"
proof -
  obtain b where b: "to_vec c m = Inr b" "length b \<le> MAX_SESSION_MESSAGE_SIZE" using assms(2) by (auto simp: fits_def)
  then have "length b < 2 ^ 32" by (simp add: MAX_SESSION_MESSAGE_SIZE_def)
  with assms(1) b have "length (u32_bytes c (length b)) = 4" "u32_value c (u32_bytes c (length b)) = length b"
    "from_slice c b = Inr m"
    by (auto simp: codec_laws_def)
  with b show ?thesis
    by (simp add: read_session_message_def frame_def decode_message_def)
qed

lemma read_all_frames:
  assumes "codec_laws c" "list_all (fits c) ms"
  shows "read_all c (concat (map (frame c) ms), None) = (ms, None)"
  using assms(2)
proof (induction ms)
  case Nil
  show ?case by (subst read_all.simps) (simp add: read_session_message_def)
next
  case (Cons m ms)
  then show ?case by (subst read_all.simps) (simp add: read_frame [OF assms(1)])
qed

lemma send_session_frame:
  assumes "\<And>b w w'. write_all b w = (Inr (), w') \<Longrightarrow> out w' = out w @ b"
    and "send_session_message c write_all m w = (Inr (), w')"
  shows "out w' = out w @ frame c m"
  using assms(2)
  by (cases "to_vec c m") (auto simp: send_session_message_def encode_message_def frame_def dest!: assms(1)
      split: sum.splits prod.splits if_splits)

lemma send_all_frames:
  assumes "\<And>b w w'. write_all b w = (Inr (), w') \<Longrightarrow> out w' = out w @ b"
    and "send_all c write_all ms w = (Inr (), w')"
  shows "out w' = out w @ concat (map (frame c) ms)"
  using assms(2)
proof (induction ms arbitrary: w)
  case (Cons m ms)
  then obtain w1 where 1: "send_session_message c write_all m w = (Inr (), w1)" "send_all c write_all ms w1 = (Inr (), w')"
    by (auto split: sum.splits prod.splits)
  have "out w1 = out w @ frame c m" using send_session_frame [of write_all out, OF assms(1) 1(1)] by simp
  with Cons.IH [OF 1(2)] show ?case by simp
qed simp

text \<open>
  [C19] Session messages survive framing. If a sequence of messages, each within the size
  limit, was sent completely over a stream that keeps the bytes written to it, then
  reading the stream gives exactly these messages in order and then a clean end. The
  server and the executor read and write the same format.
\<close>

theorem session_messages_round_trip:
  assumes "codec_laws c" "\<And>b w w'. write_all b w = (Inr (), w') \<Longrightarrow> out w' = out w @ b"
    and "send_all c write_all ms w = (Inr (), w')" "out w = []" "list_all (fits c) ms"
  shows "read_all c (out w', None) = (ms, None) \<and>
    read_process_message c = read_session_message c \<and> send_process_message c = send_session_message c"
proof -
  have "out w' = concat (map (frame c) ms)"
    using send_all_frames [of write_all out, OF assms(2,3)] assms(4) by simp
  then show ?thesis using read_all_frames [OF assms(1,5)] by (simp add: process_messages_same)
qed

text \<open>A concrete codec for strings: the text itself, and lengths with the low byte first.\<close>

definition test_codec :: "string codec" where
  "test_codec =
     \<lparr>to_vec = Inr, from_slice = Inr,
      u32_bytes = (\<lambda>n. [char_of (n mod 256), char_of (n div 256 mod 256), char_of (n div 65536 mod 256),
                        char_of (n div 16777216)]),
      u32_value = (\<lambda>b. of_char (b ! 0) + 256 * of_char (b ! 1) + 65536 * of_char (b ! 2) + 16777216 * of_char (b ! 3))\<rparr>"

lemma test_codec_laws: "codec_laws test_codec"
proof -
  have "n mod 256 + 256 * (n div 256 mod 256) + 65536 * (n div 65536 mod 256) + 16777216 * (n div 16777216 mod 256) = n"
    if n: "n < 4294967296" for n :: nat
  proof -
    define a b c where "a = n div 256" "b = a div 256" "c = b div 256"
    have "n div 65536 = b" "n div 16777216 = c" by (simp_all add: a_b_c_def div_mult2_eq [symmetric])
    moreover have "c < 256" using n by (simp add: a_b_c_def div_mult2_eq [symmetric] less_mult_imp_div_less)
    moreover have "n = n mod 256 + 256 * a" "a = a mod 256 + 256 * b" "b = b mod 256 + 256 * c"
      by (simp_all add: a_b_c_def)
    ultimately show ?thesis unfolding a_b_c_def(1) [symmetric] by simp
  qed
  then show ?thesis by (simp add: codec_laws_def test_codec_def)
qed

theorem session_messages_round_trip_witness:
  "read_all test_codec (snd (send_all test_codec (\<lambda>b w. (Inr (), w @ b)) [''one'', ''''] ''''), None) = ([''one'', ''''], None)"
proof -
  obtain w' where w': "send_all test_codec (\<lambda>b w. (Inr (), w @ b)) [''one'', ''''] '''' = (Inr (), w')"
    by (simp add: send_session_message_def encode_message_def test_codec_def)
  have f: "list_all (fits test_codec) [''one'', '''']"
    by (simp add: fits_def test_codec_def MAX_SESSION_MESSAGE_SIZE_def)
  have "read_all test_codec (w', None) = ([''one'', ''''], None)"
    by (rule session_messages_round_trip [where out = "\<lambda>w. w", OF test_codec_laws _ w' _ f, THEN conjunct1]) simp_all
  then show ?thesis unfolding w' by simp
qed

end
