(* ===== verification/Process_Service.thy ===== *)
theory Process_Service
  imports Executor_Protocol
begin

text \<open>
  The process services of the executor (\<open>src/src/executor.rs\<close>): launching a command with
  pipes or on a terminal, the loops that carry its input and output, and the server's
  bridge between these loops and the SSH channel (\<open>src/src/sshd.rs\<close>).

  The operating system and the terminal library are records of operations on a world
  \<open>'w\<close>. Tasks that run side by side meet in channels: a loop takes the sequence of events
  it receives from its channels, in the order it receives them.
\<close>

subsection \<open>Launching\<close>

record Command =
  cmd_program :: path
  cmd_cwd :: path
  cmd_env :: "(string, string) hmap"
  cmd_args :: "string list"

definition command_args :: "ExecMode \<Rightarrow> string option \<Rightarrow> string list" where
  "command_args mode command = (case command of None \<Rightarrow> [] | Some c \<Rightarrow> [command_flag mode, c])"

record SpawnedChild =
  child_pid :: "32 word option"
  child_stdin :: bool
  child_stdout :: bool
  child_stderr :: bool

datatype ServiceError =
    SpawnFailed
  | NoPid
  | MissingPipe string
  | MissingPtySettings
  | OpenPtyFailed
  | SpawnPtyFailed
  | CloneReaderFailed
  | TakeWriterFailed

definition start_piped_process_service ::
    "(Command \<Rightarrow> ('w, SpawnedChild) os_call) \<Rightarrow> ExecutorHello \<Rightarrow> ProcessRequest \<Rightarrow> 'w
       \<Rightarrow> (ServiceError, 32 word) result \<times> 'w" where
  "start_piped_process_service spawn hello request w =
     (let cmd = \<lparr>cmd_program = hello_shell hello, cmd_cwd = hello_home_dir hello, cmd_env = req_env request,
                 cmd_args = command_args (hello_exec_mode hello) (req_command request)\<rparr> in
      (case spawn cmd w of
         (Inl _, w1) \<Rightarrow> (Inl SpawnFailed, w1)
       | (Inr child, w1) \<Rightarrow>
           (case child_pid child of
              None \<Rightarrow> (Inl NoPid, w1)
            | Some pid \<Rightarrow>
                if \<not> child_stdin child then (Inl (MissingPipe ''stdin''), w1)
                else if \<not> child_stdout child then (Inl (MissingPipe ''stdout''), w1)
                else if \<not> child_stderr child then (Inl (MissingPipe ''stderr''), w1)
                else (Inr pid, w1))))"

record 'w PtySystem =
  openpty :: "SerializablePtySize \<Rightarrow> ('w, unit) os_call"
  spawn_command :: "Command \<Rightarrow> ('w, unit) os_call"
  try_clone_reader :: "('w, unit) os_call"
  take_writer :: "('w, unit) os_call"
  process_group_leader :: "'w \<Rightarrow> 32 word option"

definition start_pty_process_service ::
    "platform \<Rightarrow> 'w PtySystem \<Rightarrow> ExecutorHello \<Rightarrow> ProcessRequest \<Rightarrow> 'w
       \<Rightarrow> (ServiceError, 32 word option) result \<times> 'w" where
  "start_pty_process_service p sys hello request w =
     (case req_pty request of
        None \<Rightarrow> (Inl MissingPtySettings, w)
      | Some pty \<Rightarrow>
          (case openpty sys (pty_size pty) w of
             (Inl _, w1) \<Rightarrow> (Inl OpenPtyFailed, w1)
           | (Inr _, w1) \<Rightarrow>
               let cmd = \<lparr>cmd_program = hello_shell hello, cmd_cwd = hello_home_dir hello, cmd_env = req_env request,
                          cmd_args = command_args (hello_exec_mode hello) (req_command request)\<rparr> in
               (case spawn_command sys cmd w1 of
                  (Inl _, w2) \<Rightarrow> (Inl SpawnPtyFailed, w2)
                | (Inr _, w2) \<Rightarrow>
                    (case try_clone_reader sys w2 of
                       (Inl _, w3) \<Rightarrow> (Inl CloneReaderFailed, w3)
                     | (Inr _, w3) \<Rightarrow>
                         (case take_writer sys w3 of
                            (Inl _, w4) \<Rightarrow> (Inl TakeWriterFailed, w4)
                          | (Inr _, w4) \<Rightarrow>
                              (Inr (case p of Unix \<Rightarrow> process_group_leader sys w4 | Windows \<Rightarrow> None), w4))))))"

subsection \<open>Output\<close>

datatype ProcessStream = StdoutStream | StderrStream

fun output_message :: "ProcessStream \<Rightarrow> string \<Rightarrow> ProcessOutput" where
  "output_message StdoutStream chunk = Stdout chunk"
| "output_message StderrStream chunk = Stderr chunk"

text \<open>
  The reading loops, on the results of their reads. A result of zero bytes is the end of
  the stream. The channel they feed stays open until the output loop below has ended.
\<close>

fun read_process_stream :: "ProcessStream \<Rightarrow> (IoError, string) result list \<Rightarrow> ProcessOutput list" where
  "read_process_stream which [] = []"
| "read_process_stream which (Inl err # rs) = []"
| "read_process_stream which (Inr chunk # rs) =
     (if chunk = [] then [] else output_message which chunk # read_process_stream which rs)"

fun run_pty_reader :: "(IoError, string) result list \<Rightarrow> ProcessOutput list" where
  "run_pty_reader [] = []"
| "run_pty_reader (Inl err # rs) = (if io_kind err = Interrupted then run_pty_reader rs else [])"
| "run_pty_reader (Inr chunk # rs) = (if chunk = [] then [] else Stdout chunk # run_pty_reader rs)"

text \<open>
  What the output loop receives: a message of a reader or the end of all readers, and the
  exit code of the child or the loss of the task that waits for it.
\<close>

datatype service_event = OutputReceived "ProcessOutput option" | ExitReceived "32 word option"

type_synonym 'w sender = "ProcessOutput \<Rightarrow> 'w \<Rightarrow> (FrameError, unit) result \<times> 'w"

definition finish_service :: "'w sender \<Rightarrow> ('w \<Rightarrow> 'w) \<Rightarrow> 32 word option \<Rightarrow> 'w \<Rightarrow> 'w" where
  "finish_service send shutdown child_exit w =
     shutdown (case child_exit of None \<Rightarrow> w | Some code \<Rightarrow> snd (send (ExitStatus code) w))"

text \<open>
  The loop has not ended while the result is \<open>None\<close>: it waits for more events. Ending a loop
  also aborts the input task, after which that task's loop below takes no further messages.
\<close>

fun piped_output_loop ::
    "'w sender \<Rightarrow> ('w \<Rightarrow> 'w) \<Rightarrow> ('w \<Rightarrow> 'w) \<Rightarrow> 32 word option \<Rightarrow> bool \<Rightarrow> service_event list \<Rightarrow> 'w \<Rightarrow> 'w option" where
  "piped_output_loop send kill shutdown child_exit output_closed evs w =
     (if output_closed \<and> child_exit \<noteq> None then Some (finish_service send shutdown child_exit w)
      else case evs of
          [] \<Rightarrow> None
        | OutputReceived m # evs' \<Rightarrow>
            if output_closed then piped_output_loop send kill shutdown child_exit output_closed evs' w
            else (case m of
                Some output \<Rightarrow>
                  (case send output w of
                     (Inl _, w') \<Rightarrow> Some (finish_service send shutdown child_exit (kill w'))
                   | (Inr _, w') \<Rightarrow> piped_output_loop send kill shutdown child_exit output_closed evs' w')
              | None \<Rightarrow> piped_output_loop send kill shutdown child_exit True evs' w)
        | ExitReceived r # evs' \<Rightarrow>
            if child_exit \<noteq> None then piped_output_loop send kill shutdown child_exit output_closed evs' w
            else piped_output_loop send kill shutdown
                   (Some (case r of None \<Rightarrow> 255 | Some code \<Rightarrow> code)) output_closed evs' w)"

text \<open>
  The loop of a terminal session. When the child has exited it closes the control side;
  on Windows that also ends the loop, since the terminal may never report its end.
\<close>

fun pty_output_loop ::
    "platform \<Rightarrow> 'w sender \<Rightarrow> ('w \<Rightarrow> 'w) \<Rightarrow> ('w \<Rightarrow> 'w) \<Rightarrow> 32 word option \<Rightarrow> bool \<Rightarrow> service_event list \<Rightarrow> 'w
       \<Rightarrow> 'w option" where
  "pty_output_loop p send send_close shutdown child_exit output_closed evs w =
     (if child_exit \<noteq> None \<and> (p = Windows \<or> output_closed) then Some (finish_service send shutdown child_exit w)
      else case evs of
          [] \<Rightarrow> None
        | OutputReceived m # evs' \<Rightarrow>
            if output_closed then pty_output_loop p send send_close shutdown child_exit output_closed evs' w
            else (case m of
                Some output \<Rightarrow>
                  (case send output w of
                     (Inl _, w') \<Rightarrow> Some (finish_service send shutdown child_exit w')
                   | (Inr _, w') \<Rightarrow> pty_output_loop p send send_close shutdown child_exit output_closed evs' w')
              | None \<Rightarrow> pty_output_loop p send send_close shutdown child_exit True evs' w)
        | ExitReceived r # evs' \<Rightarrow>
            if child_exit \<noteq> None then pty_output_loop p send send_close shutdown child_exit output_closed evs' w
            else pty_output_loop p send send_close shutdown
                   (Some (case r of None \<Rightarrow> 255 | Some code \<Rightarrow> code)) output_closed evs' (send_close w))"

declare piped_output_loop.simps [simp del] pty_output_loop.simps [simp del]

subsection \<open>Input\<close>

record 'w ChildOps =
  stdin_write_all :: "string \<Rightarrow> ('w, unit) os_call"
  stdin_shutdown :: "'w \<Rightarrow> 'w"
  kill_process :: "32 word \<Rightarrow> Signal \<Rightarrow> 'w \<Rightarrow> 'w"
  kill_request :: "'w \<Rightarrow> 'w"

definition send_signal_to_pid :: "'w ChildOps \<Rightarrow> 32 word \<Rightarrow> Signal \<Rightarrow> 'w \<Rightarrow> 'w" where
  "send_signal_to_pid ops pid signal w = (if unat pid < 2 ^ 31 then kill_process ops pid signal w else w)"

text \<open>
  The input loops read the session messages of the stream: its messages, and the error
  that ends them, if any. An error leaves the loop at once.
\<close>

fun handle_piped_service_input ::
    "platform \<Rightarrow> 'w ChildOps \<Rightarrow> 32 word \<Rightarrow> ProcessInput list \<Rightarrow> FrameError option \<Rightarrow> 'w \<Rightarrow> 'w" where
  "handle_piped_service_input p ops pid [] e w = (case e of None \<Rightarrow> stdin_shutdown ops w | Some _ \<Rightarrow> w)"
| "handle_piped_service_input p ops pid (InData bytes # ms) e w =
     (case stdin_write_all ops bytes w of
        (Inl _, w') \<Rightarrow> stdin_shutdown ops w'
      | (Inr _, w') \<Rightarrow> handle_piped_service_input p ops pid ms e w')"
| "handle_piped_service_input p ops pid (InSignal sig # ms) e w =
     handle_piped_service_input p ops pid ms e
       (case p of Unix \<Rightarrow> send_signal_to_pid ops pid (os_signal sig) w | Windows \<Rightarrow> w)"
| "handle_piped_service_input p ops pid (InEof # ms) e w =
     handle_piped_service_input p ops pid ms e (stdin_shutdown ops w)"
| "handle_piped_service_input p ops pid (InClose # ms) e w =
     stdin_shutdown ops (case p of Unix \<Rightarrow> send_signal_to_pid ops pid SIGKILL w | Windows \<Rightarrow> kill_request ops w)"
| "handle_piped_service_input p ops pid (InResize sz # ms) e w = handle_piped_service_input p ops pid ms e w"

datatype PtyControl =
    ControlWrite string
  | ControlResize SerializablePtySize
  | ControlSignal ExecutorSignal
  | ControlEof
  | ControlClose

text \<open>
  Control messages reach the terminal thread while it runs: \<open>n\<close> is how many it will still
  receive. Only a failed write ends the loop.
\<close>

fun handle_pty_service_input ::
    "nat \<Rightarrow> ProcessInput list \<Rightarrow> FrameError option \<Rightarrow> PtyControl list" where
  "handle_pty_service_input n [] e = (case e of None \<Rightarrow> take n [ControlClose] | Some _ \<Rightarrow> [])"
| "handle_pty_service_input n (InData bytes # ms) e =
     (if n = 0 then [] else ControlWrite bytes # handle_pty_service_input (n - 1) ms e)"
| "handle_pty_service_input n (InSignal sig # ms) e =
     take n [ControlSignal sig] @ handle_pty_service_input (n - 1) ms e"
| "handle_pty_service_input n (InResize sz # ms) e =
     take n [ControlResize sz] @ handle_pty_service_input (n - 1) ms e"
| "handle_pty_service_input n (InEof # ms) e = take n [ControlEof] @ handle_pty_service_input (n - 1) ms e"
| "handle_pty_service_input n (InClose # ms) e = take n [ControlClose, ControlClose]"

record 'w PtyOps =
  pty_write_all :: "string \<Rightarrow> ('w, unit) os_call"
  pty_flush :: "('w, unit) os_call"
  pty_resize :: "SerializablePtySize \<Rightarrow> 'w \<Rightarrow> 'w"
  kill_group :: "32 word \<Rightarrow> Signal \<Rightarrow> 'w \<Rightarrow> 'w"
  drop_writer :: "'w \<Rightarrow> 'w"
  killer_kill :: "'w \<Rightarrow> 'w"

fun run_pty_control ::
    "platform \<Rightarrow> 'w PtyOps \<Rightarrow> 32 word option \<Rightarrow> bool \<Rightarrow> PtyControl list \<Rightarrow> 'w \<Rightarrow> 'w" where
  "run_pty_control p ops grp writer [] w = w"
| "run_pty_control p ops grp writer (ControlWrite bytes # cs) w =
     (if writer then
        (case pty_write_all ops bytes w of
           (Inl _, w1) \<Rightarrow> w1
         | (Inr _, w1) \<Rightarrow>
             (case pty_flush ops w1 of
                (Inl _, w2) \<Rightarrow> w2
              | (Inr _, w2) \<Rightarrow> run_pty_control p ops grp writer cs w2))
      else run_pty_control p ops grp writer cs w)"
| "run_pty_control p ops grp writer (ControlResize sz # cs) w =
     run_pty_control p ops grp writer cs (pty_resize ops sz w)"
| "run_pty_control p ops grp writer (ControlSignal sig # cs) w =
     run_pty_control p ops grp writer cs
       (case (p, grp) of (Unix, Some g) \<Rightarrow> kill_group ops g (os_signal sig) w | _ \<Rightarrow> w)"
| "run_pty_control p ops grp writer (ControlEof # cs) w =
     run_pty_control p ops grp False cs (if writer then drop_writer ops w else w)"
| "run_pty_control p ops grp writer (ControlClose # cs) w =
     killer_kill ops (if writer then drop_writer ops w else w)"

subsection \<open>The bridge to the SSH channel\<close>

datatype ChannelMsg =
    ChanData string
  | ChanSignal Sig
  | ChanWindowChange "32 word" "32 word" "32 word" "32 word"
  | ChanEof
  | ChanClose
  | ChanOther

definition clamp_dimension :: "32 word \<Rightarrow> 16 word" where
  "clamp_dimension value = ucast (min (max value 1) 65535)"

type_synonym 'w input_sender = "ProcessInput \<Rightarrow> 'w \<Rightarrow> (FrameError, unit) result \<times> 'w"

fun handle_process_input ::
    "'w input_sender \<Rightarrow> ('w \<Rightarrow> 'w) \<Rightarrow> ChannelMsg list \<Rightarrow> 'w \<Rightarrow> (FrameError, unit) result \<times> 'w" where
  "handle_process_input send shutdown [] w = (Inr (), shutdown w)"
| "handle_process_input send shutdown (ChanData bytes # ms) w =
     (case send (InData bytes) w of
        (Inl e, w') \<Rightarrow> (Inl e, w')
      | (Inr _, w') \<Rightarrow> handle_process_input send shutdown ms w')"
| "handle_process_input send shutdown (ChanSignal sig # ms) w =
     (case map_signal sig of
        None \<Rightarrow> handle_process_input send shutdown ms w
      | Some s \<Rightarrow>
          (case send (InSignal s) w of
             (Inl e, w') \<Rightarrow> (Inl e, w')
           | (Inr _, w') \<Rightarrow> handle_process_input send shutdown ms w'))"
| "handle_process_input send shutdown (ChanWindowChange col_width row_height pix_width pix_height # ms) w =
     (case send (InResize \<lparr>rows = clamp_dimension row_height, cols = clamp_dimension col_width,
                           pixel_width = clamp_dimension pix_width, pixel_height = clamp_dimension pix_height\<rparr>) w of
        (Inl e, w') \<Rightarrow> (Inl e, w')
      | (Inr _, w') \<Rightarrow> handle_process_input send shutdown ms w')"
| "handle_process_input send shutdown (ChanEof # ms) w =
     (case send InEof w of
        (Inl e, w') \<Rightarrow> (Inl e, w')
      | (Inr _, w') \<Rightarrow> handle_process_input send shutdown ms w')"
| "handle_process_input send shutdown (ChanClose # ms) w = (Inr (), shutdown (snd (send InClose w)))"
| "handle_process_input send shutdown (ChanOther # ms) w = handle_process_input send shutdown ms w"

record 'w ChannelOps =
  chan_data :: "string \<Rightarrow> ('w, unit) os_call"
  chan_extended_data :: "nat \<Rightarrow> string \<Rightarrow> ('w, unit) os_call"
  chan_exit_status :: "32 word \<Rightarrow> 'w \<Rightarrow> 'w"
  chan_eof :: "'w \<Rightarrow> 'w"
  chan_close :: "'w \<Rightarrow> 'w"

text \<open>
  The output side of the bridge, on the messages of the service stream and the error that
  ends them. An error leaves the function at once; the input task is aborted otherwise.
\<close>

fun bridge_output :: "'w ChannelOps \<Rightarrow> ProcessOutput list \<Rightarrow> FrameError option \<Rightarrow> 32 word option \<Rightarrow> 'w \<Rightarrow> (FrameError, unit) result \<times> 'w" where
  "bridge_output ops [] (Some e) exit_status w = (Inl e, w)"
| "bridge_output ops [] None exit_status w =
     (Inr (), chan_close ops (chan_eof ops
        (case exit_status of None \<Rightarrow> w | Some code \<Rightarrow> chan_exit_status ops code w)))"
| "bridge_output ops (Stdout bytes # ms) e exit_status w =
     (case chan_data ops bytes w of
        (Inl _, w') \<Rightarrow> bridge_output ops [] None exit_status w'
      | (Inr _, w') \<Rightarrow> bridge_output ops ms e exit_status w')"
| "bridge_output ops (Stderr bytes # ms) e exit_status w =
     (case chan_extended_data ops 1 bytes w of
        (Inl _, w') \<Rightarrow> bridge_output ops [] None exit_status w'
      | (Inr _, w') \<Rightarrow> bridge_output ops ms e exit_status w')"
| "bridge_output ops (ExitStatus code # ms) e exit_status w = bridge_output ops ms e (Some code) w"

definition bridge_process_channel ::
    "'w ChannelOps \<Rightarrow> ProcessOutput codec \<Rightarrow> reader \<Rightarrow> 'w \<Rightarrow> (FrameError, unit) result \<times> 'w" where
  "bridge_process_channel ops c stream w = (case read_all c stream of (ms, e) \<Rightarrow> bridge_output ops ms e None w)"

subsection \<open>From the child to the client\<close>

datatype channel_event = SentData string | SentExtended nat string | SentExit "32 word" | SentEof | SentClose

definition channel_records :: "'w ChannelOps \<Rightarrow> ('w \<Rightarrow> channel_event list) \<Rightarrow> bool" where
  "channel_records ops sent \<longleftrightarrow>
     (\<forall>b w. \<exists>w'. chan_data ops b w = (Inr (), w') \<and> sent w' = sent w @ [SentData b]) \<and>
     (\<forall>n b w. \<exists>w'. chan_extended_data ops n b w = (Inr (), w') \<and> sent w' = sent w @ [SentExtended n b]) \<and>
     (\<forall>c w. sent (chan_exit_status ops c w) = sent w @ [SentExit c]) \<and>
     (\<forall>w. sent (chan_eof ops w) = sent w @ [SentEof]) \<and>
     (\<forall>w. sent (chan_close ops w) = sent w @ [SentClose])"

definition stream_records :: "(string \<Rightarrow> ('w, unit) os_call) \<Rightarrow> ('w \<Rightarrow> 'w) \<Rightarrow> ('w \<Rightarrow> string) \<Rightarrow> bool" where
  "stream_records write_all shutdown out \<longleftrightarrow>
     (\<forall>b w. \<exists>w'. write_all b w = (Inr (), w') \<and> out w' = out w @ b) \<and> (\<forall>w. out (shutdown w) = out w)"

fun outputs :: "service_event list \<Rightarrow> ProcessOutput option list" where
  "outputs [] = []"
| "outputs (OutputReceived m # evs) = m # outputs evs"
| "outputs (ExitReceived r # evs) = outputs evs"

fun exits :: "service_event list \<Rightarrow> 32 word option list" where
  "exits [] = []"
| "exits (OutputReceived m # evs) = exits evs"
| "exits (ExitReceived r # evs) = r # exits evs"

definition exit_code :: "32 word option \<Rightarrow> 32 word" where
  "exit_code r = (case r of None \<Rightarrow> 255 | Some code \<Rightarrow> code)"

lemma send_recorded:
  assumes "stream_records write_all shutdown out" "fits c m"
  shows "\<exists>w'. send_session_message c write_all m w = (Inr (), w') \<and> out w' = out w @ frame c m"
proof -
  obtain b where b: "to_vec c m = Inr b" "length b \<le> MAX_SESSION_MESSAGE_SIZE" using assms(2) by (auto simp: fits_def)
  obtain w1 where w1: "write_all (u32_bytes c (length b)) w = (Inr (), w1)" "out w1 = out w @ u32_bytes c (length b)"
    using assms(1) unfolding stream_records_def by blast
  obtain w2 where w2: "write_all b w1 = (Inr (), w2)" "out w2 = out w1 @ b"
    using assms(1) unfolding stream_records_def by blast
  show ?thesis
    using b w1 w2 by (simp add: send_session_message_def encode_message_def frame_def MAX_SESSION_MESSAGE_SIZE_def)
qed

lemma finish_recorded:
  assumes "stream_records write_all shutdown out" "fits c (ExitStatus code)"
  shows "out (finish_service (send_session_message c write_all) shutdown (Some code) w) = out w @ frame c (ExitStatus code)"
proof -
  obtain w' where "send_session_message c write_all (ExitStatus code) w = (Inr (), w')"
    "out w' = out w @ frame c (ExitStatus code)" using send_recorded [OF assms] by blast
  with assms(1) show ?thesis by (simp add: finish_service_def stream_records_def)
qed

text \<open>Both output loops send all messages in order and then the exit status.\<close>

lemma piped_output_loop_sends:
  assumes rec: "stream_records write_all shutdown out" and fit: "\<And>code. fits c (ExitStatus code)"
    and "list_all (fits c) ms"
    and "outputs evs = (if ended then [] else map Some ms @ [None])"
    and "exits evs = (case ex of None \<Rightarrow> [r] | Some _ \<Rightarrow> [])"
  shows "\<exists>w'. piped_output_loop (send_session_message c write_all) kill shutdown ex ended evs w = Some w' \<and>
    out w' = out w @ (if ended then [] else concat (map (frame c) ms)) @
      frame c (ExitStatus (case ex of None \<Rightarrow> exit_code r | Some code \<Rightarrow> code))"
  using assms(3-5)
proof (induction evs arbitrary: ms ended ex w)
  case Nil
  then obtain code where "ex = Some code" "ended" by (cases ex; cases ended) auto
  then show ?case by (subst piped_output_loop.simps) (simp add: finish_recorded [OF rec fit])
next
  case (Cons ev evs)
  show ?case
  proof (cases ev)
    case ev: (OutputReceived m)
    with Cons.prems have open': "\<not> ended" by (auto split: if_splits)
    show ?thesis
    proof (cases m)
      case None
      with ev open' Cons.prems have "ms = []" by (cases ms) auto
      with Cons.IH [of "[]" True ex w] ev None open' Cons.prems show ?thesis
        by (subst piped_output_loop.simps) simp
    next
      case (Some x)
      with ev open' Cons.prems obtain ms' where ms: "ms = x # ms'" by (cases ms) auto
      obtain w1 where w1: "send_session_message c write_all x w = (Inr (), w1)" "out w1 = out w @ frame c x"
        using send_recorded [OF rec, of c x w] Cons.prems(1) ms by auto
      from Cons.IH [of ms' False ex w1] ev Some open' ms w1 Cons.prems show ?thesis
        by (subst piped_output_loop.simps) simp
    qed
  next
    case ev: (ExitReceived r')
    with Cons.prems have "ex = None" "r' = r" by (auto split: option.splits)
    with Cons.IH [of ms ended "Some (exit_code r)" w] ev Cons.prems show ?thesis
      by (subst piped_output_loop.simps) (simp add: exit_code_def)
  qed
qed

lemma pty_output_loop_sends:
  assumes rec: "stream_records write_all shutdown out" and fit: "\<And>code. fits c (ExitStatus code)"
    and keep: "\<And>w. out (send_close w) = out w" and "list_all (fits c) ms"
    and "outputs evs = (if ended then [] else map Some ms @ [None])"
    and "exits evs = (case ex of None \<Rightarrow> [r] | Some _ \<Rightarrow> [])"
  shows "\<exists>w'. pty_output_loop Unix (send_session_message c write_all) send_close shutdown ex ended evs w = Some w' \<and>
    out w' = out w @ (if ended then [] else concat (map (frame c) ms)) @
      frame c (ExitStatus (case ex of None \<Rightarrow> exit_code r | Some code \<Rightarrow> code))"
  using assms(4-6)
proof (induction evs arbitrary: ms ended ex w)
  case Nil
  then obtain code where "ex = Some code" "ended" by (cases ex; cases ended) auto
  then show ?case by (subst pty_output_loop.simps) (simp add: finish_recorded [OF rec fit])
next
  case (Cons ev evs)
  show ?case
  proof (cases ev)
    case ev: (OutputReceived m)
    with Cons.prems have open': "\<not> ended" by (auto split: if_splits)
    show ?thesis
    proof (cases m)
      case None
      with ev open' Cons.prems have "ms = []" by (cases ms) auto
      with Cons.IH [of "[]" True ex w] ev None open' Cons.prems show ?thesis
        by (subst pty_output_loop.simps) simp
    next
      case (Some x)
      with ev open' Cons.prems obtain ms' where ms: "ms = x # ms'" by (cases ms) auto
      obtain w1 where w1: "send_session_message c write_all x w = (Inr (), w1)" "out w1 = out w @ frame c x"
        using send_recorded [OF rec, of c x w] Cons.prems(1) ms by auto
      from Cons.IH [of ms' False ex w1] ev Some open' ms w1 Cons.prems show ?thesis
        by (subst pty_output_loop.simps) simp
    qed
  next
    case ev: (ExitReceived r')
    with Cons.prems have "ex = None" "r' = r" by (auto split: option.splits)
    with Cons.IH [of ms ended "Some (exit_code r)" "send_close w"] ev Cons.prems show ?thesis
      by (subst pty_output_loop.simps) (simp add: exit_code_def keep)
  qed
qed

fun channel_event_of :: "ProcessOutput \<Rightarrow> channel_event" where
  "channel_event_of (Stdout bytes) = SentData bytes"
| "channel_event_of (Stderr bytes) = SentExtended 1 bytes"
| "channel_event_of (ExitStatus code) = SentExit code"

definition is_chunk :: "ProcessOutput \<Rightarrow> bool" where
  "is_chunk m = (case m of ExitStatus _ \<Rightarrow> False | _ \<Rightarrow> True)"

lemma bridge_output_records:
  assumes "channel_records ops sent" "list_all is_chunk ms"
  shows "\<exists>v'. bridge_output ops (ms @ [ExitStatus code]) None None v = (Inr (), v') \<and>
    sent v' = sent v @ map channel_event_of ms @ [SentExit code, SentEof, SentClose]"
  using assms(2)
proof (induction ms arbitrary: v)
  case Nil
  show ?case using assms(1) by (simp add: channel_records_def)
next
  case (Cons m ms)
  obtain v1 where v1: "(case m of Stdout b \<Rightarrow> chan_data ops b v | Stderr b \<Rightarrow> chan_extended_data ops 1 b v
       | ExitStatus _ \<Rightarrow> (Inr (), v)) = (Inr (), v1)" "sent v1 = sent v @ [channel_event_of m]"
    using assms(1) Cons.prems unfolding channel_records_def
    by (cases m) (auto simp: is_chunk_def, metis+)
  from Cons.IH [of v1] v1 Cons.prems show ?case by (cases m) (auto simp: is_chunk_def)
qed

fun read_bytes :: "(IoError, string) result list \<Rightarrow> string" where
  "read_bytes [] = []"
| "read_bytes (Inl err # rs) = []"
| "read_bytes (Inr chunk # rs) = (if chunk = [] then [] else chunk @ read_bytes rs)"

fun sent_data :: "channel_event list \<Rightarrow> string" where
  "sent_data [] = []"
| "sent_data (SentData b # es) = b @ sent_data es"
| "sent_data (e # es) = sent_data es"

fun sent_extended :: "channel_event list \<Rightarrow> string" where
  "sent_extended [] = []"
| "sent_extended (SentExtended n b # es) = b @ sent_extended es"
| "sent_extended (e # es) = sent_extended es"

text \<open>The reading loops use a buffer of 8192 bytes.\<close>

definition small_reads :: "(IoError, string) result list \<Rightarrow> bool" where
  "small_reads rs \<longleftrightarrow> list_all (\<lambda>r. case r of Inl _ \<Rightarrow> True | Inr b \<Rightarrow> length b \<le> 8192) rs"

definition small_output :: "ProcessOutput \<Rightarrow> bool" where
  "small_output m = (case m of Stdout b \<Rightarrow> length b \<le> 8192 | Stderr b \<Rightarrow> length b \<le> 8192 | ExitStatus _ \<Rightarrow> True)"

lemma output_message_chunk:
  "is_chunk (output_message which chunk)" "small_output (output_message which chunk) \<longleftrightarrow> length chunk \<le> 8192"
  by (cases which; simp add: is_chunk_def small_output_def)+

lemma read_process_stream_ok:
  "list_all is_chunk (read_process_stream which rs)"
  "small_reads rs \<longrightarrow> list_all small_output (read_process_stream which rs)"
  by (induction which rs rule: read_process_stream.induct) (auto simp: output_message_chunk small_reads_def)

lemma read_process_stream_bytes:
  "sent_data (map channel_event_of (read_process_stream StdoutStream rs)) = read_bytes rs"
  "sent_extended (map channel_event_of (read_process_stream StdoutStream rs)) = []"
  "sent_extended (map channel_event_of (read_process_stream StderrStream rs)) = read_bytes rs"
  "sent_data (map channel_event_of (read_process_stream StderrStream rs)) = []"
  by (induction rs rule: read_bytes.induct) auto

lemma list_all_shuffles: "ms \<in> shuffles xs ys \<Longrightarrow> list_all P xs \<Longrightarrow> list_all P ys \<Longrightarrow> list_all P ms"
  using set_shuffles [of ms xs ys] by (auto simp: list_all_iff)

lemma sent_data_shuffles:
  assumes "ms \<in> shuffles xs ys"
    and "sent_extended (map channel_event_of xs) = []" "\<And>m. m \<in> set xs \<Longrightarrow> \<exists>b. m = Stdout b"
    and "\<And>m. m \<in> set ys \<Longrightarrow> \<exists>b. m = Stderr b"
  shows "sent_data (map channel_event_of ms) = sent_data (map channel_event_of xs) \<and>
    sent_extended (map channel_event_of ms) = sent_extended (map channel_event_of ys)"
  using assms
proof (induction xs ys arbitrary: ms rule: shuffles.induct)
  case (3 x xs y ys)
  obtain b where x: "x = Stdout b" using "3.prems"(3) by auto
  obtain b' where y: "y = Stderr b'" using "3.prems"(4) by auto
  from "3.prems"(1) consider (l) ms' where "ms = x # ms'" "ms' \<in> shuffles xs (y # ys)"
    | (r) ms' where "ms = y # ms'" "ms' \<in> shuffles (x # xs) ys" by auto
  then show ?case
  proof cases
    case l
    with "3.IH"(1) [of ms'] "3.prems" x y show ?thesis by auto
  next
    case r
    with "3.IH"(2) [of ms'] "3.prems" x y show ?thesis by auto
  qed
next
  case (1 ys)
  then have "\<forall>m \<in> set ys. \<exists>b. m = Stderr b" by auto
  then have "sent_data (map channel_event_of ys) = []" by (induction ys) auto
  with 1 show ?case by simp
next
  case (2 xs)
  then show ?case by simp
qed

lemma read_process_stream_kind:
  "m \<in> set (read_process_stream StdoutStream rs) \<Longrightarrow> \<exists>b. m = Stdout b"
  "m \<in> set (read_process_stream StderrStream rs) \<Longrightarrow> \<exists>b. m = Stderr b"
  by (induction rs rule: read_bytes.induct) (auto split: if_splits)

text \<open>
  [C15] Everything the child writes reaches the client. Whatever the interleaving of the
  two reading tasks and of the child's exit, the service loop ends and the bridge delivers
  on the SSH channel exactly the bytes read from standard output and from standard error,
  each in order, then the exit status, the end of file and the close, in this order.
\<close>

theorem child_output_reaches_client:
  assumes "codec_laws c" "\<And>m. small_output m \<Longrightarrow> fits c m"
    and "stream_records write_all shutdown out" "out w = []" "channel_records ops sent"
    and "small_reads rs1" "small_reads rs2"
    and "ms \<in> shuffles (read_process_stream StdoutStream rs1) (read_process_stream StderrStream rs2)"
    and "outputs evs = map Some ms @ [None]" "exits evs = [r]"
  shows "\<exists>w' v' es. piped_output_loop (send_session_message c write_all) kill shutdown None False evs w = Some w' \<and>
    bridge_process_channel ops c (out w', None) v = (Inr (), v') \<and>
    sent v' = sent v @ es @ [SentExit (exit_code r), SentEof, SentClose] \<and>
    sent_data es = read_bytes rs1 \<and> sent_extended es = read_bytes rs2"
proof -
  have chunks: "list_all is_chunk ms"
    using list_all_shuffles [OF assms(8)] read_process_stream_ok(1) by blast
  have "list_all small_output ms"
    using list_all_shuffles [OF assms(8)] read_process_stream_ok(2) assms(6,7) by blast
  then have fit: "list_all (fits c) ms" using assms(2) by (simp add: list_all_iff)
  have exit_fits: "fits c (ExitStatus code)" for code using assms(2) by (simp add: small_output_def)
  obtain w' where w': "piped_output_loop (send_session_message c write_all) kill shutdown None False evs w = Some w'"
    "out w' = concat (map (frame c) (ms @ [ExitStatus (exit_code r)]))"
    using piped_output_loop_sends [where evs = evs and ended = False and ex = None and r = r and kill = kill and w = w,
        OF assms(3) exit_fits fit] assms(4,9,10) by auto
  have "read_all c (out w', None) = (ms @ [ExitStatus (exit_code r)], None)"
    unfolding w'(2) using fit exit_fits by (intro read_all_frames [OF assms(1)]) simp
  moreover obtain v' where "bridge_output ops (ms @ [ExitStatus (exit_code r)]) None None v = (Inr (), v')"
    "sent v' = sent v @ map channel_event_of ms @ [SentExit (exit_code r), SentEof, SentClose]"
    using bridge_output_records [OF assms(5) chunks] by blast
  moreover have "sent_data (map channel_event_of ms) = read_bytes rs1"
    "sent_extended (map channel_event_of ms) = read_bytes rs2"
    using sent_data_shuffles [OF assms(8) read_process_stream_bytes(2) read_process_stream_kind]
    by (simp_all add: read_process_stream_bytes)
  ultimately show ?thesis using w'(1) unfolding bridge_process_channel_def
    by (intro exI [of _ w'] exI [of _ v'] exI [of _ "map channel_event_of ms"]) simp
qed

text \<open>A concrete codec, a stream and a channel that keep what they are given.\<close>

definition output_codec :: "ProcessOutput codec" where
  "output_codec =
     \<lparr>to_vec = (\<lambda>m. Inr (case m of Stdout b \<Rightarrow> CHR ''o'' # b | Stderr b \<Rightarrow> CHR ''e'' # b
                | ExitStatus code \<Rightarrow> CHR ''x'' # u32_bytes test_codec (unat code))),
      from_slice = (\<lambda>b. case b of [] \<Rightarrow> Inl ''empty''
         | x # b' \<Rightarrow> Inr (if x = CHR ''o'' then Stdout b' else if x = CHR ''e'' then Stderr b'
                          else ExitStatus (of_nat (u32_value test_codec b')))),
      u32_bytes = u32_bytes test_codec, u32_value = u32_value test_codec\<rparr>"

lemma test_u32: "n < 2 ^ 32 \<Longrightarrow> length (u32_bytes test_codec n) = 4 \<and> u32_value test_codec (u32_bytes test_codec n) = n"
  using test_codec_laws by (simp add: codec_laws_def)

lemma test_u32_word: "of_nat (u32_value test_codec (u32_bytes test_codec (unat c))) = (c :: 32 word)"
  "length (u32_bytes test_codec (unat (c :: 32 word))) = 4"
proof -
  have "unat (c :: 32 word) < 2 ^ 32" for c using unsigned_less [of c, where ?'a = nat] by simp
  from test_u32 [OF this] show "of_nat (u32_value test_codec (u32_bytes test_codec (unat c))) = c"
    "length (u32_bytes test_codec (unat c)) = 4" for c :: "32 word" by simp_all
qed

lemma output_codec_laws: "codec_laws output_codec"
  using test_u32 by (simp add: codec_laws_def output_codec_def test_u32_word split: ProcessOutput.split)

lemma output_codec_fits: "small_output m \<Longrightarrow> fits output_codec m"
  by (cases m) (auto simp: small_output_def fits_def output_codec_def MAX_SESSION_MESSAGE_SIZE_def test_u32_word)

definition test_write :: "string \<Rightarrow> (string, unit) os_call" where
  "test_write b w = (Inr (), w @ b)"

definition test_channel :: "channel_event list ChannelOps" where
  "test_channel =
     \<lparr>chan_data = (\<lambda>b w. (Inr (), w @ [SentData b])), chan_extended_data = (\<lambda>n b w. (Inr (), w @ [SentExtended n b])),
      chan_exit_status = (\<lambda>c w. w @ [SentExit c]), chan_eof = (\<lambda>w. w @ [SentEof]), chan_close = (\<lambda>w. w @ [SentClose])\<rparr>"

lemma test_write_records: "stream_records test_write id id"
  by (simp add: stream_records_def test_write_def)

lemma test_channel_records: "channel_records test_channel id"
  by (simp add: channel_records_def test_channel_def)

theorem child_output_reaches_client_witness:
  "\<exists>w' v' es. piped_output_loop (send_session_message output_codec test_write) id id None False
      [OutputReceived (Some (Stdout ''hi'')), ExitReceived (Some 3), OutputReceived (Some (Stderr ''no'')), OutputReceived None] [] =
      Some w' \<and>
    bridge_process_channel test_channel output_codec (w', None) [] = (Inr (), v') \<and>
    v' = es @ [SentExit 3, SentEof, SentClose] \<and> sent_data es = ''hi'' \<and> sent_extended es = ''no''"
proof -
  have "[Stdout ''hi'', Stderr ''no''] \<in> shuffles (read_process_stream StdoutStream [Inr ''hi'', Inr []])
      (read_process_stream StderrStream [Inr ''no'', Inr []])" by simp
  from child_output_reaches_client [OF output_codec_laws output_codec_fits test_write_records _ test_channel_records _ _ this,
      of "[]" "[OutputReceived (Some (Stdout ''hi'')), ExitReceived (Some 3), OutputReceived (Some (Stderr ''no'')), OutputReceived None]"
        "Some 3" id "[]"]
  show ?thesis by (simp add: small_reads_def exit_code_def)
qed

subsection \<open>From the client to the child\<close>

datatype child_action = WroteStdin string | ShutStdin | Signalled "32 word" Signal

definition child_records :: "'w ChildOps \<Rightarrow> ('w \<Rightarrow> child_action list) \<Rightarrow> bool" where
  "child_records ops acts \<longleftrightarrow>
     (\<forall>b w. \<exists>w'. stdin_write_all ops b w = (Inr (), w') \<and> acts w' = acts w @ [WroteStdin b]) \<and>
     (\<forall>w. acts (stdin_shutdown ops w) = acts w @ [ShutStdin]) \<and>
     (\<forall>pid s w. acts (kill_process ops pid s w) = acts w @ [Signalled pid s])"

fun client_actions :: "32 word \<Rightarrow> ChannelMsg list \<Rightarrow> child_action list" where
  "client_actions pid [] = [ShutStdin]"
| "client_actions pid (ChanData bytes # ms) = WroteStdin bytes # client_actions pid ms"
| "client_actions pid (ChanSignal sig # ms) =
     (case map_signal sig of None \<Rightarrow> [] | Some s \<Rightarrow> [Signalled pid (os_signal s)]) @ client_actions pid ms"
| "client_actions pid (ChanEof # ms) = ShutStdin # client_actions pid ms"
| "client_actions pid (ChanClose # ms) = [Signalled pid SIGKILL, ShutStdin]"
| "client_actions pid (ChanWindowChange _ _ _ _ # ms) = client_actions pid ms"
| "client_actions pid (ChanOther # ms) = client_actions pid ms"

fun input_messages :: "ChannelMsg list \<Rightarrow> ProcessInput list" where
  "input_messages [] = []"
| "input_messages (ChanData bytes # ms) = InData bytes # input_messages ms"
| "input_messages (ChanSignal sig # ms) =
     (case map_signal sig of None \<Rightarrow> [] | Some s \<Rightarrow> [InSignal s]) @ input_messages ms"
| "input_messages (ChanWindowChange cw rh pw ph # ms) =
     InResize \<lparr>rows = clamp_dimension rh, cols = clamp_dimension cw,
               pixel_width = clamp_dimension pw, pixel_height = clamp_dimension ph\<rparr> # input_messages ms"
| "input_messages (ChanEof # ms) = InEof # input_messages ms"
| "input_messages (ChanClose # ms) = [InClose]"
| "input_messages (ChanOther # ms) = input_messages ms"

lemma handle_process_input_sends:
  assumes "stream_records write_all shutdown out" "list_all (fits c) (input_messages ms)"
  shows "\<exists>w'. handle_process_input (send_session_message c write_all) shutdown ms w = (Inr (), w') \<and>
    out w' = out w @ concat (map (frame c) (input_messages ms))"
  using assms(2)
proof (induction ms arbitrary: w rule: input_messages.induct)
  case 1
  then show ?case using assms(1) by (simp add: stream_records_def)
next
  case (2 bytes ms)
  obtain w1 where "send_session_message c write_all (InData bytes) w = (Inr (), w1)" "out w1 = out w @ frame c (InData bytes)"
    using send_recorded [OF assms(1), of c "InData bytes" w] 2 by auto
  with "2.IH" [of w1] "2.prems" show ?case by auto
next
  case (3 sig ms)
  show ?case
  proof (cases "map_signal sig")
    case (Some s)
    obtain w1 where "send_session_message c write_all (InSignal s) w = (Inr (), w1)" "out w1 = out w @ frame c (InSignal s)"
      using send_recorded [OF assms(1), of c "InSignal s" w] 3 Some by auto
    with "3.IH" [of w1] "3.prems" Some show ?thesis by auto
  qed (use 3 in auto)
next
  case (4 cw rh pw ph ms)
  let ?m = "InResize \<lparr>rows = clamp_dimension rh, cols = clamp_dimension cw,
               pixel_width = clamp_dimension pw, pixel_height = clamp_dimension ph\<rparr>"
  obtain w1 where "send_session_message c write_all ?m w = (Inr (), w1)" "out w1 = out w @ frame c ?m"
    using send_recorded [OF assms(1), of c ?m w] 4 by auto
  with "4.IH" [of w1] "4.prems" show ?case by auto
next
  case (5 ms)
  obtain w1 where "send_session_message c write_all InEof w = (Inr (), w1)" "out w1 = out w @ frame c InEof"
    using send_recorded [OF assms(1), of c InEof w] 5 by auto
  with "5.IH" [of w1] "5.prems" show ?case by auto
next
  case (6 ms)
  obtain w1 where "send_session_message c write_all InClose w = (Inr (), w1)" "out w1 = out w @ frame c InClose"
    using send_recorded [OF assms(1), of c InClose w] 6 by auto
  with assms(1) show ?case by (auto simp: stream_records_def)
next
  case (7 ms)
  then show ?case by simp
qed

lemma handle_piped_input_acts:
  assumes "child_records ops acts" "unat pid < 2 ^ 31"
  shows "acts (handle_piped_service_input Unix ops pid (input_messages ms) None w) = acts w @ client_actions pid ms"
proof (induction ms arbitrary: w rule: input_messages.induct)
  case (2 bytes ms)
  obtain w1 where "stdin_write_all ops bytes w = (Inr (), w1)" "acts w1 = acts w @ [WroteStdin bytes]"
    using assms(1) unfolding child_records_def by blast
  with 2 show ?case by simp
next
  case (3 sig ms)
  then show ?case using assms by (cases "map_signal sig") (auto simp: child_records_def send_signal_to_pid_def)
qed (use assms in \<open>auto simp: child_records_def send_signal_to_pid_def\<close>)


definition input_codec :: "ProcessInput codec" where
  "input_codec =
     \<lparr>to_vec = (\<lambda>m. case m of InData b \<Rightarrow> Inr (CHR ''d'' # b) | InEof \<Rightarrow> Inr ''f'' | InClose \<Rightarrow> Inr ''c''
         | InSignal s \<Rightarrow> (if s = ExecTerm then Inr ''t'' else Inl ''signal'') | InResize _ \<Rightarrow> Inl ''size''),
      from_slice = (\<lambda>b. case b of [] \<Rightarrow> Inl ''empty''
         | x # b' \<Rightarrow> Inr (if x = CHR ''d'' then InData b' else if x = CHR ''f'' then InEof
                          else if x = CHR ''c'' then InClose else InSignal ExecTerm)),
      u32_bytes = u32_bytes test_codec, u32_value = u32_value test_codec\<rparr>"

lemma input_codec_laws: "codec_laws input_codec"
  using test_u32 by (simp add: codec_laws_def input_codec_def split: ProcessInput.split)

definition test_child :: "child_action list ChildOps" where
  "test_child =
     \<lparr>stdin_write_all = (\<lambda>b w. (Inr (), w @ [WroteStdin b])), stdin_shutdown = (\<lambda>w. w @ [ShutStdin]),
      kill_process = (\<lambda>pid s w. w @ [Signalled pid s]), kill_request = id\<rparr>"

lemma test_child_records: "child_records test_child id"
  by (simp add: child_records_def test_child_def)


end
