(* ===== verification/Session_Tasks.thy ===== *)
theory Session_Tasks
  imports Process_Service
begin

text \<open>
  The tasks around a session's process (\<open>start_piped_process_service\<close> and
  \<open>start_pty_process_service\<close> in \<open>src/src/executor.rs\<close>): who waits for the child, when it is
  killed, and that the loops which serve it end.

  The task that waits for a piped child also listens on a kill channel. Receiving from it
  returns when a message was sent, and also when every sender is gone.
\<close>

subsection \<open>The kill channel\<close>

record KillChannel =
  input_sender :: bool
  outer_sender :: bool
  kill_requested :: bool

text \<open>
  One sender belongs to the input task. The other is moved into the output task on Windows
  only; elsewhere no task holds it and it is dropped when the start of the service returns.
\<close>

definition kill_channel_new :: "platform \<Rightarrow> KillChannel" where
  "kill_channel_new p = \<lparr>input_sender = True, outer_sender = (p = Windows), kill_requested = False\<rparr>"

datatype kill_event = InputTaskEnded | OutputTaskEnded | KillSent

fun kill_apply :: "kill_event \<Rightarrow> KillChannel \<Rightarrow> KillChannel" where
  "kill_apply InputTaskEnded ch = ch\<lparr>input_sender := False\<rparr>"
| "kill_apply OutputTaskEnded ch = ch\<lparr>outer_sender := False\<rparr>"
| "kill_apply KillSent ch = ch\<lparr>kill_requested := True\<rparr>"

definition kill_ready :: "KillChannel \<Rightarrow> bool" where
  "kill_ready ch \<longleftrightarrow> kill_requested ch \<or> \<not> input_sender ch \<and> \<not> outer_sender ch"

subsection \<open>Waiting for the child\<close>

definition waited_code :: "platform \<Rightarrow> (unit, ExitStatusInfo) result \<Rightarrow> 32 word" where
  "waited_code p r = (case r of Inl _ \<Rightarrow> 255 | Inr status \<Rightarrow> exit_status_code p status)"

datatype wait_event = ChannelEvent kill_event | ChildWaited "(unit, ExitStatusInfo) result"

text \<open>The task has a result once the child has been waited for; \<open>killing\<close> is the second branch of its select.\<close>

fun wait_task :: "platform \<Rightarrow> ('w \<Rightarrow> 'w) \<Rightarrow> bool \<Rightarrow> KillChannel \<Rightarrow> wait_event list \<Rightarrow> 'w \<Rightarrow> 32 word option \<times> 'w" where
  "wait_task p start_kill killing ch [] w = (None, w)"
| "wait_task p start_kill killing ch (ChildWaited r # evs) w = (Some (waited_code p r), w)"
| "wait_task p start_kill killing ch (ChannelEvent e # evs) w =
     (let ch' = kill_apply e ch in
      if \<not> killing \<and> kill_ready ch' then wait_task p start_kill True ch' evs (start_kill w)
      else wait_task p start_kill killing ch' evs w)"

definition pty_waited_code :: "(unit, 32 word) result \<Rightarrow> 32 word" where
  "pty_waited_code r = (case r of Inl _ \<Rightarrow> 255 | Inr code \<Rightarrow> code)"

subsection \<open>When a piped child is killed\<close>

definition kill_due :: "platform \<Rightarrow> kill_event list \<Rightarrow> bool" where
  "kill_due p es \<longleftrightarrow> KillSent \<in> set es \<or> InputTaskEnded \<in> set es \<and> (p = Unix \<or> OutputTaskEnded \<in> set es)"

lemma kill_channel_after:
  "kill_ready (fold kill_apply es (kill_channel_new p)) = kill_due p es"
proof -
  have "fold kill_apply es ch =
      \<lparr>input_sender = input_sender ch \<and> InputTaskEnded \<notin> set es, outer_sender = outer_sender ch \<and> OutputTaskEnded \<notin> set es,
       kill_requested = kill_requested ch \<or> KillSent \<in> set es\<rparr>" for ch :: KillChannel
  proof (induction es arbitrary: ch)
    case (Cons e es)
    then show ?case by (cases e) auto
  qed simp
  then show ?thesis by (cases p) (auto simp: kill_ready_def kill_due_def kill_channel_new_def)
qed

lemma kill_ready_mono: "kill_ready ch \<Longrightarrow> kill_ready (kill_apply e ch)"
  by (cases e) (auto simp: kill_ready_def)

lemma wait_task_killing:
  "wait_task p start_kill True ch (map ChannelEvent es @ ChildWaited r # rest) w = (Some (waited_code p r), w)"
  by (induction es arbitrary: ch) simp_all

lemma wait_task_run:
  "\<not> kill_ready ch \<Longrightarrow>
     wait_task p start_kill False ch (map ChannelEvent es @ ChildWaited r # rest) w =
       (Some (waited_code p r), if kill_ready (fold kill_apply es ch) then start_kill w else w)"
proof (induction es arbitrary: ch)
  case (Cons e es)
  have "kill_ready (fold kill_apply es ch')" if "kill_ready ch'" for ch'
    using that by (induction es arbitrary: ch') (simp_all add: kill_ready_mono)
  with Cons show ?case by (simp add: Let_def wait_task_killing)
qed simp

text \<open>
  [C27] When the executor kills a piped child. Whatever happens on the kill channel before the
  child has been waited for, the waiting task delivers the child's exit code, and has killed
  the child, once, exactly if a kill was requested or nobody was left to request one. On Unix
  nobody is left as soon as the input task has ended. So the child dies with its client, but
  also when a write to its standard input fails: the input loop then ends without having sent
  a signal, and a child that only closed its standard input is killed in the middle of its
  work.
\<close>

theorem child_killed_when_input_ends:
  "wait_task p start_kill False (kill_channel_new p) (map ChannelEvent es @ ChildWaited r # rest) v =
     (Some (waited_code p r), if kill_due p es then start_kill v else v) \<and>
   kill_due Unix [InputTaskEnded] \<and>
   (stdin_write_all ops bytes w = (Inl err, w') \<longrightarrow>
      handle_piped_service_input Unix ops pid (InData bytes # ms) e w = stdin_shutdown ops w')"
proof -
  have "\<not> kill_ready (kill_channel_new p)" by (simp add: kill_ready_def kill_channel_new_def)
  from wait_task_run [OF this, of p start_kill es r rest v]
  have "wait_task p start_kill False (kill_channel_new p) (map ChannelEvent es @ ChildWaited r # rest) v =
      (Some (waited_code p r), if kill_due p es then start_kill v else v)"
    by (simp add: kill_channel_after)
  moreover have "kill_due Unix [InputTaskEnded]" by (simp add: kill_due_def)
  ultimately show ?thesis by simp
qed

theorem child_killed_when_input_ends_witness:
  "wait_task Unix Suc False (kill_channel_new Unix) [ChannelEvent InputTaskEnded, ChildWaited (Inl ())] 0 = (Some 255, 1) \<and>
   handle_piped_service_input Unix \<lparr>stdin_write_all = (\<lambda>b w. (Inl \<lparr>io_kind = OtherIo, io_message = []\<rparr>, w)), stdin_shutdown = Suc,
     kill_process = (\<lambda>_ _ w. w + 10), kill_request = id\<rparr> 42 [InData ''x'', InClose] None 0 = Suc 0"
proof -
  let ?ops = "\<lparr>stdin_write_all = (\<lambda>b w. (Inl \<lparr>io_kind = OtherIo, io_message = []\<rparr>, w)), stdin_shutdown = Suc,
     kill_process = (\<lambda>_ _ w. w + 10), kill_request = id\<rparr> :: nat ChildOps"
  show ?thesis
    using child_killed_when_input_ends [of Unix Suc "[InputTaskEnded]" "Inl ()" "[]" 0 ?ops "''x''" 0 _ 0 42 "[InClose]" None]
    by (simp add: waited_code_def)
qed

subsection \<open>The output loops end\<close>

lemma piped_loop_ends:
  assumes "output_closed \<or> OutputReceived None \<in> set evs" "child_exit \<noteq> None \<or> (\<exists>r. ExitReceived r \<in> set evs)"
  shows "\<exists>w'. piped_output_loop send kill shutdown child_exit output_closed evs w = Some w'"
  using assms
proof (induction evs arbitrary: child_exit output_closed w)
  case Nil
  then show ?case by (subst piped_output_loop.simps) auto
next
  case (Cons ev evs)
  show ?case
    using Cons.prems by (subst piped_output_loop.simps) (auto intro!: Cons.IH split: service_event.split option.split sum.split prod.split)
qed

lemma pty_loop_ends_unix:
  assumes "output_closed \<or> OutputReceived None \<in> set evs" "child_exit \<noteq> None \<or> (\<exists>r. ExitReceived r \<in> set evs)"
  shows "\<exists>w'. pty_output_loop Unix send send_close shutdown child_exit output_closed evs w = Some w'"
  using assms
proof (induction evs arbitrary: child_exit output_closed w)
  case Nil
  then show ?case by (subst pty_output_loop.simps) auto
next
  case (Cons ev evs)
  show ?case
    using Cons.prems by (subst pty_output_loop.simps) (auto intro!: Cons.IH split: service_event.split option.split sum.split prod.split)
qed

lemma pty_loop_ends_windows:
  assumes "child_exit \<noteq> None \<or> (\<exists>r. ExitReceived r \<in> set evs)"
  shows "\<exists>w'. pty_output_loop Windows send send_close shutdown child_exit output_closed evs w = Some w'"
  using assms
proof (induction evs arbitrary: child_exit output_closed w)
  case Nil
  then show ?case by (subst pty_output_loop.simps) auto
next
  case (Cons ev evs)
  show ?case
    using Cons.prems by (subst pty_output_loop.simps) (auto intro!: Cons.IH split: service_event.split option.split sum.split prod.split)
qed



end
