(* ===== verification/Executor_Spawn.thy ===== *)
theory Executor_Spawn
  imports Executor_Protocol
begin

text \<open>
  The start of the executor process on Unix (\<open>ExecutorClient::spawn\<close> in
  \<open>src/src/executor.rs\<close>): the control socket, its descriptors in both processes, the
  handshake, and the end of the process with its client.

  Only the descriptors of the control socket are tracked, each with the end of the socket it
  refers to and its close-on-exec flag. A \<open>Command\<close> keeps the descriptor it was given for the
  child's standard input until it is dropped, which is at the end of the function. Receiving
  on a socket whose other end nobody holds any more is an error; while somebody holds it and
  sends nothing, receiving blocks.
\<close>

subsection \<open>Descriptors\<close>

datatype endpoint = ParentEnd | ChildEnd

record FdEntry =
  fd_end :: endpoint
  cloexec :: bool

record Parent =
  parent_fds :: "(nat, FdEntry) hmap"
  next_fd :: nat
  executor_fds :: "(nat, FdEntry) hmap option"

datatype SpawnError =
    SocketPairFailed
  | CloexecFailed
  | ProgramUnknown
  | SpawnFailed
  | DupFailed
  | HelloSendFailed
  | HelloRecvFailed
  | NotAcknowledged
  | NoRuntime
  | ThreadPanic

text \<open>What the executor does in the handshake.\<close>

datatype ExecutorBehaviour = Acknowledges | RepliesOther | RepliesGarbled | StaysSilent | DiesEarly

text \<open>What the system answers; calls to \<open>fcntl\<close> are told apart by their
  descriptor and calls to \<open>dup\<close> by the new one. A refused reader thread is a panic of
  \<open>thread::spawn\<close>, which drops the same values as an error would.\<close>

record SpawnEnv =
  pair_ok :: bool
  fcntl_ok :: "nat \<Rightarrow> bool"
  current_exe :: "path option"
  fork_ok :: bool
  dup_ok :: "nat \<Rightarrow> bool"
  send_ok :: bool
  behaviour :: ExecutorBehaviour
  in_runtime :: bool
  thread_ok :: bool

text \<open>A step may fail, and may block for ever (\<open>None\<close>).\<close>

type_synonym 'a step = "Parent \<Rightarrow> (SpawnError, 'a) result option \<times> Parent"

definition sp_bind :: "'a step \<Rightarrow> ('a \<Rightarrow> 'b step) \<Rightarrow> 'b step" where
  "sp_bind f g s =
     (case f s of
        (None, s1) \<Rightarrow> (None, s1)
      | (Some (Inl e), s1) \<Rightarrow> (Some (Inl e), s1)
      | (Some (Inr a), s1) \<Rightarrow> g a s1)"

definition sp_check :: "bool \<Rightarrow> SpawnError \<Rightarrow> unit step" where
  "sp_check ok e s = (Some (if ok then Inr () else Inl e), s)"

definition open_fd :: "endpoint \<Rightarrow> nat step" where
  "open_fd p s =
     (Some (Inr (next_fd s)),
      s\<lparr>parent_fds := hm_insert (next_fd s) \<lparr>fd_end = p, cloexec = False\<rparr> (parent_fds s), next_fd := next_fd s + 1\<rparr>)"

definition close_fd :: "nat \<Rightarrow> unit step" where
  "close_fd f s = (Some (Inr ()), s\<lparr>parent_fds := hm_remove f (parent_fds s)\<rparr>)"

definition socketpair :: "SpawnEnv \<Rightarrow> (nat \<times> nat) step" where
  "socketpair env =
     sp_bind (sp_check (pair_ok env) SocketPairFailed) (\<lambda>_.
     sp_bind (open_fd ParentEnd) (\<lambda>a. sp_bind (open_fd ChildEnd) (\<lambda>b s. (Some (Inr (a, b)), s))))"

definition set_cloexec :: "SpawnEnv \<Rightarrow> nat \<Rightarrow> unit step" where
  "set_cloexec env f =
     sp_bind (sp_check (fcntl_ok env f) CloexecFailed) (\<lambda>_ s.
       (Some (Inr ()),
        (case hm_get (parent_fds s) f of
           None \<Rightarrow> s
         | Some x \<Rightarrow> s\<lparr>parent_fds := hm_insert f (x\<lparr>cloexec := True\<rparr>) (parent_fds s)\<rparr>)))"

definition dup :: "SpawnEnv \<Rightarrow> nat \<Rightarrow> nat step" where
  "dup env f =
     (\<lambda>s. sp_bind (sp_check (dup_ok env (next_fd s)) DupFailed) (\<lambda>_ s.
       open_fd (case hm_get (parent_fds s) f of None \<Rightarrow> ParentEnd | Some x \<Rightarrow> fd_end x) s) s)"

definition executor_program :: "SpawnEnv \<Rightarrow> path option \<Rightarrow> path step" where
  "executor_program env program_override s =
     (case program_override of
        Some program \<Rightarrow> (Some (Inr program), s)
      | None \<Rightarrow> (Some (ok_or ProgramUnknown (current_exe env)), s))"

text \<open>The new process has its end as standard input, and every descriptor not closed on exec.\<close>

definition spawn_command :: "SpawnEnv \<Rightarrow> unit step" where
  "spawn_command env =
     sp_bind (sp_check (fork_ok env) SpawnFailed) (\<lambda>_ s.
       (Some (Inr ()),
        s\<lparr>executor_fds := Some ((0, \<lparr>fd_end = ChildEnd, cloexec = False\<rparr>) #
            filter (\<lambda>x. \<not> cloexec (snd x)) (parent_fds s))\<rparr>))"

definition receive_hello :: "SpawnEnv \<Rightarrow> unit step" where
  "receive_hello env s =
     (case behaviour env of
        Acknowledges \<Rightarrow> (Some (Inr ()), s)
      | RepliesOther \<Rightarrow> (Some (Inl NotAcknowledged), s)
      | RepliesGarbled \<Rightarrow> (Some (Inl HelloRecvFailed), s)
      | StaysSilent \<Rightarrow> (None, s)
      | DiesEarly \<Rightarrow>
          (let s1 = s\<lparr>executor_fds := None\<rparr> in
           if list_ex (\<lambda>x. fd_end (snd x) = ChildEnd) (parent_fds s1) then (None, s1) else (Some (Inl HelloRecvFailed), s1)))"

definition spawn_steps :: "SpawnEnv \<Rightarrow> path option \<Rightarrow> (nat \<times> nat) step" where
  "spawn_steps env program_override =
     sp_bind (socketpair env) (\<lambda>(parent_fd, child_fd).
     sp_bind (set_cloexec env parent_fd) (\<lambda>_.
     sp_bind (set_cloexec env child_fd) (\<lambda>_.
     sp_bind (executor_program env program_override) (\<lambda>program.
     sp_bind (spawn_command env) (\<lambda>_.
     sp_bind (dup env parent_fd) (\<lambda>read_fd.
     sp_bind (dup env parent_fd) (\<lambda>write_fd.
     sp_bind (close_fd parent_fd) (\<lambda>_.
     sp_bind (set_cloexec env read_fd) (\<lambda>_.
     sp_bind (set_cloexec env write_fd) (\<lambda>_.
     sp_bind (sp_check (send_ok env) HelloSendFailed) (\<lambda>_.
     sp_bind (receive_hello env) (\<lambda>_.
     sp_bind (sp_check (in_runtime env) NoRuntime) (\<lambda>_.
     sp_bind (sp_check (thread_ok env) ThreadPanic) (\<lambda>_ s.
       (Some (Inr (read_fd, write_fd)), s)))))))))))))))"

text \<open>
  At the end of the function everything it owns is dropped: after a failure all
  descriptors, after a success all but the two of the client.
\<close>

definition executor_spawn :: "SpawnEnv \<Rightarrow> path option \<Rightarrow> (nat \<times> nat) step" where
  "executor_spawn env program_override s =
     (case spawn_steps env program_override s of
        (None, s1) \<Rightarrow> (None, s1)
      | (Some (Inl e), s1) \<Rightarrow> (Some (Inl e), s1\<lparr>parent_fds := []\<rparr>)
      | (Some (Inr (r, w)), s1) \<Rightarrow>
          (Some (Inr (r, w)), s1\<lparr>parent_fds := filter (\<lambda>x. fst x = r \<or> fst x = w) (parent_fds s1)\<rparr>))"

definition parent_new :: Parent where
  "parent_new = \<lparr>parent_fds = [], next_fd = 3, executor_fds = None\<rparr>"

subsection \<open>Dropping the client\<close>

datatype child_state = ChildRunning | ChildKilled | ChildReaped

text \<open>The child, if the client still has it, is killed and then waited for; failures of both are ignored.\<close>

definition client_inner_drop :: "bool \<Rightarrow> bool \<Rightarrow> child_state option \<Rightarrow> child_state option" where
  "client_inner_drop kill_ok wait_ok child =
     (case child of
        None \<Rightarrow> None
      | Some st \<Rightarrow> let st1 = (if kill_ok then ChildKilled else st) in Some (if wait_ok then ChildReaped else st1))"

subsection \<open>Descriptors after the start\<close>

lemma sp_bind_Inr:
  "sp_bind f g s = (Some (Inr b), s') \<longleftrightarrow> (\<exists>a s1. f s = (Some (Inr a), s1) \<and> g a s1 = (Some (Inr b), s'))"
  by (auto simp: sp_bind_def split: option.splits sum.splits prod.splits)

lemma sp_bind_None:
  "sp_bind f g s = (None, s') \<longleftrightarrow> f s = (None, s') \<or> (\<exists>a s1. f s = (Some (Inr a), s1) \<and> g a s1 = (None, s'))"
  by (auto simp: sp_bind_def split: option.splits sum.splits prod.splits)

lemma sp_check_eq:
  "sp_check ok e s = (Some (Inr u), s') \<longleftrightarrow> ok \<and> s' = s"
  "sp_check ok e s \<noteq> (None, s')"
  by (auto simp: sp_check_def)

lemmas spawn_defs = socketpair_def set_cloexec_def dup_def executor_program_def spawn_command_def open_fd_def close_fd_def

text \<open>The state in which the parent waits for the acknowledgement.\<close>

definition handshake_state :: Parent where
  "handshake_state =
     \<lparr>parent_fds = [(4, \<lparr>fd_end = ChildEnd, cloexec = True\<rparr>), (5, \<lparr>fd_end = ParentEnd, cloexec = True\<rparr>),
                    (6, \<lparr>fd_end = ParentEnd, cloexec = True\<rparr>)],
      next_fd = 7, executor_fds = Some [(0, \<lparr>fd_end = ChildEnd, cloexec = False\<rparr>)]\<rparr>"

definition steps_succeed :: "SpawnEnv \<Rightarrow> path option \<Rightarrow> bool" where
  "steps_succeed env program_override \<longleftrightarrow>
     pair_ok env \<and> list_all (fcntl_ok env) [3, 4, 5, 6] \<and> (program_override \<noteq> None \<or> current_exe env \<noteq> None) \<and>
     fork_ok env \<and> dup_ok env 5 \<and> dup_ok env 6 \<and> send_ok env"

lemma spawn_to_handshake:
  assumes "steps_succeed env ovr"
  shows "spawn_steps env ovr parent_new =
    sp_bind (receive_hello env) (\<lambda>_.
    sp_bind (sp_check (in_runtime env) NoRuntime) (\<lambda>_.
    sp_bind (sp_check (thread_ok env) ThreadPanic) (\<lambda>_ s. (Some (Inr (5, 6)), s)))) handshake_state"
proof -
  have "\<exists>q. \<forall>s. executor_program env ovr s = (Some (Inr q), s)"
    using assms by (cases ovr) (auto simp: executor_program_def steps_succeed_def ok_or_def)
  then obtain q where q: "\<And>s. executor_program env ovr s = (Some (Inr q), s)"
    by blast
  show ?thesis
    using assms unfolding spawn_steps_def
    by (simp add: steps_succeed_def socketpair_def set_cloexec_def dup_def spawn_command_def open_fd_def close_fd_def
        parent_new_def handshake_state_def sp_bind_def sp_check_def q)
qed

lemma spawn_needs_steps:
  assumes "spawn_steps env ovr parent_new = (Some (Inr rw), s) \<or> spawn_steps env ovr parent_new = (None, s)"
  shows "steps_succeed env ovr"
  using assms
  by (auto simp: spawn_steps_def spawn_defs sp_bind_Inr sp_bind_None sp_check_eq parent_new_def steps_succeed_def ok_or_def
      split: option.splits)

lemma spawn_from_handshake:
  assumes "steps_succeed env ovr"
  shows "executor_spawn env ovr parent_new =
    (case behaviour env of
       DiesEarly \<Rightarrow> (None, handshake_state\<lparr>executor_fds := None\<rparr>)
     | StaysSilent \<Rightarrow> (None, handshake_state)
     | RepliesOther \<Rightarrow> (Some (Inl NotAcknowledged), handshake_state\<lparr>parent_fds := []\<rparr>)
     | RepliesGarbled \<Rightarrow> (Some (Inl HelloRecvFailed), handshake_state\<lparr>parent_fds := []\<rparr>)
     | Acknowledges \<Rightarrow>
         if \<not> in_runtime env then (Some (Inl NoRuntime), handshake_state\<lparr>parent_fds := []\<rparr>)
         else if \<not> thread_ok env then (Some (Inl ThreadPanic), handshake_state\<lparr>parent_fds := []\<rparr>)
         else (Some (Inr (5, 6)), handshake_state\<lparr>parent_fds := tl (parent_fds handshake_state)\<rparr>))"
  unfolding executor_spawn_def spawn_to_handshake [OF assms]
  by (cases "behaviour env") (simp_all add: sp_bind_def sp_check_def receive_hello_def handshake_state_def)

lemma spawn_fails_before_handshake:
  assumes "\<not> steps_succeed env ovr"
  shows "\<exists>e s. executor_spawn env ovr parent_new = (Some (Inl e), s) \<and> parent_fds s = []"
proof -
  obtain r s where rs: "spawn_steps env ovr parent_new = (r, s)"
    by fastforce
  then obtain e where "r = Some (Inl e)"
    using spawn_needs_steps [of env ovr _ s] assms by (metis not_None_eq sum.exhaust)
  then show ?thesis
    using rs by (simp add: executor_spawn_def)
qed

text \<open>
  [C23] The executor is started with exactly the descriptors it needs. When the start succeeds,
  the daemon keeps two descriptors of its end of the control socket and none of the other end,
  both closed on exec, so that no process started later inherits the control channel; the
  executor holds its own end as standard input and no descriptor of the daemon's end. When the
  start fails, no descriptor is left. The start blocks for ever exactly when everything up to
  the handshake works and the executor stays silent or dies before it acknowledges: its death
  is not noticed, because the daemon waits on a socket whose other end it still holds itself,
  in the \<open>Command\<close> it started the executor with.
\<close>

theorem executor_spawn_descriptors:
  "(case executor_spawn env program_override parent_new of
      (Some (Inr (r, w)), s) \<Rightarrow>
        parent_fds s = [(r, \<lparr>fd_end = ParentEnd, cloexec = True\<rparr>), (w, \<lparr>fd_end = ParentEnd, cloexec = True\<rparr>)] \<and>
        executor_fds s = Some [(0, \<lparr>fd_end = ChildEnd, cloexec = False\<rparr>)]
    | (Some (Inl e), s) \<Rightarrow> parent_fds s = []
    | (None, s) \<Rightarrow> list_ex (\<lambda>x. fd_end (snd x) = ChildEnd) (parent_fds s)) \<and>
   (fst (executor_spawn env program_override parent_new) = None \<longleftrightarrow>
      steps_succeed env program_override \<and> behaviour env \<in> {StaysSilent, DiesEarly})"
proof (cases "steps_succeed env program_override")
  case True
  then show ?thesis
    by (cases "behaviour env") (simp_all add: spawn_from_handshake handshake_state_def)
next
  case False
  then show ?thesis
    using spawn_fails_before_handshake [OF False] by auto
qed

end
