(* ===== verification/Service_Channel.thy ===== *)
theory Service_Channel
  imports Executor_Spawn
begin

text \<open>
  The stream of a service on Unix (\<open>src/src/executor.rs\<close>): the pair of sockets the client makes
  for every request that starts a service, the end it sends to the executor, and what becomes
  of both ends on every path. Then the adoption of a received connection, and the copying
  between two streams, which is the runtime's.

  A descriptor that is dropped is closed. A descriptor in a message is a new one for the
  receiver; the sender's own is dropped after sending, whether that succeeds or not.
\<close>

subsection \<open>Streams\<close>

record StreamFd =
  stream_end :: endpoint
  stream_cloexec :: bool
  nonblocking :: bool

datatype StreamError = PairFailed | NonblockingFailed | AdoptFailed

definition unix_stream_from_std :: "bool \<Rightarrow> bool \<Rightarrow> StreamFd \<Rightarrow> (StreamError, StreamFd) result" where
  "unix_stream_from_std set_ok adopt_ok s =
     (if \<not> set_ok then Inl NonblockingFailed
      else if \<not> adopt_ok then Inl AdoptFailed
      else Inr (s\<lparr>nonblocking := True\<rparr>))"

definition unix_stream_from_fd :: "bool \<Rightarrow> bool \<Rightarrow> StreamFd \<Rightarrow> (StreamError, StreamFd) result" where
  "unix_stream_from_fd set_ok adopt_ok fd = unix_stream_from_std set_ok adopt_ok fd"

definition tcp_stream_from_fd :: "bool \<Rightarrow> bool \<Rightarrow> StreamFd \<Rightarrow> (StreamError, StreamFd) result" where
  "tcp_stream_from_fd set_ok adopt_ok fd =
     (if \<not> set_ok then Inl NonblockingFailed
      else if \<not> adopt_ok then Inl AdoptFailed
      else Inr (fd\<lparr>nonblocking := True\<rparr>))"

text \<open>What the system answers on both sides, and whether the executor could start the service.\<close>

record ChannelEnv =
  stream_pair_ok :: bool
  daemon_set_ok :: bool
  daemon_adopt_ok :: bool
  request_sent :: bool
  request_received :: bool
  executor_set_ok :: bool
  executor_adopt_ok :: bool
  service_started :: bool
  answer_received :: bool

text \<open>The library makes both sockets of a pair close-on-exec.\<close>

definition unix_service_channel :: "ChannelEnv \<Rightarrow> (StreamError, StreamFd \<times> StreamFd) result" where
  "unix_service_channel env =
     (if \<not> stream_pair_ok env then Inl PairFailed
      else case unix_stream_from_std (daemon_set_ok env) (daemon_adopt_ok env)
                  \<lparr>stream_end = ParentEnd, stream_cloexec = True, nonblocking = False\<rparr> of
          Inl e \<Rightarrow> Inl e
        | Inr parent \<Rightarrow> Inr (parent, \<lparr>stream_end = ChildEnd, stream_cloexec = True, nonblocking = False\<rparr>))"

text \<open>Adopting a stream fails or makes it non-blocking; it never changes which stream it is.\<close>

lemma adopted_stream:
  "unix_stream_from_fd set_ok adopt_ok fd = Inr s \<longleftrightarrow> set_ok \<and> adopt_ok \<and> s = fd\<lparr>nonblocking := True\<rparr>"
  "tcp_stream_from_fd set_ok adopt_ok fd = Inr s \<longleftrightarrow> set_ok \<and> adopt_ok \<and> s = fd\<lparr>nonblocking := True\<rparr>"
  by (auto simp: unix_stream_from_fd_def unix_stream_from_std_def tcp_stream_from_fd_def)

subsection \<open>A request for a service\<close>

text \<open>
  The executor's part: the descriptor it receives is close-on-exec. It answers whether the
  service runs, and keeps the stream only then.
\<close>

definition adopt_service :: "ChannelEnv \<Rightarrow> StreamFd \<Rightarrow> bool \<times> StreamFd list" where
  "adopt_service env child =
     (case unix_stream_from_fd (executor_set_ok env) (executor_adopt_ok env) (child\<lparr>stream_cloexec := True\<rparr>) of
        Inl _ \<Rightarrow> (False, [])
      | Inr stream \<Rightarrow> if service_started env then (True, [stream]) else (False, []))"

datatype ServiceFailure = ChannelFailed StreamError | RequestNotSent | NoAnswer | Refused

text \<open>The client's part; the result comes with the ends the daemon and the executor then hold.\<close>

definition open_service :: "ChannelEnv \<Rightarrow> (ServiceFailure, StreamFd) result \<times> StreamFd list \<times> StreamFd list" where
  "open_service env =
     (case unix_service_channel env of
        Inl e \<Rightarrow> (Inl (ChannelFailed e), [], [])
      | Inr (parent, child) \<Rightarrow>
          if \<not> request_sent env then (Inl RequestNotSent, [], [])
          else
            (case (if request_received env then adopt_service env child else (False, [])) of
               (started, held) \<Rightarrow>
                 if \<not> answer_received env \<or> \<not> request_received env then (Inl NoAnswer, [], held)
                 else if started then (Inr parent, [parent], held)
                 else (Inl Refused, [], held)))"

subsection \<open>Copying between two streams\<close>

text \<open>The runtime copies in both directions and reports the numbers of bytes, which are ignored.\<close>

definition proxy_byte_streams :: "(IoError, 64 word \<times> 64 word) result \<Rightarrow> (IoError, unit) result" where
  "proxy_byte_streams copied = map_sum id (\<lambda>_. ()) copied"

definition proxy_stream :: "(IoError, 64 word \<times> 64 word) result \<Rightarrow> (IoError, unit) result" where
  "proxy_stream copied = map_sum id (\<lambda>_. ()) copied"

subsection \<open>Each end has one owner\<close>


end
