(* ===== verification/Preauth.thy ===== *)
theory Preauth
  imports Admission Metrics Rust_Io
begin

text \<open>
  A connection before authentication (\<open>src/src/sshd.rs\<close>): the stream that enforces the
  login grace time and the key exchange timeout, and the context that holds the admission
  slot.

  A poll of the stream looks at the clock and at the shared \<open>authenticated\<close> flag several
  times while other tasks run. Its argument \<open>m\<close> gives the flag and the clock at each of
  these moments, in the order of the code. The socket is the field \<open>inner\<close> with the polls
  of the socket as parameters, and \<open>fires\<close> is the timer of the runtime: whether a timer
  with a given deadline has completed at a given time.
\<close>

subsection \<open>The timed stream\<close>

datatype 'a poll = Ready 'a | Pending

type_synonym moment = "bool \<times> instant"

record 'w PreauthTimedStream =
  inner :: 'w
  login_grace_deadline :: instant
  kex_start_timeout :: duration
  kex_start_deadline :: "instant option"
  kex_started :: bool
  client_banner_complete :: bool
  client_banner_len :: nat
  timer :: instant

definition stream_new :: "'w \<Rightarrow> instant \<Rightarrow> duration \<Rightarrow> 'w PreauthTimedStream" where
  "stream_new w deadline kex_timeout =
     \<lparr>inner = w, login_grace_deadline = deadline, kex_start_timeout = kex_timeout,
      kex_start_deadline = None, kex_started = False, client_banner_complete = False,
      client_banner_len = 0, timer = deadline\<rparr>"

definition login_grace_timeout_error :: IoError where
  "login_grace_timeout_error =
     \<lparr>io_kind = TimedOut, io_message = ''login grace time exceeded before authentication completed''\<rparr>"

definition kex_start_timeout_error :: IoError where
  "kex_start_timeout_error =
     \<lparr>io_kind = TimedOut,
      io_message = ''key exchange did not start before the configured timeout elapsed''\<rparr>"

definition current_deadline :: "'w PreauthTimedStream \<Rightarrow> instant" where
  "current_deadline s =
     (case kex_start_deadline s of
        Some deadline \<Rightarrow>
          if \<not> kex_started s then min deadline (login_grace_deadline s) else login_grace_deadline s
      | None \<Rightarrow> login_grace_deadline s)"

definition reset_timer :: "'w PreauthTimedStream \<Rightarrow> 'w PreauthTimedStream" where
  "reset_timer s = s\<lparr>timer := current_deadline s\<rparr>"

fun check_timeout :: "moment \<Rightarrow> 'w PreauthTimedStream \<Rightarrow> IoError option" where
  "check_timeout (authenticated, now) s =
     (if authenticated then None
      else if login_grace_deadline s \<le> now then Some login_grace_timeout_error
      else case kex_start_deadline s of
          Some deadline \<Rightarrow>
            if \<not> kex_started s \<and> deadline \<le> now then Some kex_start_timeout_error else None
        | None \<Rightarrow> None)"

text \<open>The loop over the bytes of the client's banner: its length so far, and whether it ended.\<close>

fun scan_banner :: "string \<Rightarrow> nat \<Rightarrow> nat \<times> bool" where
  "scan_banner [] n = (n, False)"
| "scan_banner (b # bs) n =
     (let n' = min (n + 1) u64_max in if b = CHR 0x0A then (n', True) else scan_banner bs n')"

fun note_client_bytes ::
    "platform \<Rightarrow> moment \<Rightarrow> string \<Rightarrow> 'w PreauthTimedStream \<Rightarrow> 'w PreauthTimedStream option" where
  "note_client_bytes p (authenticated, now) bytes s =
     (if authenticated \<or> bytes = [] then Some s
      else if \<not> client_banner_complete s then
        (case scan_banner bytes (client_banner_len s) of
           (n, False) \<Rightarrow> Some (s\<lparr>client_banner_len := n\<rparr>)
         | (n, True) \<Rightarrow>
             do {
               deadline \<leftarrow> instant_add p now (kex_start_timeout s);
               Some (reset_timer (s\<lparr>client_banner_len := n, client_banner_complete := True,
                                   kex_start_deadline := Some deadline\<rparr>))
             })
      else if \<not> kex_started s then Some (reset_timer (s\<lparr>kex_started := True, kex_start_deadline := None\<rparr>))
      else Some s)"

definition poll_deadline ::
    "(instant \<Rightarrow> instant \<Rightarrow> bool) \<Rightarrow> moment \<Rightarrow> moment \<Rightarrow> moment \<Rightarrow> 'w PreauthTimedStream
       \<Rightarrow> (IoError, 'a) result poll" where
  "poll_deadline fires m1 m2 m3 s =
     (case check_timeout m1 s of
        Some err \<Rightarrow> Ready (Inl err)
      | None \<Rightarrow>
          if fires (timer s) (snd m2) then
            Ready (Inl (case check_timeout m3 s of None \<Rightarrow> login_grace_timeout_error | Some err \<Rightarrow> err))
          else Pending)"

type_synonym ('w, 'a) inner_poll = "'w \<Rightarrow> (IoError, 'a) result poll \<times> 'w"

definition poll_read ::
    "platform \<Rightarrow> (instant \<Rightarrow> instant \<Rightarrow> bool) \<Rightarrow> ('w, string) inner_poll \<Rightarrow> (nat \<Rightarrow> moment)
       \<Rightarrow> 'w PreauthTimedStream \<Rightarrow> ((IoError, string) result poll \<times> 'w PreauthTimedStream) option" where
  "poll_read p fires inner_read m s =
     (if fst (m 0) then (case inner_read (inner s) of (r, w) \<Rightarrow> Some (r, s\<lparr>inner := w\<rparr>))
      else case check_timeout (m 1) s of
          Some err \<Rightarrow> Some (Ready (Inl err), s)
        | None \<Rightarrow>
            (case inner_read (inner s) of (r, w) \<Rightarrow>
               let s1 = s\<lparr>inner := w\<rparr> in
               (case r of
                  Ready (Inr bytes) \<Rightarrow>
                    if bytes \<noteq> [] then map_option (Pair r) (note_client_bytes p (m 2) bytes s1)
                    else Some (r, s1)
                | Ready (Inl err) \<Rightarrow> Some (r, s1)
                | Pending \<Rightarrow> Some (poll_deadline fires (m 2) (m 3) (m 4) s1, s1))))"

definition poll_write ::
    "(instant \<Rightarrow> instant \<Rightarrow> bool) \<Rightarrow> (string \<Rightarrow> ('w, nat) inner_poll) \<Rightarrow> (nat \<Rightarrow> moment) \<Rightarrow> string
       \<Rightarrow> 'w PreauthTimedStream \<Rightarrow> (IoError, nat) result poll \<times> 'w PreauthTimedStream" where
  "poll_write fires inner_write m buf s =
     (if fst (m 0) then (case inner_write buf (inner s) of (r, w) \<Rightarrow> (r, s\<lparr>inner := w\<rparr>))
      else case check_timeout (m 1) s of
          Some err \<Rightarrow> (Ready (Inl err), s)
        | None \<Rightarrow>
            (case inner_write buf (inner s) of (r, w) \<Rightarrow>
               let s1 = s\<lparr>inner := w\<rparr> in
               (case r of
                  Ready _ \<Rightarrow> (r, s1)
                | Pending \<Rightarrow>
                    ((case poll_deadline fires (m 2) (m 3) (m 4) s1 of
                        Ready (Inl err) \<Rightarrow> Ready (Inl err)
                      | Ready (Inr ()) \<Rightarrow> Ready (Inr 0)
                      | Pending \<Rightarrow> Pending), s1))))"

definition poll_flush ::
    "(instant \<Rightarrow> instant \<Rightarrow> bool) \<Rightarrow> ('w, unit) inner_poll \<Rightarrow> (nat \<Rightarrow> moment)
       \<Rightarrow> 'w PreauthTimedStream \<Rightarrow> (IoError, unit) result poll \<times> 'w PreauthTimedStream" where
  "poll_flush fires inner_flush m s =
     (if fst (m 0) then (case inner_flush (inner s) of (r, w) \<Rightarrow> (r, s\<lparr>inner := w\<rparr>))
      else case check_timeout (m 1) s of
          Some err \<Rightarrow> (Ready (Inl err), s)
        | None \<Rightarrow>
            (case inner_flush (inner s) of (r, w) \<Rightarrow>
               let s1 = s\<lparr>inner := w\<rparr> in
               (case r of
                  Ready _ \<Rightarrow> (r, s1)
                | Pending \<Rightarrow> (poll_deadline fires (m 2) (m 3) (m 4) s1, s1))))"

definition poll_shutdown ::
    "('w, unit) inner_poll \<Rightarrow> 'w PreauthTimedStream \<Rightarrow> (IoError, unit) result poll \<times> 'w PreauthTimedStream" where
  "poll_shutdown inner_shutdown s = (case inner_shutdown (inner s) of (r, w) \<Rightarrow> (r, s\<lparr>inner := w\<rparr>))"

subsection \<open>The admission slot of the connection\<close>

text \<open>
  What a connection shares with the rest of the daemon: the \<open>authenticated\<close> flag, the
  admission controller, the metrics and the receiver of the success notification.
\<close>

record ConnShared =
  authenticated :: bool
  controller :: AdmissionController
  conn_metrics :: MetricsState
  success_received :: bool

record PreauthContext =
  admission_guard :: "AdmissionGuard option"
  auth_success_tx :: bool

definition context_new :: "AdmissionGuard \<Rightarrow> ConnShared \<Rightarrow> PreauthContext \<times> ConnShared" where
  "context_new guard sh =
     (\<lparr>admission_guard = Some guard, auth_success_tx = True\<rparr>,
      sh\<lparr>conn_metrics := preauth_connection_opened (conn_metrics sh)\<rparr>)"

definition context_mark_authenticated ::
    "platform \<Rightarrow> instant \<Rightarrow> instant \<Rightarrow> PreauthContext \<times> ConnShared
       \<Rightarrow> unit option \<times> PreauthContext \<times> ConnShared" where
  "context_mark_authenticated p now now' = (\<lambda>(c, sh).
     (let sh0 = sh\<lparr>authenticated := True\<rparr>;
          c0 = c\<lparr>admission_guard := None\<rparr>;
          (ok, sh1) =
            (case admission_guard c of
               None \<Rightarrow> (Some (), sh0)
             | Some guard \<Rightarrow>
                 (case mark_authenticated p (controller sh0) guard now now' of
                    (None, ctl) \<Rightarrow> (None, sh0\<lparr>controller := ctl\<rparr>)
                  | (Some _, ctl) \<Rightarrow>
                      (Some (), sh0\<lparr>controller := ctl,
                         conn_metrics := preauth_connection_closed (conn_metrics sh0)\<rparr>)))
      in case ok of
           None \<Rightarrow> (None, c0, sh1)
         | Some _ \<Rightarrow>
             (Some (), c0\<lparr>auth_success_tx := False\<rparr>,
              if auth_success_tx c then sh1\<lparr>success_received := True\<rparr> else sh1)))"

definition context_drop ::
    "platform \<Rightarrow> instant \<Rightarrow> PreauthContext \<times> ConnShared \<Rightarrow> unit option \<times> PreauthContext \<times> ConnShared" where
  "context_drop p now = (\<lambda>(c, sh).
     (case admission_guard c of
        None \<Rightarrow> (Some (), c, sh)
      | Some guard \<Rightarrow>
          let c0 = c\<lparr>admission_guard := None\<rparr> in
          (case guard_drop p (controller sh) guard now of
             (None, ctl) \<Rightarrow> (None, c0, sh\<lparr>controller := ctl\<rparr>)
           | (Some _, ctl) \<Rightarrow>
               (Some (), c0, sh\<lparr>controller := ctl,
                  conn_metrics := preauth_connection_closed (conn_metrics sh)\<rparr>))))"

subsection \<open>Runs of the stream\<close>

datatype stream_event =
    ReadPolled "nat \<Rightarrow> moment" "(IoError, string) result poll"
  | WritePolled "nat \<Rightarrow> moment" "(IoError, nat) result poll"
  | FlushPolled "nat \<Rightarrow> moment" "(IoError, unit) result poll"
  | ShutdownPolled "(IoError, unit) result poll"

inductive stream_step ::
    "platform \<Rightarrow> (instant \<Rightarrow> instant \<Rightarrow> bool) \<Rightarrow> 'w PreauthTimedStream \<Rightarrow> stream_event \<Rightarrow> 'w PreauthTimedStream \<Rightarrow> bool"
  for p fires where
  read_polled: "poll_read p fires rd m s = Some (r, t) \<Longrightarrow> stream_step p fires s (ReadPolled m r) t"
| write_polled: "poll_write fires wr m buf s = (r, t) \<Longrightarrow> stream_step p fires s (WritePolled m r) t"
| flush_polled: "poll_flush fires fl m s = (r, t) \<Longrightarrow> stream_step p fires s (FlushPolled m r) t"
| shutdown_polled: "poll_shutdown sd s = (r, t) \<Longrightarrow> stream_step p fires s (ShutdownPolled r) t"

definition stream_inv :: "instant \<Rightarrow> duration \<Rightarrow> 'w PreauthTimedStream \<Rightarrow> bool" where
  "stream_inv deadline kex s \<longleftrightarrow>
     login_grace_deadline s = deadline \<and> kex_start_timeout s = kex \<and> timer s = current_deadline s \<and>
     (kex_start_deadline s \<noteq> None \<longrightarrow> client_banner_complete s \<and> \<not> kex_started s) \<and>
     (kex_started s \<longrightarrow> client_banner_complete s)"

lemma current_deadline_inner [simp]:
  "current_deadline (s\<lparr>inner := w\<rparr>) = current_deadline s"
  "current_deadline (s\<lparr>timer := d\<rparr>) = current_deadline s"
  "current_deadline (s\<lparr>client_banner_len := n\<rparr>) = current_deadline s"
  by (simp_all add: current_deadline_def split: option.split)

lemma check_timeout_inner [simp]: "check_timeout x (s\<lparr>inner := w\<rparr>) = check_timeout x s"
  by (cases x) (simp split: option.split)

lemma poll_deadline_inner [simp]: "poll_deadline fires a b c (s\<lparr>inner := w\<rparr>) = poll_deadline fires a b c s"
  by (simp add: poll_deadline_def split: option.split)

lemma stream_inv_inner [simp]: "stream_inv d k (s\<lparr>inner := w\<rparr>) = stream_inv d k s"
  by (simp add: stream_inv_def)

lemma note_client_bytes_inv:
  "note_client_bytes p x bytes s = Some t \<Longrightarrow> stream_inv d k s \<Longrightarrow> stream_inv d k t"
  by (cases x) (auto simp: stream_inv_def reset_timer_def split: if_splits prod.splits bool.splits bind_splits)

lemma poll_read_cases:
  assumes "poll_read p fires rd m s = Some (r, t)"
  obtains (same) "t = s" "\<And>b. r \<noteq> Ready (Inr b)"
  | (moved) w where "t = s\<lparr>inner := w\<rparr>" "\<And>b. r = Ready (Inr b) \<Longrightarrow> b = [] \<or> fst (m 0)"
  | (noted) w bytes where "note_client_bytes p (m 2) bytes (s\<lparr>inner := w\<rparr>) = Some t" "r = Ready (Inr bytes)"
      "bytes \<noteq> []" "\<not> fst (m 0)" "check_timeout (m 1) s = None"
  using assms
  by (auto simp: poll_read_def poll_deadline_def Let_def split: if_splits prod.splits option.splits poll.splits sum.splits)

lemma inner_same: "\<exists>w. (s :: 'w PreauthTimedStream) = s\<lparr>inner := w\<rparr>"
  by (intro exI [of _ "inner s"]) simp

lemma other_polls_inner:
  "poll_write fires wr m buf s = (r, t) \<Longrightarrow> \<exists>w. t = s\<lparr>inner := w\<rparr>"
  "poll_flush fires fl m s = (r', t) \<Longrightarrow> \<exists>w. t = s\<lparr>inner := w\<rparr>"
  "poll_shutdown sd s = (r', t) \<Longrightarrow> \<exists>w. t = s\<lparr>inner := w\<rparr>"
  by (auto simp: poll_write_def poll_flush_def poll_shutdown_def Let_def inner_same
      split: if_splits prod.splits option.splits poll.splits)

lemma stream_step_inv: "stream_step p fires s e t \<Longrightarrow> stream_inv d k s \<Longrightarrow> stream_inv d k t"
proof (induction rule: stream_step.induct)
  case (read_polled rd m s r t)
  then show ?case by (elim poll_read_cases) (auto intro: note_client_bytes_inv)
qed (auto dest: other_polls_inner)

interpretation preauth_stream: event_system "stream_new w deadline kex" "stream_step p fires" "stream_inv deadline kex"
proof unfold_locales
  show "stream_inv deadline kex (stream_new w deadline kex)"
    by (simp add: stream_inv_def stream_new_def current_deadline_def)
qed (rule stream_step_inv)

text \<open>A poll that delivers no bytes of an unauthenticated client changes nothing but the socket.\<close>

definition quiet :: "stream_event \<Rightarrow> bool" where
  "quiet e = (case e of ReadPolled m (Ready (Inr bytes)) \<Rightarrow> bytes = [] \<or> fst (m 0) | _ \<Rightarrow> True)"

lemma quiet_step: "stream_step p fires s e t \<Longrightarrow> quiet e \<Longrightarrow> \<exists>w. t = s\<lparr>inner := w\<rparr>"
proof (induction rule: stream_step.induct)
  case (read_polled rd m s r t)
  then show ?case by (elim poll_read_cases) (auto simp: quiet_def inner_same)
qed (auto dest: other_polls_inner)

lemma quiet_trace:
  "trace (stream_step p fires) s es t \<Longrightarrow> list_all quiet es \<Longrightarrow> \<exists>w. t = s\<lparr>inner := w\<rparr>"
proof (induction rule: trace.induct)
  case (trace_nil s)
  show ?case by (rule inner_same)
next
  case (trace_cons s e s' es s'')
  then obtain w w' where "s' = s\<lparr>inner := w\<rparr>" "s'' = s'\<lparr>inner := w'\<rparr>" using quiet_step by fastforce
  then show ?case by auto
qed

lemma polls_after_timeout:
  assumes "\<not> fst (m 0)" "check_timeout (m 1) s = Some e"
  shows "poll_read p fires rd m s = Some (Ready (Inl e), s)"
    "poll_write fires wr m buf s = (Ready (Inl e), s)" "poll_flush fires fl m s = (Ready (Inl e), s)"
  using assms by (simp_all add: poll_read_def poll_write_def poll_flush_def)

lemma banner_end:
  assumes "stream_inv d k s" "poll_read p fires rd n s = Some (r, t)"
    and "\<not> client_banner_complete s" "client_banner_complete t"
  shows "kex_start_deadline t = Some (snd (n 2) + int k) \<and> \<not> kex_started t \<and> login_grace_deadline t = d"
  using assms(2)
proof (cases rule: poll_read_cases)
  case (noted w bytes)
  then show ?thesis using assms(1,3,4)
    by (cases "n 2") (auto simp: stream_inv_def reset_timer_def instant_add_eq_Some
        split: if_splits prod.splits bool.splits bind_splits)
qed (use assms(3,4) in auto)

text \<open>
  [C10] The login grace time is absolute. Whatever an unauthenticated client sent and
  however the stream was used before, from the deadline on every read, write and flush
  fails with the login grace error and does not touch the socket.
\<close>

theorem login_deadline_is_absolute:
  assumes "reach (stream_new w deadline kex) (stream_step p fires) s"
    and "\<not> fst (m 0)" "\<not> fst (m 1)" "deadline \<le> snd (m 1)"
  shows "poll_read p fires rd m s = Some (Ready (Inl login_grace_timeout_error), s) \<and>
    poll_write fires wr m buf s = (Ready (Inl login_grace_timeout_error), s) \<and>
    poll_flush fires fl m s = (Ready (Inl login_grace_timeout_error), s)"
proof -
  have "login_grace_deadline s = deadline"
    using preauth_stream.inv_reach [OF assms(1)] by (simp add: stream_inv_def)
  with assms(3,4) have "check_timeout (m 1) s = Some login_grace_timeout_error"
    by (cases "m 1") simp
  with assms(2) show ?thesis by (simp add: polls_after_timeout)
qed

definition test_moments :: "instant \<Rightarrow> nat \<Rightarrow> moment" where
  "test_moments now i = (False, now)"

definition test_fires :: "instant \<Rightarrow> instant \<Rightarrow> bool" where
  "test_fires d now \<longleftrightarrow> d \<le> now"

theorem login_deadline_is_absolute_witness:
  "poll_flush test_fires (\<lambda>w. (Pending, w)) (test_moments 100) (stream_new () 100 5) =
     (Ready (Inl login_grace_timeout_error), stream_new () 100 5)"
  using login_deadline_is_absolute [where w = "()" and deadline = 100 and kex = 5 and p = Unix and fires = test_fires
      and m = "test_moments 100" and fl = "\<lambda>w. (Pending, w)", OF reach_init]
  by (simp add: test_moments_def)

text \<open>
  The key exchange timeout runs from the end of the client's banner. If the read that
  delivered the newline noted it at time \<open>now\<close> and no further client bytes were delivered
  since, then every unauthenticated poll between \<open>now + kex\<close> and the login deadline fails
  with the key exchange error, whatever else happened on the stream.
\<close>

theorem kex_must_start_after_banner:
  assumes "reach (stream_new w deadline kex) (stream_step p fires) s"
    and "poll_read p fires rd n s = Some (r, s1)" "\<not> client_banner_complete s" "client_banner_complete s1"
    and "trace (stream_step p fires) s1 es t" "list_all quiet es"
    and "\<not> fst (m 0)" "\<not> fst (m 1)" "snd (n 2) + int kex \<le> snd (m 1)" "snd (m 1) < deadline"
  shows "poll_read p fires rd' m t = Some (Ready (Inl kex_start_timeout_error), t) \<and>
    poll_write fires wr m buf t = (Ready (Inl kex_start_timeout_error), t) \<and>
    poll_flush fires fl m t = (Ready (Inl kex_start_timeout_error), t)"
proof -
  have inv: "stream_inv deadline kex s" using preauth_stream.inv_reach [OF assms(1)] .
  have k: "kex_start_deadline s1 = Some (snd (n 2) + int kex) \<and> \<not> kex_started s1 \<and> login_grace_deadline s1 = deadline"
    using banner_end [OF inv assms(2,3,4)] .
  obtain w' where "t = s1\<lparr>inner := w'\<rparr>" using quiet_trace [OF assms(5,6)] by blast
  with k assms(8,9,10) have "check_timeout (m 1) t = Some kex_start_timeout_error"
    by (cases "m 1") auto
  with assms(7) show ?thesis by (simp add: polls_after_timeout)
qed

theorem kex_must_start_after_banner_witness:
  "\<exists>t. poll_read Unix test_fires (\<lambda>w. (Ready (Inr [CHR ''S'', CHR 0x0A]), w)) (test_moments 10) (stream_new () 100 5) =
       Some (Ready (Inr [CHR ''S'', CHR 0x0A]), t) \<and>
     poll_flush test_fires (\<lambda>w. (Pending, w)) (test_moments 20) t = (Ready (Inl kex_start_timeout_error), t)"
proof -
  obtain t where t: "poll_read Unix test_fires (\<lambda>w. (Ready (Inr [CHR ''S'', CHR 0x0A]), w)) (test_moments 10)
      (stream_new () 100 5) = Some (Ready (Inr [CHR ''S'', CHR 0x0A]), t)" "client_banner_complete t"
    by (simp add: poll_read_def test_moments_def stream_new_def instant_add_def reset_timer_def)
  have "\<not> client_banner_complete (stream_new () 100 5)" by (simp add: stream_new_def)
  from kex_must_start_after_banner [where w = "()" and deadline = 100 and kex = 5 and m = "test_moments 20"
      and fl = "\<lambda>w. (Pending, w)", OF reach_init t(1) this t(2) trace_nil] t(1)
  show ?thesis by (simp add: test_moments_def)
qed

definition ordered_moments :: "(nat \<Rightarrow> moment) \<Rightarrow> bool" where
  "ordered_moments m \<longleftrightarrow> (\<forall>i j. i \<le> j \<longrightarrow> (fst (m i) \<longrightarrow> fst (m j)) \<and> snd (m i) \<le> snd (m j))"

definition expired :: "'w PreauthTimedStream \<Rightarrow> moment \<Rightarrow> IoError option \<Rightarrow> bool" where
  "expired s x e \<longleftrightarrow>
     e = Some login_grace_timeout_error \<and> login_grace_deadline s \<le> snd x \<or>
     e = Some kex_start_timeout_error \<and> (\<exists>d. kex_start_deadline s = Some d \<and> d \<le> snd x)"

lemma check_timeout_expired:
  "snd x \<le> snd y \<Longrightarrow> check_timeout x s = None \<or> expired s y (check_timeout x s)"
  by (cases x) (auto simp: expired_def split: option.splits)

lemma deadline_passed: "\<not> fst x \<Longrightarrow> current_deadline s \<le> snd x \<Longrightarrow> check_timeout x s \<noteq> None"
  by (cases x) (auto simp: current_deadline_def split: option.splits if_splits)

text \<open>
  [C11] A stalled connection is cut off, and none is cut off early. When the socket has
  nothing to deliver, the poll of an unauthenticated client is pending only with the timer
  armed for the current deadline, which is never after the login deadline; once that timer
  has completed the poll fails; and it fails only when the deadline named by the error
  has passed.
\<close>

theorem stalled_connection_is_cut_off:
  assumes "reach (stream_new w deadline kex) (stream_step p fires) s"
    and "\<And>d now. fires d now \<Longrightarrow> d \<le> now" "ordered_moments m" "\<not> fst (m 4)"
    and "rd (inner s) = (Pending, w')"
  shows "\<exists>r t. poll_read p fires rd m s = Some (r, t) \<and> timer t = current_deadline t \<and> timer t \<le> deadline \<and>
    (fires (timer s) (snd (m 3)) \<longrightarrow> r \<noteq> Pending) \<and>
    (r = Pending \<or>
     r = Ready (Inl login_grace_timeout_error) \<and> deadline \<le> snd (m 4) \<or>
     r = Ready (Inl kex_start_timeout_error) \<and> (\<exists>d. kex_start_deadline s = Some d \<and> d \<le> snd (m 4)))"
proof -
  have inv: "stream_inv deadline kex s" using preauth_stream.inv_reach [OF assms(1)] .
  have flags: "\<not> fst (m i)" "snd (m i) \<le> snd (m 4)" if "i \<le> 4" for i
    using assms(3,4) that by (auto simp: ordered_moments_def)
  have t: "timer s = current_deadline s" "current_deadline s \<le> deadline"
    using inv by (auto simp: stream_inv_def current_deadline_def split: option.splits)
  have early: "check_timeout (m i) s = None \<or> expired s (m 4) (check_timeout (m i) s)" if "i \<le> 4" for i
    using check_timeout_expired [of "m i" "m 4" s] flags(2) [OF that] by blast
  have late: "check_timeout (m 4) s \<noteq> None" if "fires (timer s) (snd (m 3))"
    using assms(2) [OF that] flags [of 3] assms(4) t(1) by (intro deadline_passed) auto
  have r: "poll_read p fires rd m s =
      (case check_timeout (m 1) s of
         Some err \<Rightarrow> Some (Ready (Inl err), s)
       | None \<Rightarrow> Some (poll_deadline fires (m 2) (m 3) (m 4) s, s\<lparr>inner := w'\<rparr>))"
    using assms(5) flags(1) [of 0] by (simp add: poll_read_def split: option.split)
  have d: "login_grace_deadline s = deadline" using inv by (simp add: stream_inv_def)
  show ?thesis
  proof (cases "check_timeout (m 1) s")
    case (Some e)
    then show ?thesis using early [of 1] t d unfolding r expired_def by simp
  next
    case None
    have "poll_deadline fires (m 2) (m 3) (m 4) s =
        (case check_timeout (m 2) s of Some e \<Rightarrow> Ready (Inl e)
         | None \<Rightarrow> if fires (timer s) (snd (m 3)) then Ready (Inl (the (check_timeout (m 4) s))) else Pending)"
      using late by (auto simp: poll_deadline_def split: option.split)
    then show ?thesis
      using None early [of 2] early [of 4] late t d unfolding r expired_def
      by (cases "check_timeout (m 2) s"; cases "fires (timer s) (snd (m 3))") auto
  qed
qed

theorem stalled_connection_is_cut_off_witness:
  "\<exists>t. poll_read Unix test_fires (\<lambda>w. (Pending, w)) (test_moments 100) (stream_new () 100 5) =
     Some (Ready (Inl login_grace_timeout_error), t)"
proof -
  have "ordered_moments (test_moments 100)" by (simp add: ordered_moments_def test_moments_def)
  from stalled_connection_is_cut_off [where w = "()" and deadline = 100 and kex = 5 and p = Unix and fires = test_fires
      and rd = "\<lambda>w. (Pending, w)", OF reach_init _ this]
  show ?thesis by (auto simp: test_fires_def test_moments_def stream_new_def)
qed

subsection \<open>The slot is given back once\<close>

datatype context_op = MarkAuthenticated instant instant | DropContext instant

fun context_apply :: "platform \<Rightarrow> context_op \<Rightarrow> PreauthContext \<times> ConnShared \<Rightarrow> PreauthContext \<times> ConnShared" where
  "context_apply p (MarkAuthenticated now now') x = snd (context_mark_authenticated p now now' x)"
| "context_apply p (DropContext now) x = snd (context_drop p now x)"

fun op_time :: "context_op \<Rightarrow> instant" where
  "op_time (MarkAuthenticated now now') = now"
| "op_time (DropContext now) = now"

fun is_mark :: "context_op \<Rightarrow> bool" where
  "is_mark (MarkAuthenticated _ _) = True"
| "is_mark (DropContext _) = False"

lemma context_apply_spent:
  assumes "admission_guard c = None" "context_apply p op (c, sh) = (c', sh')"
  shows "admission_guard c' = None \<and> controller sh' = controller sh \<and> conn_metrics sh' = conn_metrics sh \<and>
    authenticated sh' = (authenticated sh \<or> is_mark op)"
  using assms by (cases op) (auto simp: context_mark_authenticated_def context_drop_def Let_def split: if_splits)

lemma context_run_spent:
  assumes "admission_guard c = None" "fold (context_apply p) ops (c, sh) = (c', sh')"
  shows "admission_guard c' = None \<and> controller sh' = controller sh \<and> conn_metrics sh' = conn_metrics sh \<and>
    authenticated sh' = (authenticated sh \<or> list_ex is_mark ops)"
  using assms
proof (induction ops arbitrary: c sh)
  case (Cons op ops)
  obtain c1 sh1 where 1: "context_apply p op (c, sh) = (c1, sh1)" by fastforce
  from Cons.IH [of c1 sh1] Cons.prems context_apply_spent [OF Cons.prems(1) 1] 1 show ?case by auto
qed simp

lemma first_release:
  assumes "admission_guard c = Some g" "\<not> released g" "controller sh = Unlocked a"
    and "release p (guard_ip g) (guard_subnet g) (op_time op) a = Some a'"
    and "context_apply p op (c, sh) = (c', sh')"
  shows "admission_guard c' = None \<and> controller sh' = Unlocked a' \<and>
    conn_metrics sh' = preauth_connection_closed (conn_metrics sh) \<and>
    authenticated sh' = (authenticated sh \<or> is_mark op)"
  using assms
  by (cases op) (auto simp: context_mark_authenticated_def context_drop_def mark_authenticated_def guard_drop_def
      guard_release_def controller_release_def Let_def split: if_splits)

text \<open>
  A connection gives its slot back exactly once. However often the context is marked
  authenticated and dropped after its creation, the controller is released once, at the
  time of the first of these operations, and the gauge of unauthenticated connections is
  back at its value before the connection; the flag that lifts the timeouts is set exactly
  when the connection was marked authenticated.
\<close>

lemma slot_given_back_once:
  assumes "context_new g sh = x" "\<not> released g" "controller sh = Unlocked a"
    and "release p (guard_ip g) (guard_subnet g) (op_time op) a = Some a'"
    and "current_unauthenticated_connections (conn_metrics sh) \<noteq> - 1"
    and "fold (context_apply p) (op # ops) x = (c', sh')"
  shows "controller sh' = Unlocked a' \<and> conn_metrics sh' = conn_metrics sh \<and> admission_guard c' = None \<and>
    authenticated sh' = (authenticated sh \<or> list_ex is_mark (op # ops))"
proof -
  obtain c1 sh1 where x: "x = (c1, sh1)" by fastforce
  obtain c2 sh2 where 2: "context_apply p op (c1, sh1) = (c2, sh2)" by fastforce
  have n: "admission_guard c1 = Some g" "controller sh1 = Unlocked a" "authenticated sh1 = authenticated sh"
    "conn_metrics sh1 = preauth_connection_opened (conn_metrics sh)"
    using assms(1,3) x by (auto simp: context_new_def)
  have "preauth_connection_closed (preauth_connection_opened (conn_metrics sh)) = conn_metrics sh"
    using assms(5) by (simp add: preauth_connection_opened_def preauth_connection_closed_def saturating_sub1_def
        eq_neg_iff_add_eq_0 add.commute)
  with first_release [OF n(1) assms(2) n(2) assms(4) 2] context_run_spent [of c2 p ops sh2 c' sh'] assms(6) x 2 n(3,4)
  show ?thesis by auto
qed

end
