(* ===== verification/Sshd_State.thy ===== *)
theory Sshd_State
  imports Preauth Authorized_Keys Log_Limiter Config
begin

text \<open>
  The state of the SSH server (\<open>src/src/sshd.rs\<close>), its start-up, its rate-limited log, and
  the decision on a public key with the bookkeeping of failures.

  Public keys are of a type \<open>'k\<close>; their algorithm and its name, the parser of the key file
  and the encoding of keys are fields of the parameter \<open>SshEnv\<close>. Clock readings are given by a
  function \<open>t\<close> on the order in which the code takes them. A log line is the data it shows,
  with the number of suppressed lines it reports.
\<close>

subsection \<open>The state of the daemon\<close>

datatype Algorithm = Ed25519 | SkEd25519 | OtherAlgorithm string

record 'k SshEnv =
  env_platform :: platform
  env_parse :: "'k entry_parser"
  env_bytes :: "'k serializer"
  env_iter :: "log_entries \<Rightarrow> log_entries"
  key_algorithm :: "'k \<Rightarrow> Algorithm"
  algorithm_debug :: "Algorithm \<Rightarrow> string"

datatype LogLine =
    RejectedLine SocketAddr RejectReason
  | TimeoutLine SocketAddr string nat
  | AuthRejectedLine "SocketAddr option" string string "bool option"
  | ReloadLine AuthorizedKeysReloadEvent
  | AcceptedLine "SocketAddr option"
  | AuthSuccessLine "SocketAddr option"
  | ConnectionErrorLine SocketAddr
  | ConnectionPanicLine SocketAddr

record AppState =
  app_config :: AppConfig
  daemon_username :: string
  app_home_dir :: path
  app_keys :: AuthorizedKeysStore
  app_admission :: AdmissionController
  app_limiter :: LogLimiter
  app_metrics :: MetricsState
  app_log :: "(LogLine \<times> nat) list"

definition from_app_config :: "AppConfig \<Rightarrow> AdmissionConfig" where
  "from_app_config c =
     \<lparr>cfg_max_global = max_unauth_connections_global c, cfg_max_per_ip = max_unauth_connections_per_ip c,
      cfg_max_per_subnet = max_unauth_connections_per_subnet c,
      cfg_per_minute = new_connections_per_minute_per_ip c, cfg_burst = new_connections_burst_per_ip c,
      cfg_ban_threshold = auth_failure_ban_threshold c, cfg_ban_window = auth_failure_ban_window c,
      cfg_ban_duration = auth_failure_ban_duration c\<rparr>"

datatype BootError = NoHome | HostKeyFailed string | NoUsername | KeysFailed KeysError | NotEd25519 | ExecutorSpawnFailed

text \<open>
  Start-up. The arguments are the results of the steps outside the model: the home
  directory, the host key's algorithm, the user name, whether the key file exists, and
  whether the executor was spawned; \<open>t\<close> gives the clock readings.
\<close>

definition bootstrap ::
    "'k SshEnv \<Rightarrow> (nat \<Rightarrow> instant) \<Rightarrow> path option \<Rightarrow> (string, Algorithm) result \<Rightarrow> string option \<Rightarrow> bool \<Rightarrow> FsView \<Rightarrow> bool
       \<Rightarrow> AppConfig \<Rightarrow> (BootError, AppState) result option" where
  "bootstrap env t home key_alg username exists view spawned c =
     (case home of None \<Rightarrow> Some (Inl NoHome) | Some h \<Rightarrow>
      case key_alg of Inl e \<Rightarrow> Some (Inl (HostKeyFailed e)) | Inr alg \<Rightarrow>
      case username of None \<Rightarrow> Some (Inl NoUsername) | Some user \<Rightarrow>
      (case (if exists
             then map_option (map_sum KeysFailed id)
                    (store_load (env_parse env) (env_bytes env) (env_platform env) (t 0) view
                      (authorized_keys_max_size c) (authorized_keys_max_entries c) (authorized_keys_reload_interval c))
             else map_option Inr
                    (state_missing (env_platform env) (t 0) (authorized_keys_max_size c)
                      (authorized_keys_max_entries c) (authorized_keys_reload_interval c))) of
         None \<Rightarrow> None
       | Some (Inl e) \<Rightarrow> Some (Inl e)
       | Some (Inr keys) \<Rightarrow>
           if alg \<noteq> Ed25519 then Some (Inl NotEd25519)
           else if \<not> spawned then Some (Inl ExecutorSpawnFailed)
           else Some (Inr
             \<lparr>app_config = c, daemon_username = user, app_home_dir = h, app_keys = Unlocked keys,
              app_admission = controller_new (from_app_config c) (t 1),
              app_limiter = Unlocked (limiter_new (from_secs 30) 4096 (t 2)),
              app_metrics = metrics_new 4096, app_log = []\<rparr>)))"

text \<open>Operations of the daemon may panic: the result is then \<open>None\<close>, and the state is what they left.\<close>

type_synonym 'a app = "AppState \<Rightarrow> 'a option \<times> AppState"

definition app_bind :: "'a app \<Rightarrow> ('a \<Rightarrow> 'b app) \<Rightarrow> 'b app" where
  "app_bind f g st = (case f st of (None, st') \<Rightarrow> (None, st') | (Some a, st') \<Rightarrow> g a st')"

definition app_return :: "'a \<Rightarrow> 'a app" where
  "app_return a st = (Some a, st)"

definition on_metrics :: "(MetricsState \<Rightarrow> MetricsState) \<Rightarrow> unit app" where
  "on_metrics f st = (Some (), st\<lparr>app_metrics := f (app_metrics st)\<rparr>)"

definition log_line :: "LogLine \<Rightarrow> nat \<Rightarrow> unit app" where
  "log_line l n st = (Some (), st\<lparr>app_log := app_log st @ [(l, n)]\<rparr>)"

definition warn_limited :: "'k SshEnv \<Rightarrow> instant \<Rightarrow> SocketAddr option \<Rightarrow> string \<Rightarrow> LogLine \<Rightarrow> unit app" where
  "warn_limited env now peer cat line st =
     (case check_at (env_iter env) (app_limiter st) \<lparr>peer_ip = map_option ip peer, category = cat\<rparr> now of
        (None, l) \<Rightarrow> (None, st\<lparr>app_limiter := l\<rparr>)
      | (Some (Emit n), l) \<Rightarrow> log_line line n (st\<lparr>app_limiter := l\<rparr>)
      | (Some Suppress, l) \<Rightarrow> (Some (), st\<lparr>app_limiter := l\<rparr>))"

definition log_authorized_keys_reload :: "'k SshEnv \<Rightarrow> instant \<Rightarrow> AuthorizedKeysReloadEvent \<Rightarrow> unit app" where
  "log_authorized_keys_reload env now ev =
     (case ev of
        EventLoaded g n \<Rightarrow> app_bind (log_line (ReloadLine ev) 0) (\<lambda>_. on_metrics record_cache_reload_success)
      | EventMissing \<Rightarrow>
          app_bind (on_metrics record_cache_reload_failure)
            (\<lambda>_. warn_limited env now None ''authorized-keys-missing'' (ReloadLine ev))
      | EventFailed e \<Rightarrow>
          app_bind (on_metrics record_cache_reload_failure)
            (\<lambda>_. warn_limited env now None ''authorized-keys-reload-failed'' (ReloadLine ev)))"

definition is_authorized ::
    "'k SshEnv \<Rightarrow> (nat \<Rightarrow> instant) \<Rightarrow> FsView \<Rightarrow> 'k \<Rightarrow> (KeysError, bool) result app" where
  "is_authorized env t view key st =
     (case store_refresh (env_parse env) (env_bytes env) (env_platform env) (t 0) view (app_keys st) of
        (None, ks) \<Rightarrow> (None, st\<lparr>app_keys := ks\<rparr>)
      | (Some (Inl e), ks) \<Rightarrow> (Some (Inl e), st\<lparr>app_keys := ks\<rparr>)
      | (Some (Inr ev), ks) \<Rightarrow>
          app_bind (case ev of None \<Rightarrow> app_return () | Some x \<Rightarrow> log_authorized_keys_reload env (t 1) x)
            (\<lambda>_ st'. (store_contains (env_bytes env) (app_keys st') key, st'))
            (st\<lparr>app_keys := ks\<rparr>))"

subsection \<open>Authentication\<close>

datatype Auth = Accept | Reject

definition login_user_matches_daemon :: "string \<Rightarrow> string \<Rightarrow> bool" where
  "login_user_matches_daemon requested_user username \<longleftrightarrow> requested_user = username"

fun is_user_key_algorithm_allowed :: "Algorithm \<Rightarrow> bool" where
  "is_user_key_algorithm_allowed Ed25519 = True"
| "is_user_key_algorithm_allowed SkEd25519 = True"
| "is_user_key_algorithm_allowed (OtherAlgorithm _) = False"

definition app_record_auth_failure ::
    "'k SshEnv \<Rightarrow> (nat \<Rightarrow> instant) \<Rightarrow> SocketAddr option \<Rightarrow> string \<Rightarrow> string \<Rightarrow> unit app" where
  "app_record_auth_failure env t peer cat reason =
     (case peer of
        None \<Rightarrow>
          app_bind (on_metrics (metrics_auth_failure None False))
            (\<lambda>_. warn_limited env (t 1) peer cat (AuthRejectedLine peer cat reason None))
      | Some sa \<Rightarrow>
          (\<lambda>st. case record_auth_failure_at (env_platform env) (app_admission st) (ip sa) (t 0) of
             (None, ctl) \<Rightarrow> (None, st\<lparr>app_admission := ctl\<rparr>)
           | (Some ban, ctl) \<Rightarrow>
               app_bind (on_metrics (metrics_auth_failure (Some (ip sa)) ban))
                 (\<lambda>_. warn_limited env (t 1) peer cat (AuthRejectedLine peer cat reason (Some ban)))
                 (st\<lparr>app_admission := ctl\<rparr>)))"

definition authorize_key ::
    "'k SshEnv \<Rightarrow> (nat \<Rightarrow> instant) \<Rightarrow> FsView \<Rightarrow> SocketAddr option \<Rightarrow> string \<Rightarrow> 'k \<Rightarrow> (KeysError, Auth) result app" where
  "authorize_key env t view peer user key st =
     (if \<not> login_user_matches_daemon user (daemon_username st) then
        app_bind (app_record_auth_failure env t peer ''auth-reject-username'' ''requested login user is not permitted'')
          (\<lambda>_. app_return (Inr Reject)) st
      else if \<not> is_user_key_algorithm_allowed (key_algorithm env key) then
        app_bind (app_record_auth_failure env t peer ''auth-reject-key-algorithm''
                    (''unsupported public key algorithm '' @ algorithm_debug env (key_algorithm env key)))
          (\<lambda>_. app_return (Inr Reject)) st
      else
        app_bind (is_authorized env t view key)
          (\<lambda>r. case r of
             Inl e \<Rightarrow> app_return (Inl e)
           | Inr True \<Rightarrow> app_bind (log_line (AcceptedLine peer) 0) (\<lambda>_. app_return (Inr Accept))
           | Inr False \<Rightarrow>
               app_bind (app_record_auth_failure env (\<lambda>i. t (i + 2)) peer ''auth-reject-unknown-key''
                           ''public key not present in authorized_keys cache'')
                 (\<lambda>_. app_return (Inr Reject))) st)"

subsection \<open>What the operations leave alone\<close>

definition same_identity :: "AppState \<Rightarrow> AppState \<Rightarrow> bool" where
  "same_identity st st' \<longleftrightarrow>
     app_config st' = app_config st \<and> daemon_username st' = daemon_username st \<and> app_home_dir st' = app_home_dir st"

lemma same_identity_refl [simp]: "same_identity st st"
  by (simp add: same_identity_def)

lemma same_identity_trans: "same_identity a b \<Longrightarrow> same_identity b c \<Longrightarrow> same_identity a c"
  by (simp add: same_identity_def)

lemma app_bind_cases:
  assumes "app_bind f g st = (r, st')"
  obtains (panic) "f st = (None, st')" "r = None"
  | (step) a st1 where "f st = (Some a, st1)" "g a st1 = (r, st')"
  using assms by (auto simp: app_bind_def split: prod.splits option.splits)

lemma warn_limited_frame:
  assumes "warn_limited env now peer cat l st = (r, st')"
  shows "same_identity st st' \<and> app_keys st' = app_keys st \<and> app_admission st' = app_admission st \<and>
    app_metrics st' = app_metrics st"
  using assms
  by (auto simp: warn_limited_def log_line_def same_identity_def split: prod.splits option.splits LogDecision.splits)

lemma log_reload_frame:
  assumes "log_authorized_keys_reload env now ev st = (r, st')"
  shows "same_identity st st' \<and> app_keys st' = app_keys st \<and> app_admission st' = app_admission st \<and>
    current_unauthenticated_connections (app_metrics st') = current_unauthenticated_connections (app_metrics st)"
proof -
  have warn: "same_identity (st\<lparr>app_metrics := m\<rparr>) st' \<and> app_keys st' = app_keys st \<and>
      app_admission st' = app_admission st \<and> app_metrics st' = m"
    if "warn_limited env now peer cat l (st\<lparr>app_metrics := m\<rparr>) = (r, st')" for peer cat l m
    using warn_limited_frame [OF that] by simp
  show ?thesis
    using assms
    by (cases ev) (auto simp: log_authorized_keys_reload_def app_bind_def on_metrics_def log_line_def
        record_cache_reload_success_def record_cache_reload_failure_def same_identity_def dest!: warn)
qed

lemma is_authorized_frame:
  assumes "is_authorized env t view key st = (r, st')"
  shows "same_identity st st' \<and> app_admission st' = app_admission st \<and>
    current_unauthenticated_connections (app_metrics st') = current_unauthenticated_connections (app_metrics st) \<and>
    (\<forall>b. r = Some (Inr b) \<longrightarrow> (\<exists>ks. app_keys st' = Unlocked ks \<and> cache_contains (env_bytes env) (keys_cache ks) key = Inr b))"
proof -
  obtain o' ks where ref: "store_refresh (env_parse env) (env_bytes env) (env_platform env) (t 0) view (app_keys st) = (o', ks)"
    by fastforce
  have id1: "same_identity st (st\<lparr>app_keys := ks\<rparr>)" by (simp add: same_identity_def)
  show ?thesis
  proof (cases o')
    case None
    with assms ref id1 show ?thesis by (auto simp: is_authorized_def)
  next
    case (Some x)
    show ?thesis
    proof (cases x)
      case (Inl e)
      with Some assms ref id1 show ?thesis by (auto simp: is_authorized_def)
    next
      case (Inr ev)
      let ?f = "case ev of None \<Rightarrow> app_return () | Some x \<Rightarrow> log_authorized_keys_reload env (t 1) x"
      have f: "same_identity st st1 \<and> app_keys st1 = ks \<and> app_admission st1 = app_admission st \<and>
          current_unauthenticated_connections (app_metrics st1) = current_unauthenticated_connections (app_metrics st)"
        if "?f (st\<lparr>app_keys := ks\<rparr>) = (q, st1)" for q st1
        using that id1 log_reload_frame [of env "t 1" _ "st\<lparr>app_keys := ks\<rparr>" q st1]
        by (cases ev) (auto simp: app_return_def intro: same_identity_trans)
      have "app_bind ?f (\<lambda>_ st'. (store_contains (env_bytes env) (app_keys st') key, st')) (st\<lparr>app_keys := ks\<rparr>) = (r, st')"
        using assms ref Some Inr by (simp add: is_authorized_def)
      then show ?thesis
      proof (cases rule: app_bind_cases)
        case panic
        with f show ?thesis by blast
      next
        case (step a st1)
        then have "st' = st1" "r = store_contains (env_bytes env) ks key" using f [OF step(1)] by auto
        with f [OF step(1)] show ?thesis by (cases ks) auto
      qed
    qed
  qed
qed

lemma app_failure_frame:
  assumes "app_record_auth_failure env t peer cat reason st = (r, st')"
  shows "same_identity st st' \<and> app_keys st' = app_keys st \<and>
    current_unauthenticated_connections (app_metrics st') = current_unauthenticated_connections (app_metrics st) \<and>
    (case peer of
       None \<Rightarrow> app_admission st' = app_admission st
     | Some sa \<Rightarrow> \<exists>o'. record_auth_failure_at (env_platform env) (app_admission st) (ip sa) (t 0) = (o', app_admission st') \<and>
         (r \<noteq> None \<longrightarrow> o' \<noteq> None))"
proof (cases peer)
  case None
  with assms have "warn_limited env (t 1) None cat (AuthRejectedLine None cat reason None)
      (st\<lparr>app_metrics := metrics_auth_failure None False (app_metrics st)\<rparr>) = (r, st')"
    by (simp add: app_record_auth_failure_def app_bind_def on_metrics_def)
  from warn_limited_frame [OF this] None show ?thesis
    by (auto simp: same_identity_def metrics_auth_failure_def)
next
  case (Some sa)
  obtain o' ctl where adm: "record_auth_failure_at (env_platform env) (app_admission st) (ip sa) (t 0) = (o', ctl)" by fastforce
  show ?thesis
  proof (cases o')
    case None
    with adm Some assms show ?thesis by (auto simp: app_record_auth_failure_def same_identity_def)
  next
    case ban: (Some ban)
    with adm Some assms have "warn_limited env (t 1) peer cat (AuthRejectedLine peer cat reason (Some ban))
        (st\<lparr>app_admission := ctl, app_metrics := metrics_auth_failure (Some (ip sa)) ban (app_metrics st)\<rparr>) = (r, st')"
      by (simp add: app_record_auth_failure_def app_bind_def on_metrics_def)
    from warn_limited_frame [OF this] adm ban Some show ?thesis
      by (auto simp: same_identity_def metrics_auth_failure_def count_failure_ip_def Let_def split: option.splits)
  qed
qed

text \<open>
  What an authentication attempt does to the admission controller: nothing, or the
  record of one failure of the peer.
\<close>

definition failure_step :: "'k SshEnv \<Rightarrow> SocketAddr option \<Rightarrow> AdmissionController \<Rightarrow> AdmissionController \<Rightarrow> bool" where
  "failure_step env peer ctl ctl' \<longleftrightarrow>
     (case peer of
        None \<Rightarrow> ctl' = ctl
      | Some sa \<Rightarrow> \<exists>now o'. record_auth_failure_at (env_platform env) ctl (ip sa) now = (o', ctl'))"

definition failure_step_or_same :: "'k SshEnv \<Rightarrow> SocketAddr option \<Rightarrow> AppState \<Rightarrow> AppState \<Rightarrow> bool" where
  "failure_step_or_same env peer st st' \<longleftrightarrow>
     app_admission st' = app_admission st \<or> failure_step env peer (app_admission st) (app_admission st')"

lemma rejecting:
  assumes "app_bind (app_record_auth_failure env t peer cat reason) (\<lambda>_. app_return (Inr Reject)) st = (r, st')"
  shows "same_identity st st' \<and> app_keys st' = app_keys st \<and>
    current_unauthenticated_connections (app_metrics st') = current_unauthenticated_connections (app_metrics st) \<and>
    failure_step env peer (app_admission st) (app_admission st') \<and>
    (r = None \<or> r = Some (Inr Reject) \<and>
      (\<forall>sa. peer = Some sa \<longrightarrow> (\<exists>now ban. record_auth_failure_at (env_platform env) (app_admission st) (ip sa) now =
        (Some ban, app_admission st'))))"
  using assms
proof (cases rule: app_bind_cases)
  case panic
  with app_failure_frame [OF panic(1)] show ?thesis by (auto simp: failure_step_def split: option.splits)
next
  case (step a st1)
  then have "st1 = st'" "r = Some (Inr Reject)" by (simp_all add: app_return_def)
  with app_failure_frame [OF step(1)] show ?thesis by (fastforce simp: failure_step_def split: option.splits)
qed

definition holds_key :: "'k SshEnv \<Rightarrow> 'k \<Rightarrow> AppState \<Rightarrow> bool" where
  "holds_key env key st \<longleftrightarrow>
     (\<exists>ks b. app_keys st = Unlocked ks \<and> env_bytes env key = Inr b \<and> b \<in> accepted_keys (keys_cache ks))"

lemma holds_key_contains:
  "app_keys st = Unlocked ks \<Longrightarrow> cache_contains (env_bytes env) (keys_cache ks) key = Inr b \<Longrightarrow> holds_key env key st = b"
  by (auto simp: holds_key_def cache_contains_def split: sum.splits)

text \<open>Everything an attempt does, on each way it can go.\<close>

lemma authorize_key_cases:
  assumes "authorize_key env t view peer user key st = (r, st')"
  shows "same_identity st st' \<and>
    current_unauthenticated_connections (app_metrics st') = current_unauthenticated_connections (app_metrics st) \<and>
    failure_step_or_same env peer st st' \<and>
    (r = Some (Inr Accept) \<longrightarrow> user = daemon_username st \<and> is_user_key_algorithm_allowed (key_algorithm env key) \<and>
       holds_key env key st' \<and> app_admission st' = app_admission st) \<and>
    (r = Some (Inr Reject) \<longrightarrow>
       \<not> (user = daemon_username st \<and> is_user_key_algorithm_allowed (key_algorithm env key) \<and> holds_key env key st') \<and>
       (\<forall>sa. peer = Some sa \<longrightarrow> (\<exists>now ban. record_auth_failure_at (env_platform env) (app_admission st) (ip sa) now =
          (Some ban, app_admission st'))))"
proof (cases "user = daemon_username st \<and> is_user_key_algorithm_allowed (key_algorithm env key)")
  case False
  then obtain cat reason where
    "app_bind (app_record_auth_failure env t peer cat reason) (\<lambda>_. app_return (Inr Reject)) st = (r, st')"
    using assms by (auto simp: authorize_key_def login_user_matches_daemon_def split: if_splits)
  from rejecting [OF this] False show ?thesis by (auto simp: failure_step_or_same_def)
next
  case True
  define g :: "(KeysError, bool) result \<Rightarrow> (KeysError, Auth) result app" where "g = (\<lambda>r. case r of
             Inl e \<Rightarrow> app_return (Inl e)
           | Inr True \<Rightarrow> app_bind (log_line (AcceptedLine peer) 0) (\<lambda>_. app_return (Inr Accept))
           | Inr False \<Rightarrow>
               app_bind (app_record_auth_failure env (\<lambda>i. t (i + 2)) peer ''auth-reject-unknown-key''
                           ''public key not present in authorized_keys cache'')
                 (\<lambda>_. app_return (Inr Reject)))"
  have "authorize_key env t view peer user key st = app_bind (is_authorized env t view key) g st"
    unfolding authorize_key_def g_def using True
    by (simp only: login_user_matches_daemon_def simp_thms if_True if_False)
  with assms have "app_bind (is_authorized env t view key) g st = (r, st')" by simp
  then show ?thesis
  proof (cases rule: app_bind_cases)
    case panic
    with is_authorized_frame [OF panic(1)] show ?thesis by (simp add: failure_step_or_same_def)
  next
    case (step x st1)
    note fr = is_authorized_frame [OF step(1)]
    consider e where "x = Inl e" | "x = Inr True" | "x = Inr False" by (metis (full_types) sum.exhaust)
    then show ?thesis
    proof cases
      case 1
      with step(2) fr show ?thesis by (auto simp: g_def app_return_def failure_step_or_same_def)
    next
      case 2
      then have "holds_key env key st1" using fr holds_key_contains by fastforce
      with 2 step(2) fr True show ?thesis
        by (auto simp: g_def app_bind_def app_return_def log_line_def failure_step_or_same_def same_identity_def holds_key_def)
    next
      case 3
      then have no: "\<not> holds_key env key st1" using fr holds_key_contains by fastforce
      from 3 step(2) have "app_bind (app_record_auth_failure env (\<lambda>i. t (i + 2)) peer ''auth-reject-unknown-key''
          ''public key not present in authorized_keys cache'') (\<lambda>_. app_return (Inr Reject)) st1 = (r, st')"
        by (simp add: g_def)
      note rj = rejecting [OF this]
      then have "\<not> holds_key env key st'" using no by (simp add: holds_key_def)
      with rj fr show ?thesis by (auto simp: failure_step_or_same_def intro: same_identity_trans)
    qed
  qed
qed

end
