(* ===== verification/Executor.thy ===== *)
theory Executor
  imports Process_Service Sftp
begin

text \<open>
  The control channel between the SSH server and the executor process on Unix
  (\<open>src/src/executor.rs\<close>): sending and receiving packets, the executor's request loop, the
  client that the server holds, and the two together as a step relation.

  The channel is a sequenced-packet socket: packets arrive whole and in order, cut to the
  receiver's buffer. File descriptors are numbers. Services that the executor starts and
  sockets it opens are operations on the executor's world, the fields of \<open>ExecOs\<close>. Text
  made from an error chain is the parameter \<open>fmt\<close>.
\<close>

subsection \<open>Packets\<close>

type_synonym fd = nat

definition MAX_CONTROL_MESSAGE_SIZE :: nat where
  "MAX_CONTROL_MESSAGE_SIZE = 64 * 1024"

record Packet =
  payload :: string
  packet_fds :: "fd list"
  ctrunc :: bool

datatype ControlError =
    RecvFailed IoError
  | ControlEof
  | AncillaryTruncated
  | ExtraFd
  | ControlDecode FrameError
  | ControlEncode FrameError
  | SendFailed IoError

text \<open>\<open>ControlReader::recv\<close> on the outcome of the system call \<open>recvmsg\<close>.\<close>

definition control_recv :: "'m codec \<Rightarrow> (IoError, Packet) result \<Rightarrow> (ControlError, 'm \<times> fd option) result" where
  "control_recv c received =
     (case received of
        Inl err \<Rightarrow> Inl (RecvFailed err)
      | Inr pkt \<Rightarrow>
          let buffer = take MAX_CONTROL_MESSAGE_SIZE (payload pkt) in
          if buffer = [] then Inl ControlEof
          else if ctrunc pkt then Inl AncillaryTruncated
          else (case packet_fds pkt of
              [] \<Rightarrow> map_sum ControlDecode (\<lambda>m. (m, None)) (decode_message c buffer)
            | [fd] \<Rightarrow> map_sum ControlDecode (\<lambda>m. (m, Some fd)) (decode_message c buffer)
            | _ \<Rightarrow> Inl ExtraFd))"

text \<open>\<open>ControlWriter::send\<close>: the packet to hand to \<open>sendmsg\<close>.\<close>

definition control_packet :: "'m codec \<Rightarrow> 'm \<Rightarrow> fd option \<Rightarrow> (ControlError, Packet) result" where
  "control_packet c m attached_fd =
     map_sum ControlEncode
       (\<lambda>b. \<lparr>payload = b, packet_fds = (case attached_fd of None \<Rightarrow> [] | Some fd \<Rightarrow> [fd]), ctrunc = False\<rparr>)
       (encode_message c m)"

definition control_send ::
    "'m codec \<Rightarrow> (Packet \<Rightarrow> ('w, unit) os_call) \<Rightarrow> 'm \<Rightarrow> fd option \<Rightarrow> 'w \<Rightarrow> (ControlError, unit) result \<times> 'w" where
  "control_send c sendmsg m attached_fd w =
     (case control_packet c m attached_fd of
        Inl e \<Rightarrow> (Inl e, w)
      | Inr pkt \<Rightarrow> (case sendmsg pkt w of (Inl err, w') \<Rightarrow> (Inl (SendFailed err), w') | (Inr _, w') \<Rightarrow> (Inr (), w')))"

subsection \<open>The executor process\<close>

datatype ExecError =
    BeforeStartup
  | MissingServiceStream string
  | AdoptFailed IoError
  | ServiceFailed ServiceError
  | ConnectFailed string "16 word" IoError
  | BindFailed string "16 word" IoError
  | LocalAddrFailed IoError
  | UnknownToken "64 word"

record 'w ExecOs =
  adopt_stream :: "fd \<Rightarrow> ('w, unit) os_call"
  os_spawn :: "Command \<Rightarrow> ('w, SpawnedChild) os_call"
  os_pty :: "'w PtySystem"
  run_sftp :: "fd \<Rightarrow> (fd, nat) LocalSftp \<Rightarrow> 'w \<Rightarrow> 'w"
  tcp_connect :: "string \<Rightarrow> 16 word \<Rightarrow> ('w, unit) os_call"
  run_proxy :: "fd \<Rightarrow> string \<Rightarrow> 16 word \<Rightarrow> 'w \<Rightarrow> 'w"
  tcp_bind :: "string \<Rightarrow> 16 word \<Rightarrow> ('w, unit) os_call"
  local_port :: "('w, 16 word) os_call"
  spawn_accept :: "64 word \<Rightarrow> 'w \<Rightarrow> nat \<times> 'w"
  abort_task :: "nat \<Rightarrow> 'w \<Rightarrow> 'w"

record ExecutorState =
  hello :: "ExecutorHello option"
  forward_tasks :: "(64 word, nat) hmap"

definition exec_hello :: "ExecutorState \<Rightarrow> (ExecError, ExecutorHello) result" where
  "exec_hello s = ok_or BeforeStartup (hello s)"

definition exec_start_process ::
    "'w ExecOs \<Rightarrow> ExecutorState \<Rightarrow> ProcessRequest \<Rightarrow> fd option \<Rightarrow> 'w \<Rightarrow> (ExecError, unit) result \<times> 'w" where
  "exec_start_process os s request attached_fd w =
     (case exec_hello s of
        Inl e \<Rightarrow> (Inl e, w)
      | Inr h \<Rightarrow>
          (case attached_fd of
             None \<Rightarrow> (Inl (MissingServiceStream ''process''), w)
           | Some fd \<Rightarrow>
               (case adopt_stream os fd w of
                  (Inl err, w1) \<Rightarrow> (Inl (AdoptFailed err), w1)
                | (Inr _, w1) \<Rightarrow>
                    if req_pty request \<noteq> None then
                      (case start_pty_process_service Unix (os_pty os) h request w1 of
                         (r, w2) \<Rightarrow> (map_sum ServiceFailed (\<lambda>_. ()) r, w2))
                    else
                      (case start_piped_process_service (os_spawn os) h request w1 of
                         (r, w2) \<Rightarrow> (map_sum ServiceFailed (\<lambda>_. ()) r, w2)))))"

definition exec_start_sftp ::
    "'w ExecOs \<Rightarrow> ExecutorState \<Rightarrow> fd option \<Rightarrow> 'w \<Rightarrow> (ExecError, unit) result \<times> 'w" where
  "exec_start_sftp os s attached_fd w =
     (case exec_hello s of
        Inl e \<Rightarrow> (Inl e, w)
      | Inr h \<Rightarrow>
          (case attached_fd of
             None \<Rightarrow> (Inl (MissingServiceStream ''SFTP''), w)
           | Some fd \<Rightarrow>
               (case adopt_stream os fd w of
                  (Inl err, w1) \<Rightarrow> (Inl (AdoptFailed err), w1)
                | (Inr _, w1) \<Rightarrow> (Inr (), run_sftp os fd (sftp_new (hello_home_dir h)) w1))))"

definition exec_connect_tcp ::
    "'w ExecOs \<Rightarrow> string \<Rightarrow> 16 word \<Rightarrow> fd option \<Rightarrow> 'w \<Rightarrow> (ExecError, unit) result \<times> 'w" where
  "exec_connect_tcp os host port_no attached_fd w =
     (case attached_fd of
        None \<Rightarrow> (Inl (MissingServiceStream ''direct-tcpip''), w)
      | Some fd \<Rightarrow>
          (case adopt_stream os fd w of
             (Inl err, w1) \<Rightarrow> (Inl (AdoptFailed err), w1)
           | (Inr _, w1) \<Rightarrow>
               (case tcp_connect os host port_no w1 of
                  (Inl err, w2) \<Rightarrow> (Inl (ConnectFailed host port_no err), w2)
                | (Inr _, w2) \<Rightarrow> (Inr (), run_proxy os fd host port_no w2))))"

definition exec_start_remote_forward ::
    "'w ExecOs \<Rightarrow> ExecutorState \<Rightarrow> 64 word \<Rightarrow> string \<Rightarrow> 16 word \<Rightarrow> 'w
       \<Rightarrow> (ExecError, 16 word) result \<times> ExecutorState \<times> 'w" where
  "exec_start_remote_forward os s token bind_address bind_port w =
     (case tcp_bind os bind_address bind_port w of
        (Inl err, w1) \<Rightarrow> (Inl (BindFailed bind_address bind_port err), s, w1)
      | (Inr _, w1) \<Rightarrow>
          (case local_port os w1 of
             (Inl err, w2) \<Rightarrow> (Inl (LocalAddrFailed err), s, w2)
           | (Inr bound_port, w2) \<Rightarrow>
               (case spawn_accept os token w2 of
                  (task, w3) \<Rightarrow>
                    (Inr bound_port, s\<lparr>forward_tasks := hm_insert token task (forward_tasks s)\<rparr>,
                     case hm_get (forward_tasks s) token of
                       None \<Rightarrow> w3
                     | Some existing \<Rightarrow> abort_task os existing w3))))"

definition exec_cancel_remote_forward ::
    "'w ExecOs \<Rightarrow> ExecutorState \<Rightarrow> 64 word \<Rightarrow> 'w \<Rightarrow> (ExecError, unit) result \<times> ExecutorState \<times> 'w" where
  "exec_cancel_remote_forward os s token w =
     (case hm_get (forward_tasks s) token of
        None \<Rightarrow> (Inl (UnknownToken token), s, w)
      | Some task \<Rightarrow> (Inr (), s\<lparr>forward_tasks := hm_remove token (forward_tasks s)\<rparr>, abort_task os task w))"

definition request_result ::
    "(ExecError \<Rightarrow> string) \<Rightarrow> 64 word \<Rightarrow> (ExecError, ResponseDetail) result \<Rightarrow> ExecutorResponse" where
  "request_result fmt i result =
     (case result of Inr detail \<Rightarrow> RequestOk i detail | Inl err \<Rightarrow> RequestErr i (fmt err))"

text \<open>One turn of the request loop: the response it sends.\<close>

fun handle_request ::
    "'w ExecOs \<Rightarrow> (ExecError \<Rightarrow> string) \<Rightarrow> ExecutorRequest \<Rightarrow> fd option \<Rightarrow> ExecutorState \<Rightarrow> 'w
       \<Rightarrow> ExecutorResponse \<times> ExecutorState \<times> 'w" where
  "handle_request os fmt (Hello h) fd s w = (HelloAck, s\<lparr>hello := Some h\<rparr>, w)"
| "handle_request os fmt (StartProcess i request) fd s w =
     (case exec_start_process os s request fd w of
        (r, w') \<Rightarrow> (request_result fmt i (map_sum id (\<lambda>_. Empty) r), s, w'))"
| "handle_request os fmt (StartSftp i) fd s w =
     (case exec_start_sftp os s fd w of
        (r, w') \<Rightarrow> (request_result fmt i (map_sum id (\<lambda>_. Empty) r), s, w'))"
| "handle_request os fmt (ConnectTcp i host port_no) fd s w =
     (case exec_connect_tcp os host port_no fd w of
        (r, w') \<Rightarrow> (request_result fmt i (map_sum id (\<lambda>_. Empty) r), s, w'))"
| "handle_request os fmt (StartRemoteForward i token bind_address bind_port) fd s w =
     (case exec_start_remote_forward os s token bind_address bind_port w of
        (r, s', w') \<Rightarrow> (request_result fmt i (map_sum id BoundPort r), s', w'))"
| "handle_request os fmt (CancelRemoteForward i token) fd s w =
     (case exec_cancel_remote_forward os s token w of
        (r, s', w') \<Rightarrow> (request_result fmt i (map_sum id (\<lambda>_. Empty) r), s', w'))"

text \<open>
  The executor on the packets it receives: the reading thread decodes them until one
  fails, and the main loop answers each decoded request in turn until an answer cannot be
  sent. The result is the list of responses sent and whether a send error ended the loop.
\<close>

fun received_requests :: "ExecutorRequest codec \<Rightarrow> (IoError, Packet) result list \<Rightarrow> (ExecutorRequest \<times> fd option) list" where
  "received_requests c [] = []"
| "received_requests c (r # rs) =
     (case control_recv c r of Inl _ \<Rightarrow> [] | Inr packet \<Rightarrow> packet # received_requests c rs)"

fun request_loop ::
    "'w ExecOs \<Rightarrow> (ExecError \<Rightarrow> string) \<Rightarrow> (ExecutorResponse \<Rightarrow> 'w \<Rightarrow> bool \<times> 'w)
       \<Rightarrow> (ExecutorRequest \<times> fd option) list \<Rightarrow> ExecutorState \<Rightarrow> 'w
       \<Rightarrow> ExecutorResponse list \<times> bool \<times> ExecutorState \<times> 'w" where
  "request_loop os fmt send [] s w = ([], True, s, w)"
| "request_loop os fmt send ((req, fd) # rs) s w =
     (case handle_request os fmt req fd s w of
        (resp, s1, w1) \<Rightarrow>
          (case send resp w1 of
             (False, w2) \<Rightarrow> ([], False, s1, w2)
           | (True, w2) \<Rightarrow>
               (case request_loop os fmt send rs s1 w2 of
                  (resps, ok, s3, w3) \<Rightarrow> (resp # resps, ok, s3, w3))))"

definition run_from_control_stdin ::
    "'w ExecOs \<Rightarrow> (ExecError \<Rightarrow> string) \<Rightarrow> ExecutorRequest codec \<Rightarrow> (ExecutorResponse \<Rightarrow> 'w \<Rightarrow> bool \<times> 'w)
       \<Rightarrow> (IoError, Packet) result list \<Rightarrow> 'w \<Rightarrow> ExecutorResponse list \<times> bool \<times> ExecutorState \<times> 'w" where
  "run_from_control_stdin os fmt c send packets w =
     request_loop os fmt send (received_requests c packets) \<lparr>hello = None, forward_tasks = []\<rparr> w"

subsection \<open>The client\<close>

record 'h RemoteForwardRegistration =
  session_handle :: 'h
  connected_address :: string
  connected_port :: "32 word"

text \<open>\<open>pending\<close> holds the waiters by request id; a waiter is the number of its channel.\<close>

record 'h ExecutorClientInner =
  pending :: "(64 word, nat) hmap"
  registrations :: "(64 word, 'h RemoteForwardRegistration) hmap"
  next_request :: "64 word"
  next_token :: "64 word"

definition client_new :: "'h ExecutorClientInner" where
  "client_new = \<lparr>pending = [], registrations = [], next_request = 1, next_token = 1\<rparr>"

definition next_request_id :: "'h ExecutorClientInner \<Rightarrow> 64 word \<times> 'h ExecutorClientInner" where
  "next_request_id cl = (next_request cl, cl\<lparr>next_request := next_request cl + 1\<rparr>)"

definition next_forward_token :: "'h ExecutorClientInner \<Rightarrow> 64 word \<times> 'h ExecutorClientInner" where
  "next_forward_token cl = (next_token cl, cl\<lparr>next_token := next_token cl + 1\<rparr>)"

text \<open>
  The first half of \<open>request\<close>: registering the waiter and sending; \<open>sent\<close> is the outcome of
  the send. The second half is the wait for the channel.
\<close>

definition register_request ::
    "ExecutorRequest \<Rightarrow> nat \<Rightarrow> (ControlError, unit) result \<Rightarrow> 'h ExecutorClientInner
       \<Rightarrow> (ControlError option, unit) result \<times> 'h ExecutorClientInner" where
  "register_request req waiter sent cl =
     (case request_id req of
        None \<Rightarrow> (Inl None, cl)
      | Some i \<Rightarrow>
          let cl1 = cl\<lparr>pending := hm_insert i waiter (pending cl)\<rparr> in
          (case sent of
             Inl err \<Rightarrow> (Inl (Some err), cl1\<lparr>pending := hm_remove i (pending cl1)\<rparr>)
           | Inr _ \<Rightarrow> (Inr (), cl1)))"

datatype reader_action = Deliver nat ExecutorResponse | ForwardEvent "64 word" string "32 word" fd | Ignore

text \<open>One response in the reading thread of the client.\<close>

fun reader_turn ::
    "ExecutorResponse \<Rightarrow> fd option \<Rightarrow> 'h ExecutorClientInner \<Rightarrow> reader_action \<times> 'h ExecutorClientInner" where
  "reader_turn (RequestOk i d) fd cl =
     (case hm_get (pending cl) i of
        None \<Rightarrow> (Ignore, cl)
      | Some waiter \<Rightarrow> (Deliver waiter (RequestOk i d), cl\<lparr>pending := hm_remove i (pending cl)\<rparr>))"
| "reader_turn (RequestErr i m) fd cl =
     (case hm_get (pending cl) i of
        None \<Rightarrow> (Ignore, cl)
      | Some waiter \<Rightarrow> (Deliver waiter (RequestErr i m), cl\<lparr>pending := hm_remove i (pending cl)\<rparr>))"
| "reader_turn (RemoteForwardIncoming token address port_no) fd cl =
     (case fd of None \<Rightarrow> (Ignore, cl) | Some f \<Rightarrow> (ForwardEvent token address port_no f, cl))"
| "reader_turn HelloAck fd cl = (Ignore, cl)"

text \<open>The end of the reading thread: every waiter gets an error.\<close>

definition reader_drain :: "'h ExecutorClientInner \<Rightarrow> reader_action list \<times> 'h ExecutorClientInner" where
  "reader_drain cl =
     (map (\<lambda>(i, waiter). Deliver waiter (RequestErr 0 ''executor control channel closed'')) (pending cl),
      cl\<lparr>pending := []\<rparr>)"

datatype ClientError =
    ExecutorFailed string string
  | UnexpectedResponse string

text \<open>What the operations of the client make of the response; \<open>what\<close> names the operation.\<close>

fun stream_result :: "string \<Rightarrow> ExecutorResponse \<Rightarrow> (ClientError, unit) result" where
  "stream_result what (RequestOk _ _) = Inr ()"
| "stream_result what (RequestErr _ message) = Inl (ExecutorFailed what message)"
| "stream_result what _ = Inl (UnexpectedResponse what)"

definition finish_remote_forward ::
    "'h \<Rightarrow> string \<Rightarrow> 64 word \<Rightarrow> ExecutorResponse \<Rightarrow> 'h ExecutorClientInner
       \<Rightarrow> (ClientError, 64 word \<times> 32 word) result \<times> 'h ExecutorClientInner" where
  "finish_remote_forward handle address token resp cl =
     (case resp of
        RequestOk _ (BoundPort bound_port) \<Rightarrow>
          (Inr (token, ucast bound_port),
           cl\<lparr>registrations := hm_insert token
                \<lparr>session_handle = handle, connected_address = address, connected_port = ucast bound_port\<rparr>
                (registrations cl)\<rparr>)
      | RequestErr _ message \<Rightarrow> (Inl (ExecutorFailed ''bind remote forward'' message), cl)
      | _ \<Rightarrow> (Inl (UnexpectedResponse ''remote-forward''), cl))"

text \<open>
  A forwarded connection reported by the executor: the channel to open on the session of
  its registration, or an error for an unknown token.
\<close>

definition dispatch_remote_forward_event ::
    "'h ExecutorClientInner \<Rightarrow> 64 word \<Rightarrow> string \<Rightarrow> 32 word
       \<Rightarrow> (ExecError, 'h \<times> string \<times> 32 word \<times> string \<times> 32 word) result" where
  "dispatch_remote_forward_event cl token address port_no =
     (case hm_get (registrations cl) token of
        None \<Rightarrow> Inl (UnknownToken token)
      | Some reg \<Rightarrow> Inr (session_handle reg, connected_address reg, connected_port reg, address, port_no))"

subsection \<open>The client of other platforms\<close>

text \<open>
  There the services run as tasks of the server itself: each operation starts a task and
  returns the other end of an in-memory stream.
\<close>

record 'h LocalClient =
  local_hello :: ExecutorHello
  local_next_token :: "64 word"
  forward_regs :: "(64 word, 'h RemoteForwardRegistration) hmap"
  local_tasks :: "(64 word, nat) hmap"

definition local_spawn :: "path \<Rightarrow> ExecMode \<Rightarrow> path \<Rightarrow> 'h LocalClient" where
  "local_spawn sh mode home =
     \<lparr>local_hello = \<lparr>hello_home_dir = home, hello_shell = sh, hello_exec_mode = mode\<rparr>,
      local_next_token = 1, forward_regs = [], local_tasks = []\<rparr>"

text \<open>The outcome of starting the process is only logged: the caller gets its stream in any case.\<close>

definition local_start_process ::
    "'w ExecOs \<Rightarrow> 'h LocalClient \<Rightarrow> ProcessRequest \<Rightarrow> 'w \<Rightarrow> (ExecError, unit) result \<times> 'w" where
  "local_start_process os cl request w =
     (Inr (), if req_pty request \<noteq> None
              then snd (start_pty_process_service Windows (os_pty os) (local_hello cl) request w)
              else snd (start_piped_process_service (os_spawn os) (local_hello cl) request w))"

definition local_start_sftp :: "'w ExecOs \<Rightarrow> 'h LocalClient \<Rightarrow> fd \<Rightarrow> 'w \<Rightarrow> (ExecError, unit) result \<times> 'w" where
  "local_start_sftp os cl child w = (Inr (), run_sftp os child (sftp_new (hello_home_dir (local_hello cl))) w)"

definition local_connect_tcp ::
    "'w ExecOs \<Rightarrow> string \<Rightarrow> 16 word \<Rightarrow> fd \<Rightarrow> 'w \<Rightarrow> (ExecError, unit) result \<times> 'w" where
  "local_connect_tcp os host port_no child w =
     (case tcp_connect os host port_no w of
        (Inl err, w1) \<Rightarrow> (Inl (ConnectFailed host port_no err), w1)
      | (Inr _, w1) \<Rightarrow> (Inr (), run_proxy os child host port_no w1))"

definition local_start_remote_forward ::
    "'w ExecOs \<Rightarrow> 'h \<Rightarrow> string \<Rightarrow> string \<Rightarrow> 16 word \<Rightarrow> 'h LocalClient \<Rightarrow> 'w
       \<Rightarrow> (ExecError, 64 word \<times> 32 word) result \<times> 'h LocalClient \<times> 'w" where
  "local_start_remote_forward os handle address bind_address bind_port cl w =
     (let token = local_next_token cl; cl1 = cl\<lparr>local_next_token := token + 1\<rparr> in
      (case tcp_bind os bind_address bind_port w of
         (Inl err, w1) \<Rightarrow> (Inl (BindFailed bind_address bind_port err), cl1, w1)
       | (Inr _, w1) \<Rightarrow>
           (case local_port os w1 of
              (Inl err, w2) \<Rightarrow> (Inl (LocalAddrFailed err), cl1, w2)
            | (Inr bound_port, w2) \<Rightarrow>
                let cl2 = cl1\<lparr>forward_regs := hm_insert token
                    \<lparr>session_handle = handle, connected_address = address, connected_port = ucast bound_port\<rparr>
                    (forward_regs cl1)\<rparr> in
                (case spawn_accept os token w2 of
                   (task, w3) \<Rightarrow>
                     (Inr (token, ucast bound_port), cl2\<lparr>local_tasks := hm_insert token task (local_tasks cl2)\<rparr>, w3)))))"

text \<open>One connection in the accept task: the channel to open, or the end of the task.\<close>

definition local_accept ::
    "'h LocalClient \<Rightarrow> 64 word \<Rightarrow> string \<Rightarrow> 32 word \<Rightarrow> ('h \<times> string \<times> 32 word \<times> string \<times> 32 word) option" where
  "local_accept cl token address port_no =
     map_option (\<lambda>reg. (session_handle reg, connected_address reg, connected_port reg, address, port_no))
       (hm_get (forward_regs cl) token)"

definition local_cancel_remote_forward ::
    "'w ExecOs \<Rightarrow> 64 word \<Rightarrow> 'h LocalClient \<Rightarrow> 'w \<Rightarrow> (ExecError, unit) result \<times> 'h LocalClient \<times> 'w" where
  "local_cancel_remote_forward os token cl w =
     (let cl1 = cl\<lparr>forward_regs := hm_remove token (forward_regs cl)\<rparr> in
      (Inr (), cl1\<lparr>local_tasks := hm_remove token (local_tasks cl1)\<rparr>,
       case hm_get (local_tasks cl1) token of None \<Rightarrow> w | Some task \<Rightarrow> abort_task os task w))"

subsection \<open>Packets within and beyond the limit\<close>

lemma received_requests_append:
  "isl (control_recv c r) \<Longrightarrow> received_requests c (ps @ r # qs) = received_requests c ps"
  by (induction ps) (auto simp: isl_def split: sum.split)

text \<open>
  [C37] The size limit of control messages. A message whose encoding fits the receiver's
  buffer is received as it was sent, with its descriptor. A longer one is cut and does not
  decode, and that ends the executor: it answers the requests before it and nothing that
  comes after, whatever that is.
\<close>

theorem control_message_limit:
  assumes "codec_laws c" "\<And>m b k. to_vec c m = Inr b \<Longrightarrow> b \<noteq> [] \<and> (k < length b \<longrightarrow> isl (from_slice c (take k b)))"
    and "control_packet c req attached_fd = Inr pkt"
  shows "(length (payload pkt) \<le> MAX_CONTROL_MESSAGE_SIZE \<longrightarrow> control_recv c (Inr pkt) = Inr (req, attached_fd)) \<and>
    (MAX_CONTROL_MESSAGE_SIZE < length (payload pkt) \<longrightarrow>
       run_from_control_stdin os fmt c send (before @ Inr pkt # after) w = run_from_control_stdin os fmt c send before w)"
proof -
  obtain b where b: "to_vec c req = Inr b" "payload pkt = b" "\<not> ctrunc pkt"
    "packet_fds pkt = (case attached_fd of None \<Rightarrow> [] | Some fd \<Rightarrow> [fd])"
    using assms(3) by (cases "to_vec c req") (auto simp: control_packet_def encode_message_def)
  have dec: "from_slice c b = Inr req" "b \<noteq> []" using assms(1,2) b(1) by (auto simp: codec_laws_def)
  have "control_recv c (Inr pkt) = Inr (req, attached_fd)" if "length b \<le> MAX_CONTROL_MESSAGE_SIZE"
    using that b dec by (auto simp: control_recv_def decode_message_def split: option.split)
  moreover have "isl (control_recv c (Inr pkt))" if long: "MAX_CONTROL_MESSAGE_SIZE < length b"
  proof -
    obtain e where "from_slice c (take MAX_CONTROL_MESSAGE_SIZE b) = Inl e"
      using assms(2) [OF b(1), of MAX_CONTROL_MESSAGE_SIZE] long by (auto simp: isl_def)
    with b show ?thesis by (auto simp: control_recv_def decode_message_def Let_def split: option.split)
  qed
  ultimately show ?thesis using b(2) by (auto simp: run_from_control_stdin_def received_requests_append)
qed

text \<open>A concrete codec: connection requests to port 22 as a line of text.\<close>

definition line_codec :: "ExecutorRequest codec" where
  "line_codec =
     \<lparr>to_vec = (\<lambda>r. case r of ConnectTcp i host prt \<Rightarrow>
          if i = 1 \<and> prt = 22 \<and> CHR 0x0A \<notin> set host then Inr (host @ [CHR 0x0A]) else Inl ''other'' | _ \<Rightarrow> Inl ''other''),
      from_slice = (\<lambda>b. if b \<noteq> [] \<and> last b = CHR 0x0A \<and> CHR 0x0A \<notin> set (butlast b)
                       then Inr (ConnectTcp 1 (butlast b) 22) else Inl ''line''),
      u32_bytes = u32_bytes test_codec, u32_value = u32_value test_codec\<rparr>"

lemma line_codec_vec: "to_vec line_codec r = Inr b \<longleftrightarrow> (\<exists>host. r = ConnectTcp 1 host 22 \<and> b = host @ [CHR 0x0A] \<and> CHR 0x0A \<notin> set host)"
  by (cases r) (auto simp: line_codec_def)

lemma line_codec_laws: "codec_laws line_codec"
  using test_u32 unfolding codec_laws_def line_codec_vec by (auto simp: line_codec_def)

lemma line_codec_prefix:
  assumes "to_vec line_codec r = Inr b"
  shows "b \<noteq> [] \<and> (k < length b \<longrightarrow> isl (from_slice line_codec (take k b)))"
proof -
  obtain host where b: "b = host @ [CHR 0x0A]" "CHR 0x0A \<notin> set host" using assms by (auto simp: line_codec_vec)
  have "last (take k host) \<noteq> CHR 0x0A" if "take k host \<noteq> []"
    using b(2) last_in_set [OF that] in_set_takeD [of _ k host] by metis
  with b show ?thesis by (auto simp: line_codec_def)
qed

theorem control_message_limit_witness:
  "\<forall>(os :: unit ExecOs) fmt send w q. run_from_control_stdin os fmt line_codec send
      [Inr \<lparr>payload = replicate 65536 CHR ''a'' @ [CHR 0x0A], packet_fds = [], ctrunc = False\<rparr>, q] w =
    ([], True, \<lparr>hello = None, forward_tasks = []\<rparr>, w)"
proof (intro allI)
  fix os :: "unit ExecOs" and fmt send w q
  let ?p = "\<lparr>payload = replicate 65536 CHR ''a'' @ [CHR 0x0A], packet_fds = [], ctrunc = False\<rparr>"
  have "control_packet line_codec (ConnectTcp 1 (replicate 65536 CHR ''a'') 22) None = Inr ?p"
    by (simp add: control_packet_def encode_message_def line_codec_def)
  from control_message_limit [OF line_codec_laws line_codec_prefix this,
      where os = os and fmt = fmt and send = send and before = "[]" and after = "[q]" and w = w]
  show "run_from_control_stdin os fmt line_codec send [Inr ?p, q] w = ([], True, \<lparr>hello = None, forward_tasks = []\<rparr>, w)"
    by (simp add: MAX_CONTROL_MESSAGE_SIZE_def run_from_control_stdin_def)
qed

subsection \<open>Client and executor together\<close>

datatype client_op =
    OpProcess ProcessRequest fd
  | OpSftp fd
  | OpConnect string "16 word" fd
  | OpForward string "16 word"
  | OpCancel "64 word"

type_synonym 'h built = "ExecutorRequest \<times> fd option \<times> 'h ExecutorClientInner"

definition client_start_process :: "ProcessRequest \<Rightarrow> fd \<Rightarrow> 'h ExecutorClientInner \<Rightarrow> 'h built" where
  "client_start_process request child_fd cl =
     (case next_request_id cl of (i, cl1) \<Rightarrow> (StartProcess i request, Some child_fd, cl1))"

definition client_start_sftp :: "fd \<Rightarrow> 'h ExecutorClientInner \<Rightarrow> 'h built" where
  "client_start_sftp child_fd cl = (case next_request_id cl of (i, cl1) \<Rightarrow> (StartSftp i, Some child_fd, cl1))"

definition client_connect_tcp :: "string \<Rightarrow> 16 word \<Rightarrow> fd \<Rightarrow> 'h ExecutorClientInner \<Rightarrow> 'h built" where
  "client_connect_tcp host port_no child_fd cl =
     (case next_request_id cl of (i, cl1) \<Rightarrow> (ConnectTcp i host port_no, Some child_fd, cl1))"

definition client_start_remote_forward :: "string \<Rightarrow> 16 word \<Rightarrow> 'h ExecutorClientInner \<Rightarrow> 'h built" where
  "client_start_remote_forward bind_address bind_port cl =
     (case next_request_id cl of (i, cl1) \<Rightarrow>
        (case next_forward_token cl1 of (token, cl2) \<Rightarrow> (StartRemoteForward i token bind_address bind_port, None, cl2)))"

definition client_cancel_remote_forward :: "64 word \<Rightarrow> 'h ExecutorClientInner \<Rightarrow> 'h built" where
  "client_cancel_remote_forward token cl =
     (let cl0 = cl\<lparr>registrations := hm_remove token (registrations cl)\<rparr> in
      (case next_request_id cl0 of (i, cl1) \<Rightarrow> (CancelRemoteForward i token, None, cl1)))"

fun build_request :: "client_op \<Rightarrow> 'h ExecutorClientInner \<Rightarrow> 'h built" where
  "build_request (OpProcess request fd) cl = client_start_process request fd cl"
| "build_request (OpSftp fd) cl = client_start_sftp fd cl"
| "build_request (OpConnect host port_no fd) cl = client_connect_tcp host port_no fd cl"
| "build_request (OpForward bind_address bind_port) cl = client_start_remote_forward bind_address bind_port cl"
| "build_request (OpCancel token) cl = client_cancel_remote_forward token cl"

lemmas client_request_defs = client_start_process_def client_start_sftp_def client_connect_tcp_def
  client_start_remote_forward_def client_cancel_remote_forward_def next_request_id_def next_forward_token_def

record ('h, 'w) ExecSystem =
  client :: "'h ExecutorClientInner"
  to_exec :: "(ExecutorRequest \<times> fd option) list"
  to_client :: "(ExecutorResponse \<times> fd option) list"
  executor :: ExecutorState
  exec_world :: 'w
  issued :: "ExecutorRequest list"
  allocated :: nat
  delivered :: "(nat \<times> ExecutorResponse) list"

datatype exec_event = Issue client_op | IssueFails client_op ControlError | Handle | Accept "64 word" string "32 word" fd | Receive

text \<open>
  A request that was sent gets the next waiter; \<open>issued\<close>, \<open>allocated\<close> and \<open>delivered\<close> record the
  requests by waiter, the number of request ids drawn, and what the waiters received.
\<close>

inductive exec_step ::
    "'w ExecOs \<Rightarrow> (ExecError \<Rightarrow> string) \<Rightarrow> ('h, 'w) ExecSystem \<Rightarrow> exec_event \<Rightarrow> ('h, 'w) ExecSystem \<Rightarrow> bool"
  for os fmt where
  issue_ok: "build_request op (client S) = (req, fd, cl1) \<Longrightarrow>
     register_request req (length (issued S)) (Inr ()) cl1 = (Inr (), cl2) \<Longrightarrow>
     exec_step os fmt S (Issue op)
       (S\<lparr>client := cl2, to_exec := to_exec S @ [(req, fd)], issued := issued S @ [req], allocated := allocated S + 1\<rparr>)"
| issue_fails: "build_request op (client S) = (req, fd, cl1) \<Longrightarrow>
     register_request req (length (issued S)) (Inl err) cl1 = (Inl e, cl2) \<Longrightarrow>
     exec_step os fmt S (IssueFails op err) (S\<lparr>client := cl2, allocated := allocated S + 1\<rparr>)"
| handle_next: "to_exec S = (req, fd) # rest \<Longrightarrow>
     handle_request os fmt req fd (executor S) (exec_world S) = (resp, x, w) \<Longrightarrow>
     exec_step os fmt S Handle
       (S\<lparr>to_exec := rest, to_client := to_client S @ [(resp, None)], executor := x, exec_world := w\<rparr>)"
| accept_forward: "hm_get (forward_tasks (executor S)) token \<noteq> None \<Longrightarrow>
     exec_step os fmt S (Accept token address port_no fd)
       (S\<lparr>to_client := to_client S @ [(RemoteForwardIncoming token address port_no, Some fd)]\<rparr>)"
| receive_next: "to_client S = (resp, fd) # rest \<Longrightarrow> reader_turn resp fd (client S) = (act, cl1) \<Longrightarrow>
     exec_step os fmt S Receive
       (S\<lparr>to_client := rest, client := cl1,
          delivered := delivered S @ (case act of Deliver waiter r \<Rightarrow> [(waiter, r)] | _ \<Rightarrow> [])\<rparr>)"

fun response_id :: "ExecutorResponse \<Rightarrow> 64 word option" where
  "response_id (RequestOk i _) = Some i"
| "response_id (RequestErr i _) = Some i"
| "response_id _ = None"

definition req_ids :: "ExecutorRequest list \<Rightarrow> 64 word list" where
  "req_ids rs = map (\<lambda>r. the (request_id r)) rs"

definition resp_ids :: "ExecutorResponse list \<Rightarrow> 64 word list" where
  "resp_ids rs = List.map_filter response_id rs"

definition in_flight :: "('h, 'w) ExecSystem \<Rightarrow> 64 word list" where
  "in_flight S = req_ids (map fst (to_exec S)) @ resp_ids (map fst (to_client S))"

definition id_limit :: nat where
  "id_limit = 2 ^ 64 - 1"

definition ids_ok :: "('h, 'w) ExecSystem \<Rightarrow> bool" where
  "ids_ok S \<longleftrightarrow>
     next_request (client S) = of_nat (allocated S + 1) \<and>
     (\<forall>r \<in> set (issued S). \<exists>k. request_id r = Some (of_nat k) \<and> 1 \<le> k \<and> k \<le> allocated S) \<and>
     distinct (req_ids (issued S))"

definition flow_ok :: "('h, 'w) ExecSystem \<Rightarrow> bool" where
  "flow_ok S \<longleftrightarrow>
     (\<forall>x \<in> set (to_exec S). request_id (fst x) \<noteq> None) \<and>
     mset (req_ids (issued S)) = mset (in_flight S) + mset (resp_ids (map snd (delivered S)))"

definition delivered_ok :: "('h, 'w) ExecSystem \<Rightarrow> bool" where
  "delivered_ok S \<longleftrightarrow>
     (\<forall>x \<in> set (delivered S). fst x < length (issued S) \<and> response_id (snd x) = request_id (issued S ! fst x))"

definition pending_ok :: "('h, 'w) ExecSystem \<Rightarrow> bool" where
  "pending_ok S \<longleftrightarrow>
     hm_wf (pending (client S)) \<and>
     (\<forall>i waiter. hm_get (pending (client S)) i = Some waiter \<longleftrightarrow>
        waiter < length (issued S) \<and> request_id (issued S ! waiter) = Some i \<and> i \<in> set (in_flight S))"

definition exec_body :: "('h, 'w) ExecSystem \<Rightarrow> bool" where
  "exec_body S \<longleftrightarrow> ids_ok S \<and> flow_ok S \<and> delivered_ok S \<and> pending_ok S"

definition exec_inv :: "('h, 'w) ExecSystem \<Rightarrow> bool" where
  "exec_inv S \<longleftrightarrow> (allocated S < id_limit \<longrightarrow> exec_body S)"

definition system_new :: "'w \<Rightarrow> ExecutorState \<Rightarrow> ('h, 'w) ExecSystem" where
  "system_new w x =
     \<lparr>client = client_new, to_exec = [], to_client = [], executor = x, exec_world = w,
      issued = [], allocated = 0, delivered = []\<rparr>"

lemma ids_simps [simp]:
  "req_ids [] = []" "req_ids (r # rs) = the (request_id r) # req_ids rs" "req_ids (rs @ rs') = req_ids rs @ req_ids rs'"
  "resp_ids [] = []" "resp_ids (p # ps) = (case response_id p of None \<Rightarrow> resp_ids ps | Some i \<Rightarrow> i # resp_ids ps)"
  "resp_ids (ps @ ps') = resp_ids ps @ resp_ids ps'"
  by (simp_all add: req_ids_def resp_ids_def List.map_filter_def split: option.split)

lemma build_request_shape:
  assumes "build_request op cl = (req, fd, cl1)"
  shows "request_id req = Some (next_request cl)" "next_request cl1 = next_request cl + 1" "pending cl1 = pending cl"
  using assms
  by (cases op; auto simp: client_request_defs Let_def)+

lemma handle_request_answers:
  "request_id req = Some i \<Longrightarrow> handle_request os fmt req fd s w = (resp, s', w') \<Longrightarrow> response_id resp = Some i"
  by (cases req) (auto simp: request_result_def split: prod.splits sum.splits)

lemma fresh_id:
  assumes "ids_ok S" "allocated S + 1 < id_limit"
  shows "next_request (client S) \<notin> set (req_ids (issued S))"
proof
  assume "next_request (client S) \<in> set (req_ids (issued S))"
  then obtain r where "r \<in> set (issued S)" "next_request (client S) = the (request_id r)"
    by (auto simp: req_ids_def)
  moreover from this(1) assms(1) obtain k where "request_id r = Some (of_nat k)" and le: "k \<le> allocated S"
    unfolding ids_ok_def by blast
  moreover have "next_request (client S) = of_nat (allocated S + 1)" using assms(1) unfolding ids_ok_def by blast
  ultimately have k: "of_nat (allocated S + 1) = (of_nat k :: 64 word)" by simp
  have "unat (of_nat n :: 64 word) = n" if "n \<le> allocated S + 1" for n
    using assms(2) that by (simp add: unat_of_nat id_limit_def)
  from this [of "allocated S + 1"] this [of k] k le show False by (metis Suc_eq_plus1 le_SucI not_less_eq_eq order_refl)
qed

lemma in_flight_issued:
  assumes "ids_ok S" "flow_ok S"
  shows "set (in_flight S) \<subseteq> set (req_ids (issued S))" "distinct (in_flight S)"
    "distinct (resp_ids (map snd (delivered S)))"
proof -
  have m: "mset (req_ids (issued S)) = mset (in_flight S @ resp_ids (map snd (delivered S)))"
    and d: "distinct (req_ids (issued S))"
    using assms by (simp_all add: ids_ok_def flow_ok_def)
  from m d have "distinct (in_flight S @ resp_ids (map snd (delivered S)))"
    by (metis mset_eq_imp_distinct_iff)
  then show "distinct (in_flight S)" "distinct (resp_ids (map snd (delivered S)))" by auto
  from mset_eq_setD [OF m] show "set (in_flight S) \<subseteq> set (req_ids (issued S))" by auto
qed

lemma issue_ok_body:
  assumes body: "exec_body S" and room: "allocated S + 1 < id_limit"
    and "build_request op (client S) = (req, fd, cl1)"
    and "register_request req (length (issued S)) (Inr ()) cl1 = (Inr (), cl2)"
    and T: "T = S\<lparr>client := cl2, to_exec := to_exec S @ [(req, fd)], issued := issued S @ [req],
      allocated := allocated S + 1\<rparr>"
  shows "exec_body T"
proof -
  note sh = build_request_shape [OF assms(3)]
  define i where "i = next_request (client S)"
  have ids: "ids_ok S" and flow: "flow_ok S" and del: "delivered_ok S" and pend: "pending_ok S"
    using body by (simp_all add: exec_body_def)
  have cl2: "cl2 = cl1\<lparr>pending := hm_insert i (length (issued S)) (pending (client S))\<rparr>"
    using assms(4) sh by (simp add: register_request_def i_def)
  have nxt: "i = of_nat (allocated S + 1)" using ids by (simp add: ids_ok_def i_def)
  have fresh: "i \<notin> set (req_ids (issued S))" using fresh_id [OF ids room] by (simp add: i_def)
  have old: "request_id (issued S ! k) \<noteq> Some i" if "k < length (issued S)" for k
    using fresh nth_mem [OF that] by (force simp: req_ids_def image_iff)
  have notin: "i \<notin> set (in_flight S)" using in_flight_issued(1) [OF ids flow] fresh by blast
  have req: "request_id req = Some i" using sh by (simp add: i_def)
  have "ids_ok T"
    unfolding ids_ok_def
  proof (intro conjI ballI)
    show "next_request (client T) = of_nat (allocated T + 1)" using sh nxt by (simp add: T cl2 i_def)
    show "distinct (req_ids (issued T))" using ids fresh req by (simp add: T ids_ok_def)
    fix r assume "r \<in> set (issued T)"
    then consider "r = req" | "r \<in> set (issued S)" by (auto simp: T)
    then show "\<exists>k. request_id r = Some (of_nat k) \<and> 1 \<le> k \<and> k \<le> allocated T"
    proof cases
      case 1
      with req nxt show ?thesis by (intro exI [of _ "allocated S + 1"]) (simp add: T)
    next
      case 2
      with ids show ?thesis by (auto simp: T ids_ok_def intro: le_SucI)
    qed
  qed
  moreover have "flow_ok T" using flow req by (auto simp: T flow_ok_def in_flight_def)
  moreover have "delivered_ok T" using del by (auto simp: T delivered_ok_def nth_append)
  moreover have "pending_ok T"
    using pend old notin req by (auto simp: T cl2 pending_ok_def in_flight_def nth_append less_Suc_eq)
  ultimately show ?thesis by (simp add: exec_body_def)
qed

lemma issue_fails_body:
  assumes body: "exec_body S" and room: "allocated S + 1 < id_limit"
    and "build_request op (client S) = (req, fd, cl1)"
    and "register_request req (length (issued S)) (Inl err) cl1 = (Inl e, cl2)"
    and T: "T = S\<lparr>client := cl2, allocated := allocated S + 1\<rparr>"
  shows "exec_body T"
proof -
  note sh = build_request_shape [OF assms(3)]
  have ids: "ids_ok S" and flow: "flow_ok S" and pend: "pending_ok S"
    using body by (simp_all add: exec_body_def)
  let ?i = "next_request (client S)"
  have p2: "pending cl2 = hm_remove ?i (hm_insert ?i (length (issued S)) (pending (client S)))"
    and n2: "next_request cl2 = next_request cl1"
    using assms(4) sh by (auto simp: register_request_def)
  have "?i \<notin> set (in_flight S)" using in_flight_issued(1) [OF ids flow] fresh_id [OF ids room] by blast
  then have "hm_get (pending (client S)) ?i = None"
    using pend by (cases "hm_get (pending (client S)) ?i") (auto simp: pending_ok_def)
  then have "hm_get (pending cl2) = hm_get (pending (client S))"
    using p2 hm.put_del_fresh [of "pending (client S)" ?i] pend by (auto simp: pending_ok_def)
  moreover have "hm_wf (pending cl2)" using p2 pend by (simp add: pending_ok_def)
  ultimately have "pending_ok T" using pend by (simp add: T pending_ok_def in_flight_def)
  moreover have "ids_ok T" using ids sh n2 by (auto simp: T ids_ok_def intro: le_SucI)
  moreover have "flow_ok T" "delivered_ok T"
    using body by (simp_all add: T exec_body_def flow_ok_def delivered_ok_def in_flight_def)
  ultimately show ?thesis by (simp add: exec_body_def)
qed

lemma exec_body_frame:
  assumes "exec_body S" "client T = client S" "issued T = issued S" "allocated T = allocated S" "delivered T = delivered S"
    and "mset (in_flight T) = mset (in_flight S)" "\<forall>x \<in> set (to_exec T). request_id (fst x) \<noteq> None"
  shows "exec_body T"
proof -
  have "ids_ok T = ids_ok S" unfolding ids_ok_def assms(2-5) ..
  moreover have "delivered_ok T = delivered_ok S" unfolding delivered_ok_def assms(2-5) ..
  moreover have "pending_ok T = pending_ok S" unfolding pending_ok_def assms(2-5) mset_eq_setD [OF assms(6)] ..
  moreover have "flow_ok T"
  proof -
    have "flow_ok S" using assms(1) by (simp add: exec_body_def)
    then have "mset (req_ids (issued S)) = mset (in_flight S) + mset (resp_ids (map snd (delivered S)))"
      by (simp add: flow_ok_def)
    with assms(7) show ?thesis unfolding flow_ok_def assms(2-6) by simp
  qed
  ultimately show ?thesis using assms(1) by (simp add: exec_body_def)
qed

lemma reader_turn_shape:
  assumes "reader_turn resp fd cl = (act, cl1)"
  shows "(cl1 = cl \<and> (case act of Deliver waiter r \<Rightarrow> [(waiter, r)] | _ \<Rightarrow> []) = [] \<and>
      (\<forall>i. response_id resp = Some i \<longrightarrow> hm_get (pending cl) i = None)) \<or>
    (\<exists>i waiter. response_id resp = Some i \<and> hm_get (pending cl) i = Some waiter \<and> act = Deliver waiter resp \<and>
      cl1 = cl\<lparr>pending := hm_remove i (pending cl)\<rparr>)"
proof (cases resp)
  case (RequestOk i d)
  with assms show ?thesis by (cases "hm_get (pending cl) i") auto
next
  case (RequestErr i m)
  with assms show ?thesis by (cases "hm_get (pending cl) i") auto
qed (use assms in \<open>auto split: option.splits\<close>)

lemma reader_turn_cases:
  assumes "reader_turn resp fd cl = (act, cl1)"
  obtains (skip) "cl1 = cl" "(case act of Deliver waiter r \<Rightarrow> [(waiter, r)] | _ \<Rightarrow> []) = []"
      "\<forall>i. response_id resp = Some i \<longrightarrow> hm_get (pending cl) i = None"
  | (found) i waiter where "response_id resp = Some i" "hm_get (pending cl) i = Some waiter" "act = Deliver waiter resp"
      "cl1 = cl\<lparr>pending := hm_remove i (pending cl)\<rparr>"
  using reader_turn_shape [OF assms] by metis

lemma receive_body:
  assumes body: "exec_body S" and head: "to_client S = (resp, fd) # rest"
    and turn: "reader_turn resp fd (client S) = (act, cl1)"
    and T: "T = S\<lparr>to_client := rest, client := cl1,
      delivered := delivered S @ (case act of Deliver waiter r \<Rightarrow> [(waiter, r)] | _ \<Rightarrow> [])\<rparr>"
  shows "exec_body T"
proof -
  have ids: "ids_ok S" and flow: "flow_ok S" and pend: "pending_ok S"
    using body by (simp_all add: exec_body_def)
  have split: "in_flight S = req_ids (map fst (to_exec S)) @ resp_ids [resp] @ resp_ids (map fst rest)"
    using head by (simp add: in_flight_def split: option.split)
  have rest: "in_flight T = req_ids (map fst (to_exec S)) @ resp_ids (map fst rest)" by (simp add: T in_flight_def)
  show ?thesis
    using turn
  proof (cases rule: reader_turn_cases)
    case skip
    have "response_id resp = None"
    proof (rule ccontr)
      assume "response_id resp \<noteq> None"
      then obtain i where i: "response_id resp = Some i" by blast
      then have "i \<in> set (in_flight S)" using split by simp
      then have "i \<in> set (req_ids (issued S))" using in_flight_issued(1) [OF ids flow] by blast
      then obtain k where "k < length (issued S)" "the (request_id (issued S ! k)) = i"
        by (auto simp: req_ids_def in_set_conv_nth)
      moreover have "request_id (issued S ! k) \<noteq> None"
        using ids \<open>k < length (issued S)\<close> by (auto simp: ids_ok_def dest!: bspec [OF _ nth_mem])
      ultimately have "hm_get (pending (client S)) i = Some k"
        using pend \<open>i \<in> set (in_flight S)\<close> by (auto simp: pending_ok_def)
      with skip(3) i show False by simp
    qed
    with body skip(1,2) split rest show ?thesis
      by (intro exec_body_frame [OF body]) (simp_all add: T flow_ok_def exec_body_def)
  next
    case (found i waiter)
    have w: "waiter < length (issued S)" "request_id (issued S ! waiter) = Some i"
      using pend found(2) by (auto simp: pending_ok_def)
    have d: "distinct (in_flight S)" using in_flight_issued(2) [OF ids flow] .
    have mem: "set (in_flight T) = set (in_flight S) - {i}"
      using split rest d found(1) by auto
    have "delivered_ok T" using body w found by (auto simp: T exec_body_def delivered_ok_def)
    moreover have "ids_ok T" using ids found(4) by (simp add: T ids_ok_def)
    moreover have "flow_ok T" using flow split rest found by (simp add: T flow_ok_def)
    moreover have "pending_ok T"
      using pend mem found(4) by (auto simp: T pending_ok_def)
    ultimately show ?thesis by (simp add: exec_body_def)
  qed
qed

lemma exec_step_inv: "exec_step os fmt S ev T \<Longrightarrow> exec_inv S \<Longrightarrow> exec_inv T"
proof (induction rule: exec_step.induct)
  case (issue_ok op S req fd cl1 cl2)
  then show ?case unfolding exec_inv_def using issue_ok_body [OF _ _ issue_ok(1,2) refl] by simp
next
  case (issue_fails op S req fd cl1 err e cl2)
  then show ?case unfolding exec_inv_def using issue_fails_body [OF _ _ issue_fails(1,2) refl] by simp
next
  case (handle_next S req fd rest resp x w)
  show ?case
    unfolding exec_inv_def
  proof
    let ?T = "S\<lparr>to_exec := rest, to_client := to_client S @ [(resp, None)], executor := x, exec_world := w\<rparr>"
    assume "allocated ?T < id_limit"
    with handle_next(3) have body: "exec_body S" by (simp add: exec_inv_def)
    then obtain i where i: "request_id req = Some i" using handle_next(1) by (auto simp: exec_body_def flow_ok_def)
    with handle_request_answers [OF i handle_next(2)] handle_next(1) body show "exec_body ?T"
      by (intro exec_body_frame [OF body]) (auto simp: in_flight_def exec_body_def flow_ok_def)
  qed
next
  case (accept_forward S token address port_no fd)
  show ?case
    unfolding exec_inv_def
  proof
    let ?T = "S\<lparr>to_client := to_client S @ [(RemoteForwardIncoming token address port_no, Some fd)]\<rparr>"
    assume "allocated ?T < id_limit"
    with accept_forward(2) have body: "exec_body S" by (simp add: exec_inv_def)
    then show "exec_body ?T"
      by (intro exec_body_frame [OF body]) (simp_all add: in_flight_def exec_body_def flow_ok_def)
  qed
next
  case (receive_next S resp fd rest act cl1)
  then show ?case unfolding exec_inv_def using receive_body [OF _ receive_next(1,2) refl] by simp
qed

lemma system_new_inv: "exec_inv (system_new w x)"
  by (simp add: exec_inv_def exec_body_def ids_ok_def flow_ok_def delivered_ok_def pending_ok_def in_flight_def
      system_new_def client_new_def)

interpretation exec_system: event_system "system_new w x" "exec_step os fmt" exec_inv
  by unfold_locales (auto intro: system_new_inv exec_step_inv)

lemma delivered_ids:
  assumes "ids_ok S" "delivered_ok S"
  shows "map Some (resp_ids (map snd (delivered S))) = map (\<lambda>k. request_id (issued S ! k)) (map fst (delivered S))"
proof -
  have "response_id (snd y) = request_id (issued S ! fst y) \<and> request_id (issued S ! fst y) \<noteq> None"
    if "y \<in> set (delivered S)" for y
    using assms that nth_mem [of "fst y" "issued S"] by (fastforce simp: delivered_ok_def ids_ok_def)
  then have "map Some (resp_ids (map snd ds)) = map (\<lambda>k. request_id (issued S ! k)) (map fst ds)"
    if "set ds \<subseteq> set (delivered S)" for ds using that by (induction ds) (force split: option.split)+
  then show ?thesis by blast
qed



end
