(* ===== verification/Sshd_Handler.thy ===== *)
theory Sshd_Handler
  imports Sshd_State Executor Rust_Utf8
begin

text \<open>
  The handler of one SSH connection (\<open>ClientHandler\<close> in \<open>src/src/sshd.rs\<close>): authentication,
  session channels with their environment and terminal, the launch of shells, commands
  and the file transfer service, and TCP forwarding in both directions.

  The SSH library drives the handler by calls; a call carries the answers the executor
  client would give during it. The connection records the calls it makes to the executor
  client. Channels are identified by numbers.
\<close>

subsection \<open>Data\<close>

record PtyRequest =
  term_name :: string
  term_size :: SerializablePtySize

record PendingChannel =
  chan_pty :: "PtyRequest option"
  chan_env :: "(string, string) hmap"

record ForwardKey =
  fwd_address :: string
  fwd_port :: "32 word"

datatype exec_call =
    CallProcess ProcessRequest
  | CallSftp
  | CallConnect string "16 word"
  | CallForward string string "16 word"
  | CallCancel "64 word"

record ExecAnswers =
  ans_process :: bool
  ans_sftp :: bool
  ans_connect :: bool
  ans_forward :: "(64 word \<times> 32 word) option"
  ans_cancel :: bool
  ans_session :: bool

record Conn =
  conn_peer :: "SocketAddr option"
  conn_ctx :: PreauthContext
  conn_authenticated :: bool
  conn_notified :: bool
  channels :: "(nat, PendingChannel) hmap"
  forwards :: "(ForwardKey, 64 word) hmap"
  exec_calls :: "exec_call list"

definition handler_new :: "SocketAddr option \<Rightarrow> PreauthContext \<Rightarrow> Conn" where
  "handler_new peer ctx =
     \<lparr>conn_peer = peer, conn_ctx = ctx, conn_authenticated = False, conn_notified = False, channels = [], forwards = [],
      exec_calls = []\<rparr>"

text \<open>
  What the library is told: a decision on authentication, success or failure of a channel
  request, acceptance or rejection of an opened channel, the answer to a forwarding
  request. An error ends the connection.
\<close>

datatype OpenFailure = AdministrativelyProhibited | OpenConnectFailed

datatype Reply =
    AuthReply Auth
  | ChannelSuccess
  | ChannelFailure
  | OpenAccepted
  | OpenRejected OpenFailure
  | ForwardReply bool "32 word"
  | CancelReply bool
  | NoReply
  | HandlerError

text \<open>A handler call: its result is \<open>None\<close> when it panics.\<close>

type_synonym handler = "Conn \<Rightarrow> AppState \<Rightarrow> Reply option \<times> Conn \<times> AppState"

definition record_call :: "exec_call \<Rightarrow> Conn \<Rightarrow> Conn" where
  "record_call x c = c\<lparr>exec_calls := exec_calls c @ [x]\<rparr>"

text \<open>
  A reply to a channel request goes through the session of the library, which may refuse
  it (\<open>channel_success(..)?\<close>).
\<close>

definition session_reply :: "ExecAnswers \<Rightarrow> Reply \<Rightarrow> Reply option" where
  "session_reply ans r = Some (if ans_session ans then r else HandlerError)"

subsection \<open>Authentication calls\<close>

definition auth_publickey :: "'k SshEnv \<Rightarrow> (nat \<Rightarrow> instant) \<Rightarrow> FsView \<Rightarrow> string \<Rightarrow> 'k \<Rightarrow> handler" where
  "auth_publickey env t view user key c st =
     (case authorize_key env t view (conn_peer c) user key st of
        (r, st') \<Rightarrow> (map_option (\<lambda>x. case x of Inl e \<Rightarrow> HandlerError | Inr a \<Rightarrow> AuthReply a) r, c, st'))"

definition auth_publickey_offered :: "'k SshEnv \<Rightarrow> (nat \<Rightarrow> instant) \<Rightarrow> FsView \<Rightarrow> string \<Rightarrow> 'k \<Rightarrow> handler" where
  "auth_publickey_offered env t view user key c st =
     (case authorize_key env t view (conn_peer c) user key st of
        (r, st') \<Rightarrow> (map_option (\<lambda>x. case x of Inl e \<Rightarrow> HandlerError | Inr a \<Rightarrow> AuthReply a) r, c, st'))"

definition auth_password :: "'k SshEnv \<Rightarrow> (nat \<Rightarrow> instant) \<Rightarrow> handler" where
  "auth_password env t c st =
     (case app_record_auth_failure env t (conn_peer c) ''auth-reject-password'' ''password authentication is disabled'' st of
        (None, st') \<Rightarrow> (None, c, st')
      | (Some _, st') \<Rightarrow> (Some (AuthReply Auth.Reject), c, st'))"

definition conn_shared :: "Conn \<Rightarrow> AppState \<Rightarrow> ConnShared" where
  "conn_shared c st =
     \<lparr>authenticated = conn_authenticated c, controller = app_admission st, conn_metrics = app_metrics st,
      success_received = conn_notified c\<rparr>"

definition put_shared :: "PreauthContext \<Rightarrow> ConnShared \<Rightarrow> Conn \<Rightarrow> AppState \<Rightarrow> Conn \<times> AppState" where
  "put_shared ctx sh c st =
     (c\<lparr>conn_ctx := ctx, conn_authenticated := authenticated sh, conn_notified := success_received sh\<rparr>,
      st\<lparr>app_admission := controller sh, app_metrics := conn_metrics sh\<rparr>)"

definition auth_succeeded :: "'k SshEnv \<Rightarrow> (nat \<Rightarrow> instant) \<Rightarrow> handler" where
  "auth_succeeded env t c st =
     (case context_mark_authenticated (env_platform env) (t 0) (t 1) (conn_ctx c, conn_shared c st) of
        (r, ctx, sh) \<Rightarrow>
          (case put_shared ctx sh c st of
             (c', st') \<Rightarrow>
               (case r of
                  None \<Rightarrow> (None, c', st')
                | Some _ \<Rightarrow> (Some NoReply, c', snd (log_line (AuthSuccessLine (conn_peer c)) 0 st')))))"

subsection \<open>Channels\<close>

definition channel_open_session :: "nat \<Rightarrow> handler" where
  "channel_open_session i c st =
     (Some OpenAccepted, c\<lparr>channels := hm_insert i \<lparr>chan_pty = None, chan_env = []\<rparr> (channels c)\<rparr>, st)"

definition channel_open_direct_tcpip :: "ExecAnswers \<Rightarrow> string \<Rightarrow> 32 word \<Rightarrow> handler" where
  "channel_open_direct_tcpip ans host target c st =
     (if \<not> allow_tcp_forwarding (app_config st) then (Some (OpenRejected AdministrativelyProhibited), c, st)
      else if 65535 < target then (Some (OpenRejected AdministrativelyProhibited), c, st)
      else let c' = record_call (CallConnect host (ucast target)) c in
           if ans_connect ans then (Some OpenAccepted, c', st)
           else (Some (OpenRejected OpenConnectFailed), c', st))"

definition is_env_allowed :: "string \<Rightarrow> bool" where
  "is_env_allowed name \<longleftrightarrow>
     name = ''TERM'' \<or> name = ''COLORTERM'' \<or> name = ''LANG'' \<or> name = ''TZ'' \<or> starts_with ''LC_'' name"

definition channel_mut :: "nat \<Rightarrow> (PendingChannel \<Rightarrow> PendingChannel) \<Rightarrow> Conn \<Rightarrow> Conn option" where
  "channel_mut i f c =
     (case hm_get (channels c) i of
        None \<Rightarrow> None
      | Some ch \<Rightarrow> Some (c\<lparr>channels := hm_insert i (f ch) (channels c)\<rparr>))"

definition take_channel :: "nat \<Rightarrow> Conn \<Rightarrow> (PendingChannel \<times> Conn) option" where
  "take_channel i c =
     (case hm_get (channels c) i of
        None \<Rightarrow> None
      | Some ch \<Rightarrow> Some (ch, c\<lparr>channels := hm_remove i (channels c)\<rparr>))"

definition env_request :: "ExecAnswers \<Rightarrow> nat \<Rightarrow> string \<Rightarrow> string \<Rightarrow> handler" where
  "env_request ans i name val c st =
     (if \<not> is_env_allowed name then (session_reply ans ChannelFailure, c, st)
      else case channel_mut i (\<lambda>ch. ch\<lparr>chan_env := hm_insert name val (chan_env ch)\<rparr>) c of
          None \<Rightarrow> (Some HandlerError, c, st)
        | Some c' \<Rightarrow> (session_reply ans ChannelSuccess, c', st))"

definition pty_request :: "ExecAnswers \<Rightarrow> nat \<Rightarrow> string \<Rightarrow> 32 word \<Rightarrow> 32 word \<Rightarrow> 32 word \<Rightarrow> 32 word \<Rightarrow> handler" where
  "pty_request ans i name col_width row_height pix_width pix_height c st =
     (if \<not> permit_tty (app_config st) then (session_reply ans ChannelFailure, c, st)
      else case channel_mut i (\<lambda>ch. ch\<lparr>chan_pty := Some
                 \<lparr>term_name = name,
                  term_size = \<lparr>rows = clamp_dimension row_height, cols = clamp_dimension col_width,
                               pixel_width = clamp_dimension pix_width, pixel_height = clamp_dimension pix_height\<rparr>\<rparr>\<rparr>) c of
          None \<Rightarrow> (Some HandlerError, c, st)
        | Some c' \<Rightarrow> (session_reply ans ChannelSuccess, c', st))"

text \<open>\<open>entry(k).or_insert_with(..)\<close> of a map.\<close>

definition env_or_insert :: "string \<Rightarrow> string \<Rightarrow> (string, string) hmap \<Rightarrow> (string, string) hmap" where
  "env_or_insert k v m = (case hm_get m k of None \<Rightarrow> hm_insert k v m | Some _ \<Rightarrow> m)"

fun allowed_env :: "(string \<times> string) list \<Rightarrow> (string, string) hmap \<Rightarrow> (string, string) hmap" where
  "allowed_env [] m = m"
| "allowed_env ((k, v) # kvs) m = allowed_env kvs (if is_env_allowed k then hm_insert k v m else m)"

definition build_child_env :: "AppState \<Rightarrow> (string, string) hmap \<Rightarrow> string option \<Rightarrow> (string, string) hmap" where
  "build_child_env st requested name =
     (let m0 = allowed_env requested [];
          m1 = env_or_insert ''HOME'' (from_utf8_lossy (app_home_dir st)) m0;
          m2 = env_or_insert ''USER'' (daemon_username st) m1;
          m3 = env_or_insert ''LOGNAME'' (daemon_username st) m2;
          m4 = env_or_insert ''SHELL'' (from_utf8_lossy (shell (app_config st))) m3
      in case name of None \<Rightarrow> m4 | Some v \<Rightarrow> env_or_insert ''TERM'' v m4)"

definition to_executor_pty_request :: "PtyRequest \<Rightarrow> SerializablePtyRequest" where
  "to_executor_pty_request pty =
     \<lparr>pty_term = term_name pty,
      pty_size = \<lparr>rows = rows (term_size pty), cols = cols (term_size pty),
                  pixel_width = pixel_width (term_size pty), pixel_height = pixel_height (term_size pty)\<rparr>\<rparr>"

text \<open>Launching a service: whether the executor started it, and the call that asked for it.\<close>

definition launch_process :: "ExecAnswers \<Rightarrow> AppState \<Rightarrow> PendingChannel \<Rightarrow> string option \<Rightarrow> Conn \<Rightarrow> bool \<times> Conn" where
  "launch_process ans st pend command c =
     (let request =
            \<lparr>req_pty = map_option to_executor_pty_request (chan_pty pend),
             req_env = build_child_env st (chan_env pend) (map_option term_name (chan_pty pend)),
             req_command = command\<rparr>
      in (ans_process ans, record_call (CallProcess request) c))"

definition launch_shell :: "ExecAnswers \<Rightarrow> AppState \<Rightarrow> PendingChannel \<Rightarrow> Conn \<Rightarrow> bool \<times> Conn" where
  "launch_shell ans st pend c = launch_process ans st pend None c"

definition launch_exec :: "ExecAnswers \<Rightarrow> AppState \<Rightarrow> PendingChannel \<Rightarrow> string \<Rightarrow> Conn \<Rightarrow> bool \<times> Conn" where
  "launch_exec ans st pend command c = launch_process ans st pend (Some command) c"

definition launch_sftp :: "ExecAnswers \<Rightarrow> PendingChannel \<Rightarrow> Conn \<Rightarrow> bool \<times> Conn" where
  "launch_sftp ans pend c = (ans_sftp ans, record_call CallSftp c)"

definition launched :: "ExecAnswers \<Rightarrow> bool \<times> Conn \<Rightarrow> AppState \<Rightarrow> Reply option \<times> Conn \<times> AppState" where
  "launched ans x st =
     (case x of (started, c) \<Rightarrow> (session_reply ans (if started then ChannelSuccess else ChannelFailure), c, st))"

definition shell_request :: "ExecAnswers \<Rightarrow> nat \<Rightarrow> handler" where
  "shell_request ans i c st =
     (case take_channel i c of
        None \<Rightarrow> (Some HandlerError, c, st)
      | Some (pend, c1) \<Rightarrow> launched ans (launch_shell ans st pend c1) st)"

definition exec_request :: "ExecAnswers \<Rightarrow> nat \<Rightarrow> string \<Rightarrow> handler" where
  "exec_request ans i bytes c st =
     (if \<not> permit_exec (app_config st) then (session_reply ans ChannelFailure, c, st)
      else case take_channel i c of
          None \<Rightarrow> (Some HandlerError, c, st)
        | Some (pend, c1) \<Rightarrow> launched ans (launch_exec ans st pend (from_utf8_lossy bytes) c1) st)"

definition subsystem_request :: "ExecAnswers \<Rightarrow> nat \<Rightarrow> string \<Rightarrow> handler" where
  "subsystem_request ans i name c st =
     (if name \<noteq> ''sftp'' \<or> \<not> sftp_enabled (app_config st) then (session_reply ans ChannelFailure, c, st)
      else case take_channel i c of
          None \<Rightarrow> (Some HandlerError, c, st)
        | Some (pend, c1) \<Rightarrow> launched ans (launch_sftp ans pend c1) st)"

definition channel_close :: "nat \<Rightarrow> handler" where
  "channel_close i c st = (Some NoReply, c\<lparr>channels := hm_remove i (channels c)\<rparr>, st)"

subsection \<open>Remote forwarding\<close>

definition tcpip_forward :: "ExecAnswers \<Rightarrow> string \<Rightarrow> 32 word \<Rightarrow> handler" where
  "tcpip_forward ans address prt c st =
     (if \<not> allow_remote_forwarding (app_config st) then (Some (ForwardReply False prt), c, st)
      else
        let bind_host = (if gateway_ports (app_config st)
                         then (if address = [] then ''0.0.0.0'' else address) else ''127.0.0.1'') in
        if 65535 < prt then (Some HandlerError, c, st)
        else
          let conn_address = (if address = [] then bind_host else address) in
          if hm_get (forwards c) \<lparr>fwd_address = address, fwd_port = prt\<rparr> \<noteq> None
          then (Some (ForwardReply False prt), c, st)
          else
            let c' = record_call (CallForward conn_address bind_host (ucast prt)) c in
            (case ans_forward ans of
               None \<Rightarrow> (Some (ForwardReply False prt), c', st)
             | Some (token, bound) \<Rightarrow>
                 (Some (ForwardReply True bound),
                  c'\<lparr>forwards := hm_insert \<lparr>fwd_address = address, fwd_port = bound\<rparr> token (forwards c')\<rparr>, st)))"

definition cancel_tcpip_forward :: "ExecAnswers \<Rightarrow> string \<Rightarrow> 32 word \<Rightarrow> handler" where
  "cancel_tcpip_forward ans address prt c st =
     (let key = \<lparr>fwd_address = address, fwd_port = prt\<rparr> in
      (case hm_get (forwards c) key of
         None \<Rightarrow> (Some (CancelReply False), c, st)
       | Some token \<Rightarrow>
           let c' = record_call (CallCancel token) (c\<lparr>forwards := hm_remove key (forwards c)\<rparr>) in
           if ans_cancel ans then (Some (CancelReply True), c', st) else (Some HandlerError, c', st)))"

text \<open>Dropping the handler: every forward still registered is cancelled, then its fields are dropped.\<close>

definition handler_drop :: "'k SshEnv \<Rightarrow> instant \<Rightarrow> Conn \<Rightarrow> AppState \<Rightarrow> unit option \<times> Conn \<times> AppState" where
  "handler_drop env now c st =
     (let c1 = c\<lparr>forwards := [], exec_calls := exec_calls c @ map (\<lambda>(k, token). CallCancel token) (forwards c)\<rparr> in
      (case context_drop (env_platform env) now (conn_ctx c1, conn_shared c1 st) of
         (r, ctx, sh) \<Rightarrow> (case put_shared ctx sh c1 st of (c', st') \<Rightarrow> (r, c', st'))))"

subsection \<open>Sequences of calls\<close>

datatype 'k call =
    AuthPublickeyOffered string 'k
  | AuthPublickey string 'k
  | AuthPassword
  | AuthSucceeded
  | OpenSession nat
  | OpenDirectTcpip string "32 word"
  | EnvRequest nat string string
  | PtyRequested nat string "32 word" "32 word" "32 word" "32 word"
  | ShellRequest nat
  | ExecRequest nat string
  | SubsystemRequest nat string
  | ChannelClosed nat
  | TcpipForward string "32 word"
  | CancelTcpipForward string "32 word"

text \<open>Each call comes with the clock readings, the state of the key file and the executor's answers during it.\<close>

record 'k timed_call =
  the_call :: "'k call"
  at_times :: "nat \<Rightarrow> instant"
  at_view :: FsView
  at_answers :: ExecAnswers

fun handle :: "'k SshEnv \<Rightarrow> (nat \<Rightarrow> instant) \<Rightarrow> FsView \<Rightarrow> ExecAnswers \<Rightarrow> 'k call \<Rightarrow> handler" where
  "handle env t view ans (AuthPublickeyOffered user key) = auth_publickey_offered env t view user key"
| "handle env t view ans (AuthPublickey user key) = auth_publickey env t view user key"
| "handle env t view ans AuthPassword = auth_password env t"
| "handle env t view ans AuthSucceeded = auth_succeeded env t"
| "handle env t view ans (OpenSession i) = channel_open_session i"
| "handle env t view ans (OpenDirectTcpip host target) = channel_open_direct_tcpip ans host target"
| "handle env t view ans (EnvRequest i name val) = env_request ans i name val"
| "handle env t view ans (PtyRequested i name cw rh pw ph) = pty_request ans i name cw rh pw ph"
| "handle env t view ans (ShellRequest i) = shell_request ans i"
| "handle env t view ans (ExecRequest i bytes) = exec_request ans i bytes"
| "handle env t view ans (SubsystemRequest i name) = subsystem_request ans i name"
| "handle env t view ans (ChannelClosed i) = channel_close i"
| "handle env t view ans (TcpipForward address prt) = tcpip_forward ans address prt"
| "handle env t view ans (CancelTcpipForward address prt) = cancel_tcpip_forward ans address prt"

definition handle_timed :: "'k SshEnv \<Rightarrow> 'k timed_call \<Rightarrow> handler" where
  "handle_timed env tc = handle env (at_times tc) (at_view tc) (at_answers tc) (the_call tc)"

text \<open>The library stops calling a handler that panicked or returned an error.\<close>

fun run_calls :: "'k SshEnv \<Rightarrow> 'k timed_call list \<Rightarrow> Conn \<Rightarrow> AppState \<Rightarrow> Reply option list \<times> Conn \<times> AppState" where
  "run_calls env [] c st = ([], c, st)"
| "run_calls env (tc # tcs) c st =
     (case handle_timed env tc c st of
        (r, c1, st1) \<Rightarrow>
          if r = None \<or> r = Some HandlerError then ([r], c1, st1)
          else (case run_calls env tcs c1 st1 of (rs, c2, st2) \<Rightarrow> (r # rs, c2, st2)))"

subsection \<open>What a call may do to the connection\<close>

text \<open>
  What the configuration allows the connection to ask of the executor. A child gets the
  variables a client may set, and the login variables with the daemon's own values.
\<close>

definition login_env :: "AppState \<Rightarrow> (string \<times> string) list" where
  "login_env st =
     [(''HOME'', from_utf8_lossy (app_home_dir st)), (''USER'', daemon_username st), (''LOGNAME'', daemon_username st),
      (''SHELL'', from_utf8_lossy (shell (app_config st)))]"

definition env_permitted :: "AppState \<Rightarrow> (string, string) hmap \<Rightarrow> bool" where
  "env_permitted st m \<longleftrightarrow>
     list_all (\<lambda>x. is_env_allowed (fst x) \<or> x \<in> set (login_env st)) m \<and>
     list_all (\<lambda>x. hm_get m (fst x) = Some (snd x)) (login_env st)"

definition size_positive :: "SerializablePtySize \<Rightarrow> bool" where
  "size_positive s \<longleftrightarrow> 1 \<le> rows s \<and> 1 \<le> cols s \<and> 1 \<le> pixel_width s \<and> 1 \<le> pixel_height s"

fun call_allowed :: "AppState \<Rightarrow> exec_call \<Rightarrow> bool" where
  "call_allowed st (CallProcess req) \<longleftrightarrow>
     (req_command req = None \<or> permit_exec (app_config st)) \<and>
     (case req_pty req of None \<Rightarrow> True | Some pty \<Rightarrow> permit_tty (app_config st) \<and> size_positive (pty_size pty)) \<and>
     env_permitted st (req_env req)"
| "call_allowed st CallSftp \<longleftrightarrow> sftp_enabled (app_config st)"
| "call_allowed st (CallConnect host target) \<longleftrightarrow> allow_tcp_forwarding (app_config st)"
| "call_allowed st (CallForward conn_address bind_host prt) \<longleftrightarrow>
     allow_remote_forwarding (app_config st) \<and> (gateway_ports (app_config st) \<or> bind_host = ''127.0.0.1'')"
| "call_allowed st (CallCancel token) \<longleftrightarrow> True"

fun is_launch :: "exec_call \<Rightarrow> bool" where
  "is_launch (CallProcess _) = True"
| "is_launch CallSftp = True"
| "is_launch _ = False"

fun cancel_token :: "exec_call \<Rightarrow> 64 word list" where
  "cancel_token (CallCancel token) = [token]"
| "cancel_token _ = []"

fun is_open_session :: "'k call \<Rightarrow> bool" where
  "is_open_session (OpenSession _) = True"
| "is_open_session _ = False"

text \<open>The token of the forward that a call started, from its reply.\<close>

fun started_token :: "'k timed_call \<Rightarrow> Reply option \<Rightarrow> 64 word list" where
  "started_token tc (Some (ForwardReply True _)) =
     (case ans_forward (at_answers tc) of None \<Rightarrow> [] | Some (token, _) \<Rightarrow> [token])"
| "started_token tc _ = []"

definition channel_ok :: "AppState \<Rightarrow> PendingChannel \<Rightarrow> bool" where
  "channel_ok st ch \<longleftrightarrow>
     (case chan_pty ch of None \<Rightarrow> True | Some pty \<Rightarrow> permit_tty (app_config st) \<and> size_positive (term_size pty))"

text \<open>The effects a call can have on the connection.\<close>

inductive conn_step :: "AppState \<Rightarrow> 'k timed_call \<Rightarrow> Reply option \<Rightarrow> Conn \<Rightarrow> Conn \<Rightarrow> bool" for st tc where
  cs_same: "started_token tc r = [] \<Longrightarrow> conn_step st tc r c c"
| cs_mark: "started_token tc r = [] \<Longrightarrow> the_call tc = AuthSucceeded \<Longrightarrow>
    conn_step st tc r c (c\<lparr>conn_ctx := x, conn_authenticated := a, conn_notified := n\<rparr>)"
| cs_open: "started_token tc r = [] \<Longrightarrow> the_call tc = OpenSession i \<Longrightarrow>
    conn_step st tc r c (c\<lparr>channels := hm_insert i \<lparr>chan_pty = None, chan_env = []\<rparr> (channels c)\<rparr>)"
| cs_alter: "started_token tc r = [] \<Longrightarrow> hm_get (channels c) i = Some ch \<Longrightarrow> channel_ok st ch \<longrightarrow> channel_ok st ch' \<Longrightarrow>
    conn_step st tc r c (c\<lparr>channels := hm_insert i ch' (channels c)\<rparr>)"
| cs_take: "started_token tc r = [] \<Longrightarrow> hm_get (channels c) i = Some ch \<Longrightarrow> is_launch x \<Longrightarrow>
    channel_ok st ch \<longrightarrow> call_allowed st x \<Longrightarrow>
    conn_step st tc r c (record_call x (c\<lparr>channels := hm_remove i (channels c)\<rparr>))"
| cs_close: "started_token tc r = [] \<Longrightarrow> conn_step st tc r c (c\<lparr>channels := hm_remove i (channels c)\<rparr>)"
| cs_call: "started_token tc r = [] \<Longrightarrow> call_allowed st x \<Longrightarrow> \<not> is_launch x \<Longrightarrow> cancel_token x = [] \<Longrightarrow>
    conn_step st tc r c (record_call x c)"
| cs_forward: "started_token tc r = [token] \<Longrightarrow> call_allowed st x \<Longrightarrow> \<not> is_launch x \<Longrightarrow> cancel_token x = [] \<Longrightarrow>
    the_call tc = TcpipForward address prt \<Longrightarrow> ans_forward (at_answers tc) = Some (token, bound) \<Longrightarrow>
    conn_step st tc r c
      (record_call x (c\<lparr>forwards := hm_insert \<lparr>fwd_address = address, fwd_port = bound\<rparr> token (forwards c)\<rparr>))"
| cs_cancel: "started_token tc r = [] \<Longrightarrow> hm_get (forwards c) key = Some token \<Longrightarrow>
    conn_step st tc r c (record_call (CallCancel token) (c\<lparr>forwards := hm_remove key (forwards c)\<rparr>))"

subsubsection \<open>The environment of a child\<close>

lemma list_all_update: "list_all P m \<Longrightarrow> P (k, v) \<Longrightarrow> list_all P (hm_insert k v m)"
  by (induction m) auto

lemma list_all_delete: "list_all P m \<Longrightarrow> list_all P (hm_remove k m)"
  by (induction m) auto

lemma allowed_env_allowed:
  "list_all (\<lambda>x. is_env_allowed (fst x)) m \<Longrightarrow> list_all (\<lambda>x. is_env_allowed (fst x)) (allowed_env kvs m)"
  by (induction kvs m rule: allowed_env.induct) (auto simp: list_all_update)

lemma env_or_insert_get: "hm_get (env_or_insert k v m) k' = (if k' = k \<and> hm_get m k = None then Some v else hm_get m k')"
  by (auto simp: env_or_insert_def split: option.splits)

lemma env_or_insert_all: "list_all P m \<Longrightarrow> P (k, v) \<Longrightarrow> list_all P (env_or_insert k v m)"
  by (simp add: env_or_insert_def list_all_update split: option.splits)

lemma login_names_not_allowed:
  "\<not> is_env_allowed ''HOME''" "\<not> is_env_allowed ''USER''" "\<not> is_env_allowed ''LOGNAME''" "\<not> is_env_allowed ''SHELL''"
  "is_env_allowed ''TERM''"
  by (simp_all add: is_env_allowed_def starts_with_def)

lemma list_all_get_None: "list_all (\<lambda>x. is_env_allowed (fst x)) m \<Longrightarrow> \<not> is_env_allowed k \<Longrightarrow> hm_get m k = None"
  by (induction m) auto

lemma build_child_env_permitted: "env_permitted st (build_child_env st requested name)"
proof -
  have a: "list_all (\<lambda>x. is_env_allowed (fst x)) (allowed_env requested [])" by (rule allowed_env_allowed) simp
  define P where "P = (\<lambda>x. is_env_allowed (fst x) \<or> x \<in> set (login_env st))"
  have b: "list_all P (allowed_env requested [])" using a by (rule list.pred_mono_strong) (simp add: P_def)
  have "P (''HOME'', from_utf8_lossy (app_home_dir st))" "P (''USER'', daemon_username st)"
    "P (''LOGNAME'', daemon_username st)" "P (''SHELL'', from_utf8_lossy (shell (app_config st)))" "P (''TERM'', v)" for v
    by (simp_all add: P_def login_env_def login_names_not_allowed)
  then have "list_all P (build_child_env st requested name)"
    unfolding build_child_env_def Let_def by (cases name) (simp_all add: env_or_insert_all b)
  moreover have none: "hm_get (allowed_env requested []) k = None" if "\<not> is_env_allowed k" for k
    using list_all_get_None [OF a that] .
  have "list_all (\<lambda>x. hm_get (build_child_env st requested name) (fst x) = Some (snd x)) (login_env st)"
    unfolding build_child_env_def Let_def
    by (cases name) (simp_all add: login_env_def env_or_insert_get none login_names_not_allowed)
  ultimately show ?thesis by (simp add: env_permitted_def P_def)
qed

subsubsection \<open>Every call makes such a step\<close>

lemma clamp_dimension_positive: "1 \<le> clamp_dimension x"
proof -
  let ?y = "min (max x 1) 65535"
  have y: "1 \<le> unat ?y" "unat ?y < 2 ^ 16"
    by (simp_all add: min_def max_def word_le_nat_alt)
  have "unat (clamp_dimension x) = unat ?y"
    using y(2) by (simp add: clamp_dimension_def unsigned_ucast_eq take_bit_nat_eq_self)
  with y(1) show ?thesis by (simp add: word_le_nat_alt)
qed

lemma session_reply_started [simp]: "started_token tc (session_reply ans ChannelSuccess) = []"
  "started_token tc (session_reply ans ChannelFailure) = []"
  "started_token tc (session_reply ans (if b then ChannelSuccess else ChannelFailure)) = []"
  by (simp_all add: session_reply_def)

lemma auth_reply_started [simp]: "started_token tc (map_option (case_sum (\<lambda>e. HandlerError) AuthReply) x) = []"
  by (auto split: option.split sum.split simp: map_option_case)

lemma launch_process_allowed:
  assumes "launch_process ans st ch cmd c = (b, c')" "cmd = None \<or> permit_exec (app_config st)"
  shows "\<exists>x. c' = record_call x c \<and> is_launch x \<and> (channel_ok st ch \<longrightarrow> call_allowed st x)"
  using assms
  by (auto simp: launch_process_def Let_def channel_ok_def build_child_env_permitted to_executor_pty_request_def
      size_positive_def split: option.splits)

lemma take_channel_Some:
  "take_channel i c = Some (ch, c') \<longleftrightarrow> hm_get (channels c) i = Some ch \<and> c' = c\<lparr>channels := hm_remove i (channels c)\<rparr>"
  by (auto simp: take_channel_def split: option.splits)

lemma channel_mut_Some:
  "channel_mut i f c = Some c' \<longleftrightarrow> (\<exists>ch. hm_get (channels c) i = Some ch \<and> c' = c\<lparr>channels := hm_insert i (f ch) (channels c)\<rparr>)"
  by (auto simp: channel_mut_def split: option.splits)

lemma launched_step:
  assumes "launched ans (b, c1) st = (r, c', st')" "hm_get (channels c) i = Some ch"
    and "c1 = record_call x (c\<lparr>channels := hm_remove i (channels c)\<rparr>)"
    and "is_launch x" "channel_ok st ch \<longrightarrow> call_allowed st x"
  shows "conn_step st tc r c c'"
proof -
  have "c' = c1" "started_token tc r = []" using assms(1) by (auto simp: launched_def)
  with assms show ?thesis by (auto intro: cs_take)
qed

lemma shell_request_step: "shell_request ans i c st = (r, c', st') \<Longrightarrow> conn_step st tc r c c'"
proof (cases "take_channel i c")
  case None
  moreover assume "shell_request ans i c st = (r, c', st')"
  ultimately show ?thesis by (auto simp: shell_request_def intro: cs_same)
next
  case (Some y)
  obtain ch c1 where y: "y = (ch, c1)" by fastforce
  obtain b c2 where l: "launch_process ans st ch None c1 = (b, c2)" by fastforce
  assume "shell_request ans i c st = (r, c', st')"
  then have "launched ans (b, c2) st = (r, c', st')" using Some y l by (simp add: shell_request_def launch_shell_def)
  with launch_process_allowed [OF l] Some y show ?thesis by (auto simp: take_channel_Some intro: launched_step)
qed

lemma exec_request_step: "exec_request ans i bytes c st = (r, c', st') \<Longrightarrow> conn_step st tc r c c'"
proof (cases "permit_exec (app_config st) \<and> take_channel i c \<noteq> None")
  case False
  moreover assume "exec_request ans i bytes c st = (r, c', st')"
  ultimately show ?thesis by (auto simp: exec_request_def intro: cs_same split: if_splits option.splits)
next
  case True
  then obtain ch c1 where y: "take_channel i c = Some (ch, c1)" by fastforce
  obtain b c2 where l: "launch_process ans st ch (Some (from_utf8_lossy bytes)) c1 = (b, c2)" by fastforce
  assume "exec_request ans i bytes c st = (r, c', st')"
  then have "launched ans (b, c2) st = (r, c', st')" using True y l by (simp add: exec_request_def launch_exec_def)
  with launch_process_allowed [OF l] True y show ?thesis by (auto simp: take_channel_Some intro: launched_step)
qed

lemma subsystem_request_step: "subsystem_request ans i name c st = (r, c', st') \<Longrightarrow> conn_step st tc r c c'"
proof (cases "name = ''sftp'' \<and> sftp_enabled (app_config st) \<and> take_channel i c \<noteq> None")
  case False
  moreover assume "subsystem_request ans i name c st = (r, c', st')"
  ultimately show ?thesis by (auto simp: subsystem_request_def intro: cs_same split: if_splits option.splits)
next
  case True
  then obtain ch c1 where y: "take_channel i c = Some (ch, c1)" by fastforce
  assume "subsystem_request ans i name c st = (r, c', st')"
  then have l: "launched ans (ans_sftp ans, record_call CallSftp c1) st = (r, c', st')"
    using True y by (simp add: subsystem_request_def launch_sftp_def)
  show ?thesis
    using True y by (intro launched_step [OF l]) (auto simp: take_channel_Some)
qed

lemma alter_step:
  assumes "channel_mut i f c = Some c'" "\<And>ch. channel_ok st ch \<Longrightarrow> channel_ok st (f ch)" "started_token tc r = []"
  shows "conn_step st tc r c c'"
  using assms by (auto simp: channel_mut_Some intro!: cs_alter)

lemma env_request_step:
  assumes "env_request ans i name val c st = (r, c', st')"
  shows "conn_step st tc r c c'"
proof -
  let ?f = "\<lambda>ch. ch\<lparr>chan_env := hm_insert name val (chan_env ch)\<rparr>"
  have "c' = c \<and> started_token tc r = [] \<or> channel_mut i ?f c = Some c' \<and> started_token tc r = []"
    using assms by (auto simp: env_request_def split: if_splits option.splits)
  moreover have "channel_ok st ch \<Longrightarrow> channel_ok st (?f ch)" for ch by (simp add: channel_ok_def)
  ultimately show ?thesis using alter_step [of i ?f c c' st tc r] cs_same by blast
qed

lemma pty_request_step:
  assumes "pty_request ans i name cw rh pw ph c st = (r, c', st')"
  shows "conn_step st tc r c c'"
proof -
  let ?f = "\<lambda>ch. ch\<lparr>chan_pty := Some \<lparr>term_name = name, term_size = \<lparr>rows = clamp_dimension rh, cols = clamp_dimension cw,
      pixel_width = clamp_dimension pw, pixel_height = clamp_dimension ph\<rparr>\<rparr>\<rparr>"
  have "c' = c \<and> started_token tc r = [] \<or>
      permit_tty (app_config st) \<and> channel_mut i ?f c = Some c' \<and> started_token tc r = []"
    using assms by (auto simp: pty_request_def split: if_splits option.splits)
  moreover have "channel_ok st (?f ch)" if "permit_tty (app_config st)" for ch
    using that by (simp add: channel_ok_def size_positive_def clamp_dimension_positive)
  ultimately show ?thesis using alter_step [of i ?f c c' st tc r] cs_same by blast
qed

lemma tcpip_forward_step:
  assumes "tcpip_forward (at_answers tc) address prt c st = (r, c', st')" "the_call tc = TcpipForward address prt"
  shows "conn_step st tc r c c'"
proof -
  define bh where "bh = (if gateway_ports (app_config st) then (if address = [] then ''0.0.0.0'' else address) else ''127.0.0.1'')"
  define x where "x = CallForward (if address = [] then bh else address) bh (ucast prt)"
  note def = tcpip_forward_def [of "at_answers tc" address prt c st, unfolded Let_def, folded bh_def, folded x_def]
  show ?thesis
  proof (cases "allow_remote_forwarding (app_config st) \<and> \<not> 65535 < prt \<and>
      hm_get (forwards c) \<lparr>fwd_address = address, fwd_port = prt\<rparr> = None")
    case False
    then have "c' = c" "started_token tc r = []" using assms(1) by (auto simp: def split: if_splits)
    then show ?thesis by (simp add: cs_same)
  next
    case True
    then have x: "call_allowed st x" "\<not> is_launch x" "cancel_token x = []" by (auto simp: x_def bh_def)
    show ?thesis
    proof (cases "ans_forward (at_answers tc)")
      case None
      then have "c' = record_call x c" "started_token tc r = []" using assms(1) True by (auto simp: def)
      with x show ?thesis by (simp add: cs_call)
    next
      case (Some y)
      obtain token bound where y: "y = (token, bound)" by fastforce
      have "c' = record_call x (c\<lparr>forwards := hm_insert \<lparr>fwd_address = address, fwd_port = bound\<rparr> token (forwards c)\<rparr>)"
        "started_token tc r = [token]"
        using assms(1) True Some y by (auto simp: def record_call_def)
      with x assms(2) Some y show ?thesis by (simp add: cs_forward)
    qed
  qed
qed

lemma cancel_tcpip_forward_step: "cancel_tcpip_forward ans address prt c st = (r, c', st') \<Longrightarrow> conn_step st tc r c c'"
  by (auto simp: cancel_tcpip_forward_def Let_def intro: cs_same cs_cancel split: if_splits option.splits)

lemma direct_tcpip_step: "channel_open_direct_tcpip ans host target c st = (r, c', st') \<Longrightarrow> conn_step st tc r c c'"
  by (auto simp: channel_open_direct_tcpip_def Let_def intro: cs_same cs_call split: if_splits)

lemma auth_publickey_step: "auth_publickey env t view user key c st = (r, c', st') \<Longrightarrow> conn_step st tc r c c'"
  by (auto simp: auth_publickey_def intro!: cs_same split: prod.splits)

lemma auth_publickey_offered_step: "auth_publickey_offered env t view user key c st = (r, c', st') \<Longrightarrow> conn_step st tc r c c'"
  by (auto simp: auth_publickey_offered_def intro!: cs_same split: prod.splits)

lemma auth_password_step: "auth_password env t c st = (r, c', st') \<Longrightarrow> conn_step st tc r c c'"
  by (auto simp: auth_password_def intro!: cs_same split: prod.splits option.splits)

lemma auth_succeeded_step:
  "auth_succeeded env t c st = (r, c', st') \<Longrightarrow> the_call tc = AuthSucceeded \<Longrightarrow> conn_step st tc r c c'"
  by (auto simp: auth_succeeded_def put_shared_def intro!: cs_mark split: prod.splits option.splits)

lemmas call_steps = auth_publickey_step auth_publickey_offered_step auth_password_step auth_succeeded_step
  direct_tcpip_step env_request_step pty_request_step shell_request_step exec_request_step subsystem_request_step
  tcpip_forward_step cancel_tcpip_forward_step

lemma handle_timed_step:
  assumes "handle_timed env tc c st = (r, c', st')"
  shows "conn_step st tc r c c'"
  using assms
  by (cases "the_call tc")
    (auto simp: handle_timed_def channel_open_session_def channel_close_def intro: call_steps cs_open cs_close)

subsubsection \<open>What a call does to the daemon\<close>

definition gauge :: "AppState \<Rightarrow> 64 word" where
  "gauge st = current_unauthenticated_connections (app_metrics st)"

definition quiet_step :: "'k SshEnv \<Rightarrow> SocketAddr option \<Rightarrow> AppState \<Rightarrow> AppState \<Rightarrow> bool" where
  "quiet_step env peer st st' \<longleftrightarrow> same_identity st st' \<and> failure_step_or_same env peer st st' \<and> gauge st' = gauge st"

lemma quiet_refl [simp]: "quiet_step env peer st st"
  by (simp add: quiet_step_def failure_step_or_same_def)

lemma authorize_key_quiet: "authorize_key env t view peer user key st = (r, st') \<Longrightarrow> quiet_step env peer st st'"
  using authorize_key_cases [of env t view peer user key st r st'] by (simp add: quiet_step_def gauge_def)

lemma failure_quiet:
  assumes "app_record_auth_failure env t peer cat reason st = (r, st')"
  shows "quiet_step env peer st st'"
  using app_failure_frame [OF assms]
  by (auto simp: quiet_step_def gauge_def failure_step_or_same_def failure_step_def split: option.splits)

lemma auth_calls_quiet:
  "auth_publickey env t view user key c st = (r, c', st') \<Longrightarrow> c' = c \<and> quiet_step env (conn_peer c) st st'"
  "auth_publickey_offered env t view user key c st = (r, c', st') \<Longrightarrow> c' = c \<and> quiet_step env (conn_peer c) st st'"
  "auth_password env t c st = (r, c', st') \<Longrightarrow> c' = c \<and> quiet_step env (conn_peer c) st st'"
  by (auto simp: auth_publickey_def auth_publickey_offered_def auth_password_def
      intro: authorize_key_quiet failure_quiet split: prod.splits option.splits)

text \<open>The calls on channels and forwards leave the daemon's state and the admission slot alone.\<close>

definition same_slot :: "Conn \<Rightarrow> Conn \<Rightarrow> bool" where
  "same_slot c c' \<longleftrightarrow>
     conn_peer c' = conn_peer c \<and> conn_ctx c' = conn_ctx c \<and> conn_authenticated c' = conn_authenticated c \<and>
     conn_notified c' = conn_notified c"

lemma same_slot_refl [simp]: "same_slot c c"
  by (simp add: same_slot_def)

lemma conn_step_slot: "conn_step st tc r c c' \<Longrightarrow> the_call tc \<noteq> AuthSucceeded \<Longrightarrow> same_slot c c'"
  by (cases rule: conn_step.cases) (auto simp: same_slot_def record_call_def)

lemma conn_step_peer: "conn_step st tc r c c' \<Longrightarrow> conn_peer c' = conn_peer c"
  by (cases rule: conn_step.cases) (auto simp: record_call_def)

lemma service_calls_state:
  "channel_open_direct_tcpip ans host target c st = (r, c', st') \<Longrightarrow> st' = st"
  "env_request ans i name val c st = (r, c', st') \<Longrightarrow> st' = st"
  "pty_request ans i name cw rh pw ph c st = (r, c', st') \<Longrightarrow> st' = st"
  "shell_request ans i c st = (r, c', st') \<Longrightarrow> st' = st"
  "exec_request ans i bytes c st = (r, c', st') \<Longrightarrow> st' = st"
  "subsystem_request ans i name c st = (r, c', st') \<Longrightarrow> st' = st"
  "tcpip_forward ans address prt c st = (r, c', st') \<Longrightarrow> st' = st"
  "cancel_tcpip_forward ans address prt c st = (r, c', st') \<Longrightarrow> st' = st"
  by (auto simp: channel_open_direct_tcpip_def env_request_def pty_request_def shell_request_def exec_request_def
      subsystem_request_def tcpip_forward_def cancel_tcpip_forward_def launched_def Let_def
      split: if_splits option.splits prod.splits)

lemma handle_quiet:
  assumes "handle_timed env tc c st = (r, c', st')" "the_call tc \<noteq> AuthSucceeded"
  shows "quiet_step env (conn_peer c) st st'"
  using assms
  by (cases "the_call tc")
    (auto simp: handle_timed_def channel_open_session_def channel_close_def dest: service_calls_state auth_calls_quiet)

lemma auth_succeeded_identity: "auth_succeeded env t c st = (r, c', st') \<Longrightarrow> same_identity st st'"
  by (auto simp: auth_succeeded_def put_shared_def log_line_def same_identity_def split: prod.splits option.splits)

lemma handle_identity: "handle_timed env tc c st = (r, c', st') \<Longrightarrow> same_identity st st'"
  using handle_quiet [of env tc c st r c' st']
  by (cases "the_call tc = AuthSucceeded") (auto simp: handle_timed_def quiet_step_def auth_succeeded_identity)

subsection \<open>A sample session\<close>

text \<open>A client logs in with the key \<open>old\<close>, asks for a remote forward, and runs a command.\<close>

definition demo_env :: "string SshEnv" where
  "demo_env =
     \<lparr>env_platform = Unix, env_parse = test_parse, env_bytes = test_bytes, env_iter = id, key_algorithm = (\<lambda>_. Ed25519),
      algorithm_debug = (\<lambda>_. ''Ed25519'')\<rparr>"

definition demo_app :: AppState where
  "demo_app =
     \<lparr>app_config = default_config Unix ''/home/me'' ''/home/me/.config'', daemon_username = ''me'', app_home_dir = ''/home/me'',
      app_keys = Unlocked test_state,
      app_admission = controller_new (from_app_config (default_config Unix ''/home/me'' ''/home/me/.config'')) 0,
      app_limiter = Unlocked (limiter_new (from_secs 30) 4096 0), app_metrics = metrics_new 4096, app_log = []\<rparr>"

definition demo_ctx :: PreauthContext where
  "demo_ctx = \<lparr>admission_guard = None, auth_success_tx = True\<rparr>"

definition demo_call :: "string call \<Rightarrow> string timed_call" where
  "demo_call x =
     \<lparr>the_call = x, at_times = (\<lambda>_. 0), at_view = test_view 1 ''old'',
      at_answers = \<lparr>ans_process = True, ans_sftp = True, ans_connect = True, ans_forward = Some (7, 2200), ans_cancel = True,
                    ans_session = True\<rparr>\<rparr>"

definition demo_calls :: "string timed_call list" where
  "demo_calls = map demo_call
     [AuthPublickey ''me'' ''old'', AuthSucceeded, TcpipForward [] 2200, OpenSession 0, ShellRequest 0]"

lemmas demo_defs = demo_calls_def demo_call_def handle_timed_def auth_publickey_def authorize_key_def
  login_user_matches_daemon_def demo_app_def demo_env_def is_authorized_def store_refresh_def Let_def app_bind_def
  app_return_def test_state_def refresh_if_due_def cache_contains_def test_bytes_def log_line_def auth_succeeded_def
  context_mark_authenticated_def put_shared_def conn_shared_def handler_new_def demo_ctx_def tcpip_forward_def
  default_config_def record_call_def channel_open_session_def shell_request_def take_channel_def launch_shell_def
  launch_process_def launched_def session_reply_def

lemma demo_run:
  "\<exists>c' st'. run_calls demo_env demo_calls (handler_new None demo_ctx) demo_app =
     ([Some (AuthReply Auth.Accept), Some NoReply, Some (ForwardReply True 2200), Some OpenAccepted, Some ChannelSuccess], c', st') \<and>
     conn_authenticated c'"
  by (simp add: demo_defs)

subsection \<open>Requests to the executor obey the configuration\<close>

definition conn_inv :: "AppState \<Rightarrow> Conn \<Rightarrow> bool" where
  "conn_inv st c \<longleftrightarrow>
     hm_wf (channels c) \<and> hm_wf (forwards c) \<and> list_all (\<lambda>x. channel_ok st (snd x)) (channels c) \<and>
     list_all (call_allowed st) (exec_calls c)"

definition launch_count :: "Conn \<Rightarrow> nat" where
  "launch_count c = length (filter is_launch (exec_calls c))"

lemma call_allowed_cong: "same_identity st st' \<Longrightarrow> call_allowed st' x = call_allowed st x"
  by (cases x) (auto simp: same_identity_def env_permitted_def login_env_def split: option.splits)

lemma channel_ok_cong: "same_identity st st' \<Longrightarrow> channel_ok st' ch = channel_ok st ch"
  by (simp add: same_identity_def channel_ok_def split: option.split)

lemma conn_inv_cong: "same_identity st st' \<Longrightarrow> conn_inv st' c = conn_inv st c"
  by (simp add: conn_inv_def call_allowed_cong channel_ok_cong cong: list.pred_cong)

lemma conn_inv_new [simp]: "conn_inv st (handler_new peer ctx)"
  by (simp add: conn_inv_def handler_new_def hm_wf_def)

lemma conn_inv_channel: "conn_inv st c \<Longrightarrow> hm_get (channels c) i = Some ch \<Longrightarrow> channel_ok st ch"
  by (auto simp: conn_inv_def list_all_iff dest!: hm_get_in_set)

lemma conn_step_inv:
  assumes "conn_step st tc r c c'" "conn_inv st c"
  shows "conn_inv st c'"
  using assms conn_inv_channel [OF assms(2)]
  by (cases rule: conn_step.cases)
    (auto simp: conn_inv_def record_call_def channel_ok_def hm.wf_put hm.wf_del intro!: list_all_update list_all_delete)

lemma hm_len_remove_Some: "hm_wf m \<Longrightarrow> hm_get m k = Some v \<Longrightarrow> Suc (hm_len (hm_remove k m)) = hm_len m"
  using hm.len_del [of m k] by (cases m) auto

lemma hm_len_remove_le: "hm_wf m \<Longrightarrow> hm_len (hm_remove k m) \<le> hm_len m"
  using hm.len_del [of m k] by simp

lemma conn_step_launches:
  assumes "conn_step st tc r c c'" "conn_inv st c"
  shows "launch_count c' + hm_len (channels c') \<le>
    launch_count c + hm_len (channels c) + (if is_open_session (the_call tc) then 1 else 0)"
proof -
  have wf: "hm_wf (channels c)" using assms(2) by (simp add: conn_inv_def)
  from assms(1) show ?thesis
  proof (cases rule: conn_step.cases)
    case (cs_open i)
    with hm.len_put_le [OF wf, of i "\<lparr>chan_pty = None, chan_env = []\<rparr>"] show ?thesis by (simp add: launch_count_def)
  next
    case (cs_take i ch x)
    with hm_len_remove_Some [OF wf cs_take(3)] show ?thesis by (simp add: launch_count_def record_call_def)
  qed (use wf in \<open>auto simp: launch_count_def record_call_def hm.len_put intro: trans_le_add1 le_SucI hm_len_remove_le\<close>)
qed

lemma run_inv:
  assumes "run_calls env tcs c st = (rs, c', st')" "conn_inv st c"
  shows "same_identity st st' \<and> conn_inv st c' \<and> conn_peer c' = conn_peer c \<and>
    launch_count c' + hm_len (channels c') \<le> launch_count c + hm_len (channels c) +
      length (filter (\<lambda>tc. is_open_session (the_call tc)) tcs)"
  using assms
proof (induction tcs arbitrary: c st rs)
  case (Cons tc tcs)
  obtain r c1 st1 where h: "handle_timed env tc c st = (r, c1, st1)" by (metis prod_cases3)
  note step = handle_timed_step [OF h] and id = handle_identity [OF h]
  note inv1 = conn_step_inv [OF step Cons.prems(2)] and l1 = conn_step_launches [OF step Cons.prems(2)]
  show ?case
  proof (cases "r = None \<or> r = Some HandlerError")
    case True
    with Cons.prems(1) h have "c' = c1" "st' = st1" by auto
    with inv1 id l1 conn_step_peer [OF step] show ?thesis by auto
  next
    case False
    then obtain rs2 where r2: "run_calls env tcs c1 st1 = (rs2, c', st')"
      using Cons.prems(1) h by (auto split: prod.splits)
    from Cons.IH [OF r2] inv1 conn_inv_cong [OF id]
    have ih: "same_identity st1 st'" "conn_inv st1 c'" "conn_peer c' = conn_peer c1"
      "launch_count c' + hm_len (channels c') \<le> launch_count c1 + hm_len (channels c1) +
        length (filter (\<lambda>tc. is_open_session (the_call tc)) tcs)" by auto
    have "same_identity st st'" using id ih(1) by (rule same_identity_trans)
    moreover have "conn_inv st c'" using ih(2) conn_inv_cong [OF id] by simp
    ultimately show ?thesis using ih(3,4) l1 conn_step_peer [OF step] by auto
  qed
qed simp

text \<open>
  [C4] Whatever sequence of calls a client provokes, every request the connection makes to the
  executor is one the configuration allows: commands only with \<open>permit_exec\<close>, a terminal
  only with \<open>permit_tty\<close> and with no dimension zero, file transfer, direct and remote
  forwarding only when enabled, and a remote listener only on the loopback address unless
  \<open>gateway_ports\<close> is set. The environment requested for a child holds nothing but the
  variables a client may set and the login variables, which have the daemon's values and
  cannot be overridden.
  No more services are launched than sessions were opened.
\<close>

theorem requests_obey_configuration:
  "case run_calls env tcs (handler_new peer ctx) st of (rs, c', st') \<Rightarrow>
     list_all (call_allowed st) (exec_calls c') \<and>
     launch_count c' + hm_len (channels c') \<le> length (filter (\<lambda>tc. is_open_session (the_call tc)) tcs)"
proof -
  obtain rs c' st' where r: "run_calls env tcs (handler_new peer ctx) st = (rs, c', st')" by (metis prod_cases3)
  from run_inv [OF r conn_inv_new] have "conn_inv st c'"
    "launch_count c' + hm_len (channels c') \<le> length (filter (\<lambda>tc. is_open_session (the_call tc)) tcs)"
    by (auto simp: handler_new_def launch_count_def)
  with r show ?thesis by (simp add: conn_inv_def)
qed

subsection \<open>Remote forwards\<close>

definition cancelled :: "Conn \<Rightarrow> 64 word list" where
  "cancelled c = concat (map cancel_token (exec_calls c))"

fun started :: "'k timed_call list \<Rightarrow> Reply option list \<Rightarrow> 64 word list" where
  "started (tc # tcs) (r # rs) = started_token tc r @ started tcs rs"
| "started _ _ = []"

text \<open>
  The executor reports the port its listener is bound to. The system does not give a port
  to a listener while another one of this connection holds it for the same address.
\<close>

fun port_free :: "'k timed_call \<Rightarrow> Conn \<Rightarrow> bool" where
  "port_free tc c =
     (case (the_call tc, ans_forward (at_answers tc)) of
        (TcpipForward address prt, Some (token, bound)) \<Rightarrow>
          hm_get (forwards c) \<lparr>fwd_address = address, fwd_port = bound\<rparr> = None
      | _ \<Rightarrow> True)"

fun ports_free :: "'k SshEnv \<Rightarrow> 'k timed_call list \<Rightarrow> Conn \<Rightarrow> AppState \<Rightarrow> bool" where
  "ports_free env [] c st = True"
| "ports_free env (tc # tcs) c st =
     (port_free tc c \<and> (case handle_timed env tc c st of (r, c1, st1) \<Rightarrow> ports_free env tcs c1 st1))"

lemma mset_remove: "hm_wf m \<Longrightarrow> hm_get m k = Some v \<Longrightarrow> add_mset v (mset (map snd (hm_remove k m))) = mset (map snd m)"
proof (induction m)
  case (Cons x m)
  obtain k' v' where x: "x = (k', v')" by fastforce
  show ?case
  proof (cases "k' = k")
    case True
    then have "k \<notin> fst ` set m" using Cons.prems(1) x by (simp add: hm_wf_def)
    then have "hm_remove k m = m" by simp
    with True x Cons.prems show ?thesis by simp
  next
    case False
    with x Cons show ?thesis by (simp add: hm_wf_def)
  qed
qed simp

lemma mset_insert_fresh:
  "hm_get m k = None \<Longrightarrow> image_mset snd (mset (hm_insert k v m)) = add_mset v (image_mset snd (mset m))"
  by (induction m) (auto split: if_splits)

lemma conn_step_tokens:
  assumes "conn_step st tc r c c'" "conn_inv st c" "port_free tc c"
  shows "mset (cancelled c') + mset (map snd (forwards c')) =
    mset (cancelled c) + mset (map snd (forwards c)) + mset (started_token tc r)"
proof -
  have wf: "hm_wf (forwards c)" using assms(2) by (simp add: conn_inv_def)
  from assms(1) show ?thesis
  proof (cases rule: conn_step.cases)
    case (cs_take i ch x)
    then have "cancel_token x = []" by (cases x) auto
    with cs_take show ?thesis by (simp add: cancelled_def record_call_def)
  next
    case (cs_forward token x address prt bound)
    then have "hm_get (forwards c) \<lparr>fwd_address = address, fwd_port = bound\<rparr> = None" using assms(3) by simp
    with cs_forward show ?thesis by (simp add: cancelled_def record_call_def mset_insert_fresh del: map_update)
  next
    case (cs_cancel key token)
    with mset_remove [OF wf cs_cancel(3)] show ?thesis by (simp add: cancelled_def record_call_def)
  qed (simp_all add: cancelled_def record_call_def)
qed

lemma run_tokens:
  assumes "run_calls env tcs c st = (rs, c', st')" "conn_inv st c" "ports_free env tcs c st"
  shows "mset (cancelled c') + mset (map snd (forwards c')) =
    mset (cancelled c) + mset (map snd (forwards c)) + mset (started tcs rs)"
  using assms
proof (induction tcs arbitrary: c st rs)
  case (Cons tc tcs)
  obtain r c1 st1 where h: "handle_timed env tc c st = (r, c1, st1)" by (metis prod_cases3)
  note step = handle_timed_step [OF h]
  have pf: "port_free tc c" "ports_free env tcs c1 st1" using Cons.prems(3) h by auto
  note t1 = conn_step_tokens [OF step Cons.prems(2) pf(1)]
  have inv1: "conn_inv st1 c1"
    using conn_step_inv [OF step Cons.prems(2)] conn_inv_cong [OF handle_identity [OF h]] by simp
  show ?case
  proof (cases "r = None \<or> r = Some HandlerError")
    case True
    with Cons.prems(1) h have "c' = c1" "rs = [r]" by auto
    with t1 show ?thesis by (cases tcs) auto
  next
    case False
    then obtain rs2 where r2: "run_calls env tcs c1 st1 = (rs2, c', st')" "rs = r # rs2"
      using Cons.prems(1) h by (auto split: prod.splits)
    from Cons.IH [OF r2(1) inv1 pf(2)] t1 r2(2) show ?thesis by (simp add: add_ac)
  qed
qed simp

text \<open>
  [C13] No remote forward outlives its connection. The forwards whose cancellation the
  connection has requested once its handler is dropped are exactly those it had
  started, each of them once.
\<close>

theorem forwards_are_cancelled:
  assumes "run_calls env tcs (handler_new peer ctx) st = (rs, c1, st1)" "ports_free env tcs (handler_new peer ctx) st"
    and "handler_drop env now c1 st1 = (r, c2, st2)"
  shows "mset (cancelled c2) = mset (started tcs rs) \<and> forwards c2 = []"
proof -
  have "concat (map cancel_token (map (\<lambda>(k, token). CallCancel token) m)) = map snd m" for m :: "(ForwardKey, 64 word) hmap"
    by (induction m) auto
  then have "cancelled c2 = cancelled c1 @ map snd (forwards c1)" "forwards c2 = []"
    using assms(3) by (auto simp: handler_drop_def Let_def put_shared_def cancelled_def split: prod.splits)
  moreover have "mset (cancelled c1) + mset (map snd (forwards c1)) = mset (started tcs rs)"
    using run_tokens [OF assms(1) conn_inv_new assms(2)] by (simp add: handler_new_def cancelled_def)
  ultimately show ?thesis by simp
qed

theorem forwards_are_cancelled_witness:
  "\<exists>c1 st1 c2 st2 rs r. run_calls demo_env demo_calls (handler_new None demo_ctx) demo_app = (rs, c1, st1) \<and>
     handler_drop demo_env 0 c1 st1 = (r, c2, st2) \<and> mset (cancelled c2) = {#7#}"
proof -
  obtain c1 st1 rs where run: "run_calls demo_env demo_calls (handler_new None demo_ctx) demo_app = (rs, c1, st1)"
    and rs: "rs = [Some (AuthReply Auth.Accept), Some NoReply, Some (ForwardReply True 2200), Some OpenAccepted, Some ChannelSuccess]"
    using demo_run by auto
  have free: "ports_free demo_env demo_calls (handler_new None demo_ctx) demo_app" by (simp add: demo_defs)
  obtain r c2 st2 where drop: "handler_drop demo_env 0 c1 st1 = (r, c2, st2)" by (metis prod_cases3)
  have "started demo_calls rs = [7]" by (simp add: rs demo_calls_def demo_call_def)
  with forwards_are_cancelled [OF run free drop] run drop show ?thesis by fastforce
qed

subsection \<open>Authentication\<close>

definition accepts :: "'k timed_call \<Rightarrow> Reply option \<Rightarrow> bool" where
  "accepts tc r \<longleftrightarrow> (case the_call tc of AuthPublickey _ _ \<Rightarrow> r = Some (AuthReply Auth.Accept) | _ \<Rightarrow> False)"

text \<open>
  The order in which the library makes its calls: it announces a successful
  authentication only after an accepted public key, and it makes every call on channels
  and forwards only after that announcement.
\<close>

fun library_order :: "bool \<Rightarrow> bool \<Rightarrow> 'k timed_call list \<Rightarrow> Reply option list \<Rightarrow> bool" where
  "library_order accepted announced (tc # tcs) (r # rs) =
     ((case the_call tc of
         AuthPublickeyOffered _ _ \<Rightarrow> True
       | AuthPublickey _ _ \<Rightarrow> True
       | AuthPassword \<Rightarrow> True
       | AuthSucceeded \<Rightarrow> accepted
       | _ \<Rightarrow> announced) \<and>
      library_order (accepted \<or> accepts tc r) (announced \<or> the_call tc = AuthSucceeded) tcs rs)"
| "library_order accepted announced _ _ = True"

lemma auth_call_same:
  assumes "handle_timed env tc c st = (r, c1, st1)"
    and "case the_call tc of AuthPublickeyOffered _ _ \<Rightarrow> True | AuthPublickey _ _ \<Rightarrow> True | AuthPassword \<Rightarrow> True | _ \<Rightarrow> False"
  shows "c1 = c"
  using assms by (cases "the_call tc") (auto simp: handle_timed_def dest: auth_calls_quiet)

lemma changed_after_accept:
  assumes "run_calls env tcs c st = (rs, c', st')" "library_order False False tcs rs" "c' \<noteq> c"
  shows "\<exists>i < length rs. accepts (tcs ! i) (rs ! i)"
  using assms
proof (induction tcs arbitrary: c st rs)
  case (Cons tc tcs)
  obtain r c1 st1 where h: "handle_timed env tc c st = (r, c1, st1)" by (metis prod_cases3)
  then obtain rs2 where rs: "rs = r # rs2" using Cons.prems(1) by (auto split: if_splits prod.splits)
  show ?case
  proof (cases "accepts tc r")
    case True
    with rs show ?thesis by (intro exI [of _ 0]) simp
  next
    case False
    have "c1 = c" "the_call tc \<noteq> AuthSucceeded"
      using auth_call_same [OF h] Cons.prems(2) rs by (auto split: call.splits)
    then have order: "library_order False False tcs rs2" using Cons.prems(2) False rs by simp
    have "run_calls env tcs c st1 = (rs2, c', st')"
      using Cons.prems(1,3) h rs \<open>c1 = c\<close> by (auto split: if_splits prod.splits)
    from Cons.IH [OF this order Cons.prems(3)] obtain i where "i < length rs2" "accepts (tcs ! i) (rs2 ! i)" by auto
    with rs show ?thesis by (intro exI [of _ "Suc i"]) simp
  qed
qed simp

lemma auth_reply_accept: "map_option (case_sum (\<lambda>e. HandlerError) AuthReply) x = Some (AuthReply a) \<longleftrightarrow> x = Some (Inr a)"
proof (cases x)
  case (Some y)
  then show ?thesis by (cases y) simp_all
qed simp

lemma accept_conditions:
  assumes "run_calls env tcs c st = (rs, c', st')" "i < length rs" "accepts (tcs ! i) (rs ! i)"
  shows "\<exists>user key. the_call (tcs ! i) = AuthPublickey user key \<and> user = daemon_username st \<and>
    is_user_key_algorithm_allowed (key_algorithm env key) \<and> holds_key env key (snd (snd (run_calls env (take (Suc i) tcs) c st)))"
  using assms
proof (induction tcs arbitrary: c st rs i)
  case (Cons tc tcs)
  obtain r c1 st1 where h: "handle_timed env tc c st = (r, c1, st1)" by (metis prod_cases3)
  then obtain rs2 where rs: "rs = r # rs2" using Cons.prems(1) by (auto split: if_splits prod.splits)
  show ?case
  proof (cases i)
    case 0
    with Cons.prems(3) rs obtain user key where k: "the_call tc = AuthPublickey user key" "r = Some (AuthReply Auth.Accept)"
      by (auto simp: accepts_def split: call.splits)
    with h have "authorize_key env (at_times tc) (at_view tc) (conn_peer c) user key st = (Some (Inr Auth.Accept), st1)"
      by (auto simp: handle_timed_def auth_publickey_def auth_reply_accept simp del: map_option_eq_Some split: prod.splits)
    from authorize_key_cases [OF this] 0 k h show ?thesis by simp
  next
    case (Suc j)
    then have go: "\<not> (r = None \<or> r = Some HandlerError)" using Cons.prems(1,2) h rs by (auto split: if_splits)
    then have "run_calls env tcs c1 st1 = (rs2, c', st')" using Cons.prems(1) h rs by (auto split: prod.splits)
    from Cons.IH [OF this, of j] Suc Cons.prems(2,3) rs obtain user key where
      "the_call (tcs ! j) = AuthPublickey user key" "user = daemon_username st1"
      "is_user_key_algorithm_allowed (key_algorithm env key)"
      "holds_key env key (snd (snd (run_calls env (take (Suc j) tcs) c1 st1)))" by auto
    with handle_identity [OF h] Suc h go show ?thesis by (auto simp: same_identity_def split: prod.splits)
  qed
qed simp

text \<open>
  [C2] No service without a key. When the library keeps its order of calls, a connection that
  is marked authenticated or has asked anything of the executor was preceded by a
  public key call for the daemon's own user name, with an allowed key algorithm and a key
  that the authorised keys held when the call was answered.
\<close>

theorem services_need_an_authorised_key:
  assumes "run_calls env tcs (handler_new peer ctx) st = (rs, c', st')" "library_order False False tcs rs"
    and "conn_authenticated c' \<or> exec_calls c' \<noteq> []"
  shows "\<exists>i < length rs. \<exists>user key. the_call (tcs ! i) = AuthPublickey user key \<and> user = daemon_username st \<and>
    is_user_key_algorithm_allowed (key_algorithm env key) \<and>
    holds_key env key (snd (snd (run_calls env (take (Suc i) tcs) (handler_new peer ctx) st)))"
proof -
  have "c' \<noteq> handler_new peer ctx" using assms(3) by (auto simp: handler_new_def)
  from changed_after_accept [OF assms(1,2) this] accept_conditions [OF assms(1)] show ?thesis by blast
qed

theorem services_need_an_authorised_key_witness:
  "\<exists>i < 5. \<exists>user key. the_call (demo_calls ! i) = AuthPublickey user key \<and> user = ''me''"
proof -
  obtain c' st' rs where run: "run_calls demo_env demo_calls (handler_new None demo_ctx) demo_app = (rs, c', st')"
    and rs: "rs = [Some (AuthReply Auth.Accept), Some NoReply, Some (ForwardReply True 2200), Some OpenAccepted, Some ChannelSuccess]"
    and authd: "conn_authenticated c'"
    using demo_run by auto
  have order: "library_order False False demo_calls rs" by (simp add: rs demo_calls_def demo_call_def accepts_def)
  have "daemon_username demo_app = ''me''" "length rs = 5" by (simp_all add: demo_app_def rs)
  with services_need_an_authorised_key [OF run order] authd show ?thesis by metis
qed

end
