(* ===== verification/Sshd_Server.thy ===== *)
theory Sshd_Server
  imports Sshd_Handler Admission_Policy
begin

text \<open>
  The server of \<open>src/src/sshd.rs\<close>: the errors that end a connection and their
  classification, the course of one connection (\<open>serve_connection\<close>), its supervision, and
  the daemon as a system of interleaved connections that share the daemon's state.

  The accept loop and the SSH library produce the events of the system: a socket is
  accepted, the library has set a session up or failed to, it calls the handler of a
  connection, the session of a connection ends.
\<close>

subsection \<open>Errors\<close>

datatype RusshError =
    Version
  | PacketAuth
  | PacketSize nat
  | DecryptionError
  | StrictKeyExchangeViolation
  | SshEncoding
  | Inconsistent
  | KexInit
  | OtherRussh string

text \<open>An error is the chain of its causes.\<close>

datatype cause = IoCause IoError | RusshCause RusshError | OtherCause string

type_synonym error_chain = "cause list"

definition is_login_grace_timeout :: "error_chain \<Rightarrow> bool" where
  "is_login_grace_timeout err =
     list_ex (\<lambda>c. case c of
         IoCause e \<Rightarrow> io_kind e = TimedOut \<and>
           str_contains ''login grace time exceeded before authentication completed'' (io_message e)
       | _ \<Rightarrow> False) err"

definition is_kex_start_timeout :: "error_chain \<Rightarrow> bool" where
  "is_kex_start_timeout err =
     list_ex (\<lambda>c. case c of
         IoCause e \<Rightarrow> io_kind e = TimedOut \<and>
           str_contains ''key exchange did not start before the configured timeout elapsed'' (io_message e)
       | _ \<Rightarrow> False) err"

definition preauth_timeout_details :: "AppConfig \<Rightarrow> error_chain \<Rightarrow> (string \<times> nat) option" where
  "preauth_timeout_details c err =
     (if is_login_grace_timeout err then Some (''login-grace-timeout'', as_millis (login_grace_time c))
      else if is_kex_start_timeout err then Some (''kex-start-timeout'', as_millis (AppConfig.kex_start_timeout c))
      else None)"

definition is_malformed_connection_error :: "error_chain \<Rightarrow> bool" where
  "is_malformed_connection_error err =
     list_ex (\<lambda>c. case c of
         RusshCause e \<Rightarrow>
           (case e of
              Version \<Rightarrow> True
            | PacketAuth \<Rightarrow> True
            | PacketSize _ \<Rightarrow> True
            | DecryptionError \<Rightarrow> True
            | StrictKeyExchangeViolation \<Rightarrow> True
            | SshEncoding \<Rightarrow> True
            | Inconsistent \<Rightarrow> True
            | KexInit \<Rightarrow> True
            | OtherRussh _ \<Rightarrow> False)
       | _ \<Rightarrow> False) err"

subsection \<open>One connection\<close>

text \<open>
  Admission and the creation of the handler. A rejected peer gets no connection; the grace
  time is added to the clock after the slot was taken, and an overflow there gives the
  slot back.
\<close>

definition serve_accept :: "'k SshEnv \<Rightarrow> (nat \<Rightarrow> instant) \<Rightarrow> SocketAddr \<Rightarrow> Conn option app" where
  "serve_accept env t peer st =
     (case try_acquire_at (env_platform env) (app_admission st) (ip peer) (t 0) of
        (None, ctl) \<Rightarrow> (None, st\<lparr>app_admission := ctl\<rparr>)
      | (Some (Inl reason), ctl) \<Rightarrow>
          app_bind (on_metrics (record_rejected_connection (reject_category reason)))
            (\<lambda>_. app_bind (warn_limited env (t 1) (Some peer) (reject_category reason) (RejectedLine peer reason))
              (\<lambda>_. app_return None))
            (st\<lparr>app_admission := ctl\<rparr>)
      | (Some (Inr guard), ctl) \<Rightarrow>
          (case instant_add (env_platform env) (t 1) (login_grace_time (app_config st)) of
             None \<Rightarrow> (None, st\<lparr>app_admission := snd (guard_drop (env_platform env) ctl guard (t 2))\<rparr>)
           | Some deadline \<Rightarrow>
               (case context_new guard
                       \<lparr>authenticated = False, controller = ctl, conn_metrics = app_metrics st, success_received = False\<rparr> of
                  (ctx, sh) \<Rightarrow>
                    (Some (Some (handler_new (Some peer) ctx)),
                     st\<lparr>app_admission := controller sh, app_metrics := conn_metrics sh\<rparr>))))"

definition note_preauth_error :: "'k SshEnv \<Rightarrow> instant \<Rightarrow> SocketAddr \<Rightarrow> error_chain \<Rightarrow> unit app" where
  "note_preauth_error env now peer err st =
     (case preauth_timeout_details (app_config st) err of
        Some (kind, elapsed_ms) \<Rightarrow>
          app_bind (on_metrics (record_rejected_connection kind))
            (\<lambda>_. app_bind (on_metrics record_preauth_timeout)
              (\<lambda>_. warn_limited env now (Some peer) kind (TimeoutLine peer kind elapsed_ms))) st
      | None \<Rightarrow>
          if is_malformed_connection_error err
          then app_bind (on_metrics (record_rejected_connection ''malformed-disconnect''))
                 (\<lambda>_. on_metrics record_malformed_disconnect) st
          else (Some (), st))"

definition note_banner_timeout :: "'k SshEnv \<Rightarrow> instant \<Rightarrow> SocketAddr \<Rightarrow> unit app" where
  "note_banner_timeout env now peer st =
     app_bind (on_metrics (record_rejected_connection ''banner-timeout''))
       (\<lambda>_. app_bind (on_metrics record_preauth_timeout)
         (\<lambda>_. warn_limited env now (Some peer) ''banner-timeout''
                (TimeoutLine peer ''banner'' (as_millis (client_banner_timeout (app_config st)))))) st"

text \<open>The library sets the session up within the banner timeout, fails, or runs into the timeout.\<close>

datatype setup_outcome = Established | SetupFailed error_chain | BannerTimedOut

definition serve_setup :: "'k SshEnv \<Rightarrow> instant \<Rightarrow> SocketAddr \<Rightarrow> setup_outcome \<Rightarrow> unit app" where
  "serve_setup env now peer outcome =
     (case outcome of
        Established \<Rightarrow> app_return ()
      | SetupFailed err \<Rightarrow> note_preauth_error env now peer err
      | BannerTimedOut \<Rightarrow> note_banner_timeout env now peer)"

text \<open>
  The end of an established session. \<open>notified\<close> tells which branch of the select ran: the
  one of the success notification, or the one of the session.
\<close>

definition serve_end :: "'k SshEnv \<Rightarrow> instant \<Rightarrow> SocketAddr \<Rightarrow> bool \<Rightarrow> (error_chain, unit) result \<Rightarrow> (error_chain, unit) result app" where
  "serve_end env now peer notified res =
     (if notified then app_return res
      else case res of
          Inl err \<Rightarrow> app_bind (note_preauth_error env now peer err) (\<lambda>_. app_return res)
        | Inr u \<Rightarrow> app_return res)"

text \<open>A connection task that fails or panics is logged; the daemon goes on.\<close>

definition supervise :: "SocketAddr \<Rightarrow> (error_chain, unit) result option \<times> AppState \<Rightarrow> AppState" where
  "supervise peer x =
     (case x of
        (Some (Inr u), st) \<Rightarrow> st
      | (Some (Inl err), st) \<Rightarrow> snd (log_line (ConnectionErrorLine peer) 0 st)
      | (None, st) \<Rightarrow> snd (log_line (ConnectionPanicLine peer) 0 st))"

subsubsection \<open>Timeouts of the stream are recognised\<close>

lemma login_grace_recognised: "is_login_grace_timeout (pre @ IoCause login_grace_timeout_error # post)"
proof -
  have "str_contains (io_message login_grace_timeout_error) (io_message login_grace_timeout_error)"
    unfolding login_grace_timeout_error_def by code_simp
  then show ?thesis by (simp add: is_login_grace_timeout_def login_grace_timeout_error_def)
qed

lemma kex_start_recognised: "is_kex_start_timeout (pre @ IoCause kex_start_timeout_error # post)"
proof -
  have "str_contains (io_message kex_start_timeout_error) (io_message kex_start_timeout_error)"
    unfolding kex_start_timeout_error_def by code_simp
  then show ?thesis by (simp add: is_kex_start_timeout_def kex_start_timeout_error_def)
qed

text \<open>Every error that the deadline of the stream produces is counted and reported as a timeout.\<close>

lemma deadline_errors_recognised:
  assumes "poll_deadline fires m1 m2 m3 s = Ready (Inl err)"
  shows "preauth_timeout_details c (pre @ IoCause err # post) \<noteq> None"
proof -
  have "check_timeout m s = Some e \<Longrightarrow> e = login_grace_timeout_error \<or> e = kex_start_timeout_error" for m e
    by (cases m) (auto split: if_splits option.splits)
  then have "err = login_grace_timeout_error \<or> err = kex_start_timeout_error"
    using assms by (auto simp: poll_deadline_def split: option.splits if_splits)
  then show ?thesis using login_grace_recognised kex_start_recognised by (auto simp: preauth_timeout_details_def)
qed

text \<open>
  When the session has ended without authentication, both branches of the select can be
  ready: the notification channel is closed with the handler. If that branch runs, the
  timeout is neither counted nor reported.
\<close>

lemma timeout_counted_by_session_branch_only:
  assumes "preauth_timeout_details (app_config st) err = Some (kind, ms)"
  shows "serve_end env now peer True (Inl err) st = (Some (Inl err), st)"
    and "preauth_timeouts (app_metrics (snd (serve_end env now peer False (Inl err) st))) = preauth_timeouts (app_metrics st) + 1"
proof -
  show "serve_end env now peer True (Inl err) st = (Some (Inl err), st)" by (simp add: serve_end_def app_return_def)
  let ?st = "st\<lparr>app_metrics := record_preauth_timeout (record_rejected_connection kind (app_metrics st))\<rparr>"
  obtain r st' where w: "warn_limited env now (Some peer) kind (TimeoutLine peer kind ms) ?st = (r, st')" by fastforce
  have "snd (serve_end env now peer False (Inl err) st) = st'"
    using assms w by (simp add: serve_end_def note_preauth_error_def app_bind_def on_metrics_def app_return_def split: option.splits)
  with warn_limited_frame [OF w]
  show "preauth_timeouts (app_metrics (snd (serve_end env now peer False (Inl err) st))) = preauth_timeouts (app_metrics st) + 1"
    by (simp add: record_preauth_timeout_def record_rejected_connection_def)
qed

subsection \<open>The daemon\<close>

datatype phase = Setup | Running | Stopping

record Server =
  srv_app :: AppState
  srv_conns :: "(nat, SocketAddr \<times> phase \<times> Conn) hmap"

datatype 'k srv_event =
    SockAccepted nat SocketAddr "nat \<Rightarrow> instant"
  | SetupDone nat setup_outcome "nat \<Rightarrow> instant"
  | HandlerCalled nat "'k timed_call"
  | SessionEnded nat bool "(error_chain, unit) result" "nat \<Rightarrow> instant"

fun server_step :: "'k SshEnv \<Rightarrow> 'k srv_event \<Rightarrow> Server \<Rightarrow> Server" where
  "server_step env (SockAccepted i peer t) s =
     (if hm_get (srv_conns s) i \<noteq> None then s
      else case serve_accept env t peer (srv_app s) of
          (Some (Some c), st) \<Rightarrow> \<lparr>srv_app = st, srv_conns = hm_insert i (peer, Setup, c) (srv_conns s)\<rparr>
        | (Some None, st) \<Rightarrow> s\<lparr>srv_app := supervise peer (Some (Inr ()), st)\<rparr>
        | (None, st) \<Rightarrow> s\<lparr>srv_app := supervise peer (None, st)\<rparr>)"
| "server_step env (SetupDone i outcome t) s =
     (case hm_get (srv_conns s) i of
        Some (peer, Setup, c) \<Rightarrow>
          if outcome = Established then s\<lparr>srv_conns := hm_insert i (peer, Running, c) (srv_conns s)\<rparr>
          else
            (case handler_drop env (t 0) c (srv_app s) of
               (r, c', st) \<Rightarrow>
                 \<lparr>srv_app = supervise peer
                    (case r of
                       None \<Rightarrow> (None, st)
                     | Some _ \<Rightarrow> app_bind (serve_setup env (t 1) peer outcome) (\<lambda>_. app_return (Inr ())) st),
                  srv_conns = hm_remove i (srv_conns s)\<rparr>)
      | _ \<Rightarrow> s)"
| "server_step env (HandlerCalled i tc) s =
     (case hm_get (srv_conns s) i of
        Some (peer, Running, c) \<Rightarrow>
          (case handle_timed env tc c (srv_app s) of
             (r, c', st) \<Rightarrow>
               \<lparr>srv_app = st,
                srv_conns = hm_insert i (peer, if r = None \<or> r = Some HandlerError then Stopping else Running, c') (srv_conns s)\<rparr>)
      | _ \<Rightarrow> s)"
| "server_step env (SessionEnded i notified res t) s =
     (case hm_get (srv_conns s) i of
        None \<Rightarrow> s
      | Some (peer, Setup, c) \<Rightarrow> s
      | Some (peer, ph, c) \<Rightarrow>
          (case handler_drop env (t 0) c (srv_app s) of
             (r, c', st) \<Rightarrow>
               \<lparr>srv_app = supervise peer (serve_end env (t 1) peer notified res st),
                srv_conns = hm_remove i (srv_conns s)\<rparr>))"

definition server_start :: "AppState \<Rightarrow> Server" where
  "server_start st = \<lparr>srv_app = st, srv_conns = []\<rparr>"

definition server_rel :: "'k SshEnv \<Rightarrow> Server \<Rightarrow> 'k srv_event \<Rightarrow> Server \<Rightarrow> bool" where
  "server_rel env s e s' \<longleftrightarrow> s' = server_step env e s"

subsection \<open>Slots and connections\<close>

fun slot_of :: "SocketAddr \<times> phase \<times> Conn \<Rightarrow> IpAddr multiset" where
  "slot_of (peer, ph, c) = (case admission_guard (conn_ctx c) of None \<Rightarrow> {#} | Some g \<Rightarrow> {#guard_ip g#})"

definition holders :: "(nat, SocketAddr \<times> phase \<times> Conn) hmap \<Rightarrow> IpAddr multiset" where
  "holders m = sum_list (map (\<lambda>x. slot_of (snd x)) m)"

fun slot_ok :: "SocketAddr \<times> phase \<times> Conn \<Rightarrow> bool" where
  "slot_ok (peer, ph, c) \<longleftrightarrow>
     conn_peer c = Some peer \<and>
     (case admission_guard (conn_ctx c) of
        None \<Rightarrow> conn_authenticated c
      | Some g \<Rightarrow> \<not> conn_authenticated c \<and>
          g = \<lparr>guard_ip = ip peer, guard_subnet = subnet_key (ip peer), released = False\<rparr>)"

text \<open>The limits on those who hold a slot, which stay in force when the controller's lock is poisoned.\<close>

definition caps_hold :: "AppConfig \<Rightarrow> IpAddr multiset \<Rightarrow> bool" where
  "caps_hold c G \<longleftrightarrow>
     size G \<le> max_unauth_connections_global c \<and>
     (\<forall>k. size {#i \<in># G. subnet_key i = k#} \<le> max_unauth_connections_per_subnet c) \<and>
     (\<forall>i. count G i \<le> max 1 (max_unauth_connections_per_ip c))"

definition adm_agrees :: "AppConfig \<Rightarrow> AppState \<Rightarrow> IpAddr multiset \<Rightarrow> bool" where
  "adm_agrees c st G \<longleftrightarrow>
     caps_hold c G \<and>
     (case app_admission st of
        Poisoned \<Rightarrow> True
      | Unlocked a \<Rightarrow> adm_inv (from_app_config c) (a, G) \<and> gauge st = of_nat (size G))"

definition server_inv :: "AppConfig \<Rightarrow> Server \<Rightarrow> bool" where
  "server_inv c s \<longleftrightarrow>
     hm_wf (srv_conns s) \<and> app_config (srv_app s) = c \<and> list_all (\<lambda>x. slot_ok (snd x)) (srv_conns s) \<and>
     adm_agrees c (srv_app s) (holders (srv_conns s))"

lemma caps_hold_mono: "caps_hold c H \<Longrightarrow> G \<subseteq># H \<Longrightarrow> caps_hold c G"
  unfolding caps_hold_def
  by (meson order.trans size_mset_mono multiset_filter_mono mset_subset_eq_count)

lemma adm_inv_caps:
  assumes "adm_inv (from_app_config c) (a, G)"
  shows "caps_hold c G"
proof -
  have "peer_count a i \<le> max 1 (max_unauth_connections_per_ip c)" for i
    using assms by (cases "hm_get (per_peer a) i") (auto simp: peer_count_def adm_inv_def adm_caps_def peer_ok_def from_app_config_def)
  with assms show ?thesis
    by (auto simp: caps_hold_def adm_inv_def adm_counts_def adm_caps_def from_app_config_def)
qed

lemma holders_remove:
  "hm_wf m \<Longrightarrow> hm_get m i = Some x \<Longrightarrow> holders m = slot_of x + holders (hm_remove i m)"
proof (induction m)
  case (Cons y m)
  obtain k v where y: "y = (k, v)" by (cases y)
  show ?case
  proof (cases "k = i")
    case True
    then have "hm_remove i m = m" using Cons.prems(1) y by (simp add: hm_wf_def)
    with True y Cons.prems(2) show ?thesis by (simp add: holders_def)
  next
    case False
    with y Cons show ?thesis by (simp add: hm_wf_def holders_def)
  qed
qed simp

lemma holders_insert: "hm_wf m \<Longrightarrow> holders (hm_insert i x m) = slot_of x + holders (hm_remove i m)"
proof (induction m)
  case (Cons y m)
  obtain k v where y: "y = (k, v)" by (cases y)
  show ?case
  proof (cases "k = i")
    case True
    then have "hm_remove i m = m" using Cons.prems(1) y by (simp add: hm_wf_def)
    with True y show ?thesis by (simp add: holders_def)
  next
    case False
    with y Cons show ?thesis by (simp add: hm_wf_def holders_def)
  qed
qed (simp add: holders_def)

subsection \<open>Operations on the shared state\<close>

definition keeps_admission :: "AppState \<Rightarrow> AppState \<Rightarrow> bool" where
  "keeps_admission st st' \<longleftrightarrow> same_identity st st' \<and> app_admission st' = app_admission st \<and> gauge st' = gauge st"

lemma quiet_agrees: "keeps_admission st st' \<Longrightarrow> adm_agrees c st' G = adm_agrees c st G"
  by (simp add: keeps_admission_def adm_agrees_def split: mutex.split)

lemma quiet_self [simp]: "keeps_admission st st"
  by (simp add: keeps_admission_def)

lemma quiet_trans: "keeps_admission a b \<Longrightarrow> keeps_admission b d \<Longrightarrow> keeps_admission a d"
  by (auto simp: keeps_admission_def intro: same_identity_trans)

lemma quiet_bind:
  assumes "app_bind f g st = (r, st')" "\<And>q s1. f st = (q, s1) \<Longrightarrow> keeps_admission st s1"
    and "\<And>a s1. f st = (Some a, s1) \<Longrightarrow> g a s1 = (r, st') \<Longrightarrow> keeps_admission s1 st'"
  shows "keeps_admission st st'"
  using assms(1)
  by (cases rule: app_bind_cases) (auto intro: assms(2) quiet_trans [OF assms(2) assms(3)])

lemma quiet_warn: "warn_limited env now peer cat l st = (r, st') \<Longrightarrow> keeps_admission st st'"
  using warn_limited_frame [of env now peer cat l st r st'] by (simp add: keeps_admission_def gauge_def)

lemma quiet_metrics:
  "on_metrics f st = (r, st') \<Longrightarrow> current_unauthenticated_connections (f (app_metrics st)) = current_unauthenticated_connections (app_metrics st) \<Longrightarrow>
     keeps_admission st st'"
  by (auto simp: on_metrics_def keeps_admission_def same_identity_def gauge_def)

lemma quiet_return: "app_return a st = (r, st') \<Longrightarrow> keeps_admission st st'"
  by (simp add: app_return_def)

lemma sub1_of_nat: "Suc n < 2 ^ 64 \<Longrightarrow> saturating_sub1 (of_nat (Suc n)) = of_nat n"
proof -
  assume "Suc n < 2 ^ 64"
  then have "unat (of_nat (Suc n) :: 64 word) = Suc n" by (simp only: unsigned_of_nat) (simp add: take_bit_nat_eq_self)
  then have "(of_nat (Suc n) :: 64 word) \<noteq> 0" by (metis nat.distinct(1) unat_0)
  then show ?thesis by (simp add: saturating_sub1_def)
qed

lemma adm_agrees_release:
  assumes "adm_agrees c st (add_mset i G)" "max_unauth_connections_global c < 2 ^ 64"
    and "controller_release p (app_admission st) i (subnet_key i) now = (r, app_admission st')"
    and "gauge st' = (if r = None then gauge st else saturating_sub1 (gauge st))"
  shows "adm_agrees c st' G"
proof (cases "app_admission st'")
  case Poisoned
  with assms(1) show ?thesis by (auto simp: adm_agrees_def intro: caps_hold_mono)
next
  case (Unlocked a')
  then obtain a where a: "app_admission st = Unlocked a" "release p i (subnet_key i) now a = Some a'" "r = Some ()"
    using assms(3) by (cases "app_admission st") (auto simp: controller_release_def split: option.splits)
  with assms(1) have inv: "adm_inv (from_app_config c) (a, add_mset i G)" and g: "gauge st = of_nat (Suc (size G))"
    by (auto simp: adm_agrees_def)
  from release_inv [OF inv _ a(2)] have "adm_inv (from_app_config c) (a', G)" by simp
  moreover have "Suc (size G) < 2 ^ 64"
    using inv assms(2) by (auto simp: adm_inv_def adm_counts_def adm_caps_def from_app_config_def)
  then have "gauge st' = of_nat (size G)" using assms(4) a(3) sub1_of_nat [of "size G"] g by simp
  ultimately show ?thesis using Unlocked by (simp add: adm_agrees_def adm_inv_caps)
qed

lemma adm_agrees_failure:
  assumes "quiet_step env peer st st'" "adm_agrees c st G"
  shows "adm_agrees c st' G"
proof (cases "app_admission st' = app_admission st")
  case True
  with assms show ?thesis by (simp add: quiet_step_def adm_agrees_def split: mutex.splits)
next
  case False
  then obtain i now r where f: "record_auth_failure_at (env_platform env) (app_admission st) i now = (r, app_admission st')"
    using assms(1) by (auto simp: quiet_step_def failure_step_or_same_def failure_step_def split: option.splits)
  show ?thesis
  proof (cases "app_admission st'")
    case (Unlocked a')
    then obtain a b where a: "app_admission st = Unlocked a" "record_auth_failure (env_platform env) i now a = Some (b, a')"
      using f by (cases "app_admission st") (auto simp: record_auth_failure_at_def split: option.splits)
    with assms record_auth_failure_inv [OF _ a(2)] Unlocked show ?thesis
      by (auto simp: adm_agrees_def quiet_step_def)
  qed (use assms(2) in \<open>simp add: adm_agrees_def\<close>)
qed

lemma handler_drop_agrees:
  assumes "handler_drop env now c st = (r, c', st')" "slot_ok (peer, ph, c)"
    and "adm_agrees cfg st (slot_of (peer, ph, c) + G)" "max_unauth_connections_global cfg < 2 ^ 64"
  shows "adm_agrees cfg st' G \<and> same_identity st st'"
proof (cases "admission_guard (conn_ctx c)")
  case None
  then have "keeps_admission st st'"
    using assms(1) by (auto simp: handler_drop_def context_drop_def put_shared_def conn_shared_def keeps_admission_def gauge_def same_identity_def)
  with None assms(3) quiet_agrees show ?thesis by (auto simp: keeps_admission_def)
next
  case (Some g)
  then have g: "guard_ip g = ip peer" "guard_subnet g = subnet_key (ip peer)" "\<not> released g" using assms(2) by auto
  obtain q ctl where rel: "controller_release (env_platform env) (app_admission st) (ip peer) (subnet_key (ip peer)) now = (q, ctl)"
    by fastforce
  have st': "st' = st\<lparr>app_admission := ctl,
      app_metrics := (if q = None then app_metrics st else preauth_connection_closed (app_metrics st))\<rparr>"
    using assms(1) Some g rel
    by (auto simp: handler_drop_def context_drop_def guard_drop_def guard_release_def Let_def put_shared_def conn_shared_def
        split: option.splits)
  have "adm_agrees cfg st' G"
    by (rule adm_agrees_release [of cfg st "ip peer" G "env_platform env" now q])
      (use assms(3,4) Some g rel st' in \<open>auto simp: gauge_def preauth_connection_closed_def\<close>)
  with st' show ?thesis by (simp add: same_identity_def)
qed

lemma auth_succeeded_agrees:
  assumes "auth_succeeded env t c st = (r, c', st')" "slot_ok (peer, ph, c)"
    and "adm_agrees cfg st (slot_of (peer, ph, c) + G)" "max_unauth_connections_global cfg < 2 ^ 64"
  shows "slot_ok (peer, ph', c') \<and> adm_agrees cfg st' (slot_of (peer, ph', c') + G)"
proof (cases "admission_guard (conn_ctx c)")
  case None
  then have "keeps_admission st st'" "slot_ok (peer, ph', c')" "slot_of (peer, ph', c') = slot_of (peer, ph, c)"
    using assms(1,2) by (auto simp: auth_succeeded_def context_mark_authenticated_def put_shared_def conn_shared_def
        log_line_def keeps_admission_def gauge_def same_identity_def Let_def)
  with assms(3) quiet_agrees show ?thesis by simp
next
  case (Some g)
  then have g: "guard_ip g = ip peer" "guard_subnet g = subnet_key (ip peer)" "\<not> released g" using assms(2) by auto
  obtain q ctl where rel: "controller_release (env_platform env) (app_admission st) (ip peer) (subnet_key (ip peer)) (t 0) = (q, ctl)"
    by fastforce
  have out: "admission_guard (conn_ctx c') = None \<and> conn_authenticated c' \<and> conn_peer c' = conn_peer c \<and>
      app_admission st' = ctl \<and> app_metrics st' = (if q = None then app_metrics st else preauth_connection_closed (app_metrics st))"
    using assms(1) Some g rel
    by (auto simp: auth_succeeded_def context_mark_authenticated_def mark_authenticated_def guard_drop_def guard_release_def
        Let_def put_shared_def conn_shared_def log_line_def split: option.splits)
  have "adm_agrees cfg st' G"
    by (rule adm_agrees_release [of cfg st "ip peer" G "env_platform env" "t 0" q])
      (use assms(3,4) Some g rel out in \<open>auto simp: gauge_def preauth_connection_closed_def\<close>)
  with out assms(2) show ?thesis by simp
qed

lemma handle_agrees:
  assumes "handle_timed env tc c st = (r, c', st')" "slot_ok (peer, ph, c)"
    and "adm_agrees cfg st (slot_of (peer, ph, c) + G)" "max_unauth_connections_global cfg < 2 ^ 64"
  shows "slot_ok (peer, ph', c') \<and> adm_agrees cfg st' (slot_of (peer, ph', c') + G)"
proof (cases "the_call tc = AuthSucceeded")
  case True
  with assms auth_succeeded_agrees show ?thesis by (simp add: handle_timed_def)
next
  case False
  from conn_step_slot [OF handle_timed_step [OF assms(1)] False] adm_agrees_failure [OF handle_quiet [OF assms(1) False] assms(3)] assms(2)
  show ?thesis by (simp add: same_slot_def split: option.splits)
qed

lemma note_preauth_error_quiet: "note_preauth_error env now peer err st = (r, st') \<Longrightarrow> keeps_admission st st'"
  by (auto simp: note_preauth_error_def record_rejected_connection_def record_preauth_timeout_def record_malformed_disconnect_def
      elim!: quiet_bind split: option.splits if_splits intro: quiet_warn quiet_metrics)

lemma note_banner_timeout_quiet: "note_banner_timeout env now peer st = (r, st') \<Longrightarrow> keeps_admission st st'"
  by (auto simp: note_banner_timeout_def record_rejected_connection_def record_preauth_timeout_def
      elim!: quiet_bind intro: quiet_warn quiet_metrics)

lemma serve_setup_quiet: "serve_setup env now peer outcome st = (r, st') \<Longrightarrow> keeps_admission st st'"
  by (cases outcome) (auto simp: serve_setup_def dest: quiet_return note_preauth_error_quiet note_banner_timeout_quiet)

lemma serve_end_quiet: "serve_end env now peer notified res st = (r, st') \<Longrightarrow> keeps_admission st st'"
  by (auto simp: serve_end_def elim!: quiet_bind dest: quiet_return note_preauth_error_quiet split: if_splits sum.splits)

lemma supervise_quiet: "keeps_admission st (supervise peer (r, st))"
  by (auto simp: supervise_def log_line_def keeps_admission_def same_identity_def gauge_def split: option.splits sum.splits)

lemma reject_quiet:
  assumes "app_bind (on_metrics (record_rejected_connection cat))
      (\<lambda>_. app_bind (warn_limited env now peer cat' line) (\<lambda>_. app_return None)) st = (r, st')"
  shows "keeps_admission st st' \<and> (r = None \<or> r = Some None)"
proof
  show "keeps_admission st st'"
    using assms by (auto simp: record_rejected_connection_def elim!: quiet_bind intro: quiet_warn quiet_metrics quiet_return)
  show "r = None \<or> r = Some None"
    using assms by (auto simp: app_return_def elim!: app_bind_cases)
qed

lemma try_acquire_at_agrees:
  assumes "try_acquire_at p (app_admission st) i now = (q, ctl)" "adm_agrees cfg st G"
  shows "caps_hold cfg G \<and> (\<forall>g. q = Some (Inr g) \<longrightarrow> g = \<lparr>guard_ip = i, guard_subnet = subnet_key i, released = False\<rparr> \<and> ctl \<noteq> Poisoned) \<and>
    (\<forall>a. ctl = Unlocked a \<longrightarrow> gauge st = of_nat (size G) \<and>
       adm_inv (from_app_config cfg) (a, case q of Some (Inr _) \<Rightarrow> add_mset i G | _ \<Rightarrow> G))"
proof (cases "app_admission st")
  case Poisoned
  with assms show ?thesis by (auto simp: try_acquire_at_def adm_agrees_def)
next
  case (Unlocked a0)
  show ?thesis
  proof (cases "try_acquire p i (subnet_key i) now a0")
    case None
    with Unlocked assms show ?thesis by (auto simp: try_acquire_at_def adm_agrees_def)
  next
    case (Some x)
    obtain u a where x: "x = (u, a)" by fastforce
    from try_acquire_inv [of "from_app_config cfg" a0 G p i now u a] Some x Unlocked assms
    show ?thesis by (cases u) (auto simp: try_acquire_at_def adm_agrees_def)
  qed
qed

lemma serve_accept_agrees:
  assumes "serve_accept env t peer st = (r, st')" "adm_agrees (app_config st) st G"
  shows "same_identity st st' \<and>
    (case r of
       Some (Some c) \<Rightarrow> slot_ok (peer, ph, c) \<and> adm_agrees (app_config st) st' (slot_of (peer, ph, c) + G)
     | _ \<Rightarrow> adm_agrees (app_config st) st' G)"
proof -
  let ?p = "env_platform env" and ?i = "ip peer"
  obtain q ctl where acq: "try_acquire_at ?p (app_admission st) ?i (t 0) = (q, ctl)" by fastforce
  note ok = try_acquire_at_agrees [OF acq assms(2)]
  let ?st = "st\<lparr>app_admission := ctl\<rparr>"
  have plain: "adm_agrees (app_config st) ?st G" if "\<nexists>g. q = Some (Inr g)"
    using that ok by (cases q) (auto simp: adm_agrees_def gauge_def split: mutex.split sum.splits)
  consider "q = None" | reason where "q = Some (Inl reason)" | g where "q = Some (Inr g)"
    by (metis option.exhaust sum.exhaust)
  then show ?thesis
  proof cases
    case 1
    with acq assms(1) plain show ?thesis by (auto simp: serve_accept_def same_identity_def)
  next
    case 2
    then have "keeps_admission ?st st'" and r: "r = None \<or> r = Some None"
      using assms(1) acq reject_quiet by (fastforce simp: serve_accept_def)+
    then have "adm_agrees (app_config st) st' G" "same_identity st st'"
      using plain 2 quiet_agrees by (simp, simp add: keeps_admission_def same_identity_def)
    with r show ?thesis by auto
  next
    case 3
    then obtain a where a: "ctl = Unlocked a" using ok by (cases ctl) auto
    have g: "g = \<lparr>guard_ip = ?i, guard_subnet = subnet_key ?i, released = False\<rparr>" and
      inv: "gauge st = of_nat (size G)" "adm_inv (from_app_config (app_config st)) (a, add_mset ?i G)"
      using ok 3 a by auto
    show ?thesis
    proof (cases "instant_add ?p (t 1) (login_grace_time (app_config st))")
      case None
      then have st': "r = None" "st' = st\<lparr>app_admission := snd (guard_drop ?p ctl g (t 2))\<rparr>"
        using assms(1) acq 3 by (auto simp: serve_accept_def)
      have "adm_inv (from_app_config (app_config st)) (a', G)" if "snd (guard_drop ?p ctl g (t 2)) = Unlocked a'" for a'
        using release_inv [OF inv(2), of ?i ?p "t 2" a'] that g a
        by (auto simp: guard_drop_def guard_release_def controller_release_def Let_def split: option.splits)
      then show ?thesis using st' inv(1) ok by (simp add: adm_agrees_def same_identity_def gauge_def split: mutex.split)
    next
      case (Some deadline)
      then show ?thesis using assms(1) acq 3 g inv a
        by (auto simp: serve_accept_def context_new_def handler_new_def adm_agrees_def adm_inv_caps same_identity_def gauge_def
            preauth_connection_opened_def)
    qed
  qed
qed

subsection \<open>The invariant\<close>

lemma server_inv_remove:
  assumes "server_inv c s" "hm_get (srv_conns s) i = Some x"
  shows "slot_ok x" "adm_agrees c (srv_app s) (slot_of x + holders (hm_remove i (srv_conns s)))"
    "list_all (\<lambda>x. slot_ok (snd x)) (hm_remove i (srv_conns s))" "hm_wf (hm_remove i (srv_conns s))"
    "app_config (srv_app s) = c"
proof -
  have wf: "hm_wf (srv_conns s)" "list_all (\<lambda>x. slot_ok (snd x)) (srv_conns s)"
    and rest: "app_config (srv_app s) = c" "adm_agrees c (srv_app s) (holders (srv_conns s))"
    using assms(1) by (simp_all add: server_inv_def)
  show "slot_ok x" using wf(2) hm_get_in_set [OF assms(2)] by (auto simp: list_all_iff)
  show "adm_agrees c (srv_app s) (slot_of x + holders (hm_remove i (srv_conns s)))"
    using rest(2) holders_remove [OF wf(1) assms(2)] by simp
qed (use assms(1) in \<open>auto simp: server_inv_def hm.wf_del list_all_delete\<close>)

lemma server_inv_put:
  assumes "hm_wf m" "list_all (\<lambda>x. slot_ok (snd x)) m" "slot_ok x" "app_config st = c"
    and "adm_agrees c st (slot_of x + holders (hm_remove i m))"
  shows "server_inv c \<lparr>srv_app = st, srv_conns = hm_insert i x m\<rparr>"
  using assms by (simp add: server_inv_def hm.wf_put holders_insert list_all_update)

lemma server_inv_del:
  assumes "hm_wf m" "list_all (\<lambda>x. slot_ok (snd x)) m" "adm_agrees c st (holders m)" "same_identity st0 st" "app_config st0 = c"
    and "keeps_admission st st'"
  shows "server_inv c \<lparr>srv_app = st', srv_conns = m\<rparr>"
  using assms quiet_agrees [OF assms(6)] by (simp add: server_inv_def keeps_admission_def same_identity_def)

lemma server_eta:
  "s\<lparr>srv_app := st\<rparr> = \<lparr>srv_app = st, srv_conns = srv_conns s\<rparr>"
  "s\<lparr>srv_conns := m\<rparr> = \<lparr>srv_app = srv_app s, srv_conns = m\<rparr>" for s :: Server
  by simp_all

lemma accept_inv:
  assumes "server_inv c s"
  shows "server_inv c (server_step env (SockAccepted i peer t) s)"
proof (cases "hm_get (srv_conns s) i")
  case None
  obtain r st where acc: "serve_accept env t peer (srv_app s) = (r, st)" by fastforce
  have s: "hm_wf (srv_conns s)" "list_all (\<lambda>x. slot_ok (snd x)) (srv_conns s)" "app_config (srv_app s) = c"
    "adm_agrees (app_config (srv_app s)) (srv_app s) (holders (srv_conns s))"
    using assms by (auto simp: server_inv_def)
  note ag = serve_accept_agrees [OF acc s(4), of Setup]
  show ?thesis
  proof (cases "r = None \<or> r = Some None")
    case True
    with ag have st: "adm_agrees c st (holders (srv_conns s))" "same_identity (srv_app s) st" by (auto simp: s(3))
    from True None acc obtain q where "server_step env (SockAccepted i peer t) s = \<lparr>srv_app = supervise peer (q, st), srv_conns = srv_conns s\<rparr>"
      by (auto simp del: Server.update_convs simp: server_eta)
    with server_inv_del [OF s(1,2) st(1,2) s(3) supervise_quiet] show ?thesis by simp
  next
    case False
    then obtain x where x: "r = Some (Some x)" by (metis option.exhaust)
    have "hm_remove i (srv_conns s) = srv_conns s" using None by (simp add: map_of_eq_None_iff)
    with ag x s(3) have st: "slot_ok (peer, Setup, x)" "app_config st = c"
      "adm_agrees c st (slot_of (peer, Setup, x) + holders (hm_remove i (srv_conns s)))" by (auto simp: same_identity_def)
    from x None acc server_inv_put [OF s(1,2) st] show ?thesis by simp
  qed
qed (use assms in simp)

lemma setup_inv:
  assumes "server_inv c s" "max_unauth_connections_global c < 2 ^ 64"
  shows "server_inv c (server_step env (SetupDone i outcome t) s)"
proof (cases "\<exists>peer x. hm_get (srv_conns s) i = Some (peer, Setup, x)")
  case True
  then obtain peer x where g: "hm_get (srv_conns s) i = Some (peer, Setup, x)" by auto
  note in' = server_inv_remove [OF assms(1) g]
  have wf: "hm_wf (srv_conns s)" "list_all (\<lambda>x. slot_ok (snd x)) (srv_conns s)" using assms(1) by (auto simp: server_inv_def)
  show ?thesis
  proof (cases "outcome = Established")
    case True
    have "slot_ok (peer, Running, x)" "slot_of (peer, Running, x) = slot_of (peer, Setup, x)" using in'(1) by auto
    with server_inv_put [OF wf, of "(peer, Running, x)" "srv_app s" c i] in' True g show ?thesis
      by (simp del: Server.update_convs add: server_eta)
  next
    case False
    obtain r x' st where d: "handler_drop env (t 0) x (srv_app s) = (r, x', st)" by (metis prod_cases3)
    note st = handler_drop_agrees [OF d in'(1,2) assms(2)]
    let ?y = "case r of None \<Rightarrow> (None, st) | Some _ \<Rightarrow> app_bind (serve_setup env (t 1) peer outcome) (\<lambda>_. app_return (Inr ())) st"
    obtain q :: "(error_chain, unit) result option" and st1 where y: "?y = (q, st1)" by fastforce
    have "keeps_admission st st1"
      using y by (auto elim!: quiet_bind intro: serve_setup_quiet quiet_return split: option.splits)
    then have "keeps_admission st (supervise peer ?y)" using supervise_quiet [of st1 peer q] quiet_trans y by metis
    from server_inv_del [OF in'(4,3) conjunct1 [OF st] conjunct2 [OF st] in'(5) this] False g d show ?thesis by simp
  qed
next
  case False
  then have "server_step env (SetupDone i outcome t) s = s" by (auto split: option.splits phase.splits)
  with assms(1) show ?thesis by simp
qed

lemma call_inv:
  assumes "server_inv c s" "max_unauth_connections_global c < 2 ^ 64"
  shows "server_inv c (server_step env (HandlerCalled i tc) s)"
proof (cases "\<exists>peer x. hm_get (srv_conns s) i = Some (peer, Running, x)")
  case True
  then obtain peer x where g: "hm_get (srv_conns s) i = Some (peer, Running, x)" by auto
  note in' = server_inv_remove [OF assms(1) g]
  have wf: "hm_wf (srv_conns s)" "list_all (\<lambda>x. slot_ok (snd x)) (srv_conns s)" using assms(1) by (auto simp: server_inv_def)
  obtain r x' st where h: "handle_timed env tc x (srv_app s) = (r, x', st)" by (metis prod_cases3)
  let ?ph = "if r = None \<or> r = Some HandlerError then Stopping else Running"
  note st = handle_agrees [OF h in'(1,2) assms(2), of ?ph]
  have "app_config st = c" using handle_identity [OF h] in'(5) by (simp add: same_identity_def)
  from server_inv_put [OF wf conjunct1 [OF st] this conjunct2 [OF st]] g h show ?thesis by simp
next
  case False
  then have "server_step env (HandlerCalled i tc) s = s" by (auto split: option.splits phase.splits)
  with assms(1) show ?thesis by simp
qed

lemma end_inv:
  assumes "server_inv c s" "max_unauth_connections_global c < 2 ^ 64"
  shows "server_inv c (server_step env (SessionEnded i notified res t) s)"
proof (cases "\<exists>peer ph x. hm_get (srv_conns s) i = Some (peer, ph, x) \<and> ph \<noteq> Setup")
  case True
  then obtain peer ph x where g: "hm_get (srv_conns s) i = Some (peer, ph, x)" "ph \<noteq> Setup" by auto
  note in' = server_inv_remove [OF assms(1) g(1)]
  obtain r x' st where d: "handler_drop env (t 0) x (srv_app s) = (r, x', st)" by (metis prod_cases3)
  note st = handler_drop_agrees [OF d in'(1,2) assms(2)]
  obtain q st1 where y: "serve_end env (t 1) peer notified res st = (q, st1)" by fastforce
  have "keeps_admission st (supervise peer (q, st1))" using serve_end_quiet [OF y] supervise_quiet quiet_trans by metis
  from server_inv_del [OF in'(4,3) conjunct1 [OF st] conjunct2 [OF st] in'(5) this] g d y show ?thesis
    by (cases ph) auto
next
  case False
  then have "server_step env (SessionEnded i notified res t) s = s" by (auto split: option.splits phase.splits)
  with assms(1) show ?thesis by simp
qed

lemma server_step_inv:
  "server_inv c s \<Longrightarrow> max_unauth_connections_global c < 2 ^ 64 \<Longrightarrow> server_rel env s e s' \<Longrightarrow> server_inv c s'"
  unfolding server_rel_def by (cases e) (auto simp only: accept_inv setup_inv call_inv end_inv)

text \<open>The state \<open>bootstrap\<close> leaves: nobody is connected.\<close>

definition fresh :: "AppConfig \<Rightarrow> AppState \<Rightarrow> bool" where
  "fresh c st \<longleftrightarrow> app_config st = c \<and> adm_agrees c st {#} \<and> max_unauth_connections_global c < 2 ^ 64"

lemma bootstrap_fresh:
  assumes "bootstrap env t home alg user exists view spawned c = Some (Inr st)" "max_unauth_connections_global c < 2 ^ 64"
  shows "fresh c st"
  using assms admission_new_inv
  by (auto simp: bootstrap_def fresh_def adm_agrees_def caps_hold_def controller_new_def gauge_def metrics_new_def Let_def
      split: option.splits sum.splits if_splits)

lemma fresh_inv: "fresh c st \<Longrightarrow> server_inv c (server_start st)"
  by (simp add: server_start_def server_inv_def fresh_def hm_wf_def holders_def)

interpretation daemon: event_system "server_start st" "server_rel env" "\<lambda>s. fresh c st \<longrightarrow> server_inv c s" for st env c
  by unfold_locales (blast intro: fresh_inv, auto simp: fresh_def intro: server_step_inv)

definition unauthenticated_peers :: "Server \<Rightarrow> IpAddr list" where
  "unauthenticated_peers s = map (\<lambda>(i, peer, ph, c). ip peer) (filter (\<lambda>(i, peer, ph, c). \<not> conn_authenticated c) (srv_conns s))"

lemma holders_unauthenticated: "server_inv c s \<Longrightarrow> holders (srv_conns s) = mset (unauthenticated_peers s)"
proof -
  have "list_all (\<lambda>x. slot_ok (snd x)) m \<Longrightarrow>
      holders m = mset (map (\<lambda>(i, peer, ph, c). ip peer) (filter (\<lambda>(i, peer, ph, c). \<not> conn_authenticated c) m))" for m
    by (induction m) (auto simp: holders_def split: option.splits)
  then show "server_inv c s \<Longrightarrow> ?thesis" by (simp add: server_inv_def unauthenticated_peers_def)
qed

lemma reached_caps:
  assumes "bootstrap env t home alg user exists view spawned c = Some (Inr st)" "max_unauth_connections_global c < 2 ^ 64"
    and "reach (server_start st) (server_rel env) s"
  shows "caps_hold c (mset (unauthenticated_peers s))"
    "app_admission (srv_app s) \<noteq> Poisoned \<Longrightarrow> gauge (srv_app s) = of_nat (length (unauthenticated_peers s))"
proof -
  from daemon.inv_reach [OF assms(3)] bootstrap_fresh [OF assms(1,2)] have inv: "server_inv c s" by blast
  then have "adm_agrees c (srv_app s) (mset (unauthenticated_peers s))"
    using holders_unauthenticated [OF inv] by (simp add: server_inv_def)
  then show "caps_hold c (mset (unauthenticated_peers s))"
    "app_admission (srv_app s) \<noteq> Poisoned \<Longrightarrow> gauge (srv_app s) = of_nat (length (unauthenticated_peers s))"
    by (auto simp: adm_agrees_def split: mutex.splits)
qed

lemma caps_hold_list:
  "caps_hold c (mset xs) \<longleftrightarrow>
     length xs \<le> max_unauth_connections_global c \<and>
     (\<forall>k. length (filter (\<lambda>i. subnet_key i = k) xs) \<le> max_unauth_connections_per_subnet c) \<and>
     (\<forall>i. count_list xs i \<le> max 1 (max_unauth_connections_per_ip c))"
  by (simp add: caps_hold_def count_mset flip: mset_filter)


definition demo_peer :: SocketAddr where
  "demo_peer = \<lparr>ip = V4 10 0 0 1, sock_port = 50000\<rparr>"

definition demo_config :: AppConfig where
  "demo_config = default_config Unix ''/home/me'' ''/home/me/.config''"

lemma demo_boot:
  "\<exists>st. bootstrap demo_env (\<lambda>_. 0) (Some ''/home/me'') (Inr Ed25519) (Some ''me'') False (test_view 1 ''old'') True demo_config = Some (Inr st) \<and>
     app_config st = demo_config \<and> app_admission st = controller_new (from_app_config demo_config) 0"
  by (simp add: bootstrap_def demo_env_def state_missing_def instant_add_def demo_config_def default_config_def Let_def from_secs_def nanos_per_sec_def)

lemma demo_acquire:
  "\<exists>a. try_acquire_at Unix (controller_new (from_app_config demo_config) 0) (ip demo_peer) 0 =
     (Some (Inr \<lparr>guard_ip = ip demo_peer, guard_subnet = subnet_key (ip demo_peer), released = False\<rparr>), Unlocked a)"
  by (simp add: try_acquire_at_def controller_new_def from_app_config_def demo_config_def default_config_def demo_peer_def adm_eval)


end
