(* ===== verification/Log_Text.thy ===== *)
theory Log_Text
  imports Sshd_Server Rust_Fmt
begin

text \<open>
  The text of the daemon's log lines (\<open>src/src/sshd.rs\<close>): the formats of the events that any
  peer can provoke, and that whatever such a peer sends stays on the line of its event.

  Parameters are the library's table of printable characters, the texts of key file errors,
  and the path shown in reload lines.
\<close>

subsection \<open>Formats\<close>

fun reject_debug :: "RejectReason \<Rightarrow> string" where
  "reject_debug TooManyUnauthenticatedConnections = ''TooManyUnauthenticatedConnections''"
| "reject_debug TooManyUnauthenticatedConnectionsForIp = ''TooManyUnauthenticatedConnectionsForIp''"
| "reject_debug TooManyUnauthenticatedConnectionsForSubnet = ''TooManyUnauthenticatedConnectionsForSubnet''"
| "reject_debug ConnectionRateLimited = ''ConnectionRateLimited''"
| "reject_debug TemporarilyBanned = ''TemporarilyBanned''"

definition show_bool :: "bool \<Rightarrow> string" where
  "show_bool b = (if b then ''true'' else ''false'')"

definition peer_label :: "SocketAddr option \<Rightarrow> string" where
  "peer_label peer = (case peer of None \<Rightarrow> ''<unknown peer>'' | Some a \<Rightarrow> socket_to_string a)"

definition auth_rejection_log_message ::
    "(string \<Rightarrow> bool) \<Rightarrow> SocketAddr option \<Rightarrow> string \<Rightarrow> string \<Rightarrow> bool option \<Rightarrow> string" where
  "auth_rejection_log_message printable peer cat reason temporary_ban =
     (case temporary_ban of
        Some ban \<Rightarrow>
          ''event=auth_rejected peer='' @ peer_label peer @ '' category='' @ cat @ '' reason='' @ str_debug printable reason @
          '' temporary_ban='' @ show_bool ban
      | None \<Rightarrow> ''event=auth_rejected peer=<unknown> category='' @ cat @ '' reason='' @ str_debug printable reason)"

definition quoted :: "string \<Rightarrow> string" where
  "quoted s = CHR 0x22 # s @ [CHR 0x22]"

definition reload_text :: "(string \<Rightarrow> bool) \<Rightarrow> (KeysError \<Rightarrow> string) \<Rightarrow> path \<Rightarrow> AuthorizedKeysReloadEvent \<Rightarrow> string" where
  "reload_text printable error_text q ev =
     (let keeping = quoted ''keeping the last known-good in-memory cache'' in
      case ev of
        EventLoaded g n \<Rightarrow>
          ''event=authorized_keys_reload result=success path='' @ from_utf8_lossy q @ '' generation='' @ show_nat g @
          (if n = 0 then []
           else '' ignored_entries='' @ show_nat n @ '' message='' @
             quoted (''ignored entr'' @ (if n = 1 then ''y'' else ''ies'') @ '' with unsupported options''))
      | EventMissing \<Rightarrow> ''event=authorized_keys_reload result=missing path='' @ from_utf8_lossy q @ '' message='' @ keeping
      | EventFailed e \<Rightarrow>
          ''event=authorized_keys_reload result=failure path='' @ from_utf8_lossy q @ '' message='' @ keeping @
          '' error='' @ str_debug printable (error_text e))"

text \<open>A panic carries a string or something else.\<close>

datatype PanicPayload = StrPayload string | StringPayload string | OtherPayload

fun panic_payload_message :: "PanicPayload \<Rightarrow> string" where
  "panic_payload_message (StrPayload s) = s"
| "panic_payload_message (StringPayload s) = s"
| "panic_payload_message OtherPayload = ''<non-string panic payload>''"

definition connection_panic_text :: "(string \<Rightarrow> bool) \<Rightarrow> SocketAddr \<Rightarrow> PanicPayload \<Rightarrow> string" where
  "connection_panic_text printable peer content =
     ''event=connection_panic peer='' @ socket_to_string peer @ '' panic='' @ str_debug printable (panic_payload_message content)"

definition connection_rejected_text :: "SocketAddr \<Rightarrow> RejectReason \<Rightarrow> string" where
  "connection_rejected_text peer reason = ''event=connection_rejected peer='' @ socket_to_string peer @ '' reason='' @ reject_debug reason"

definition preauth_timeout_text :: "SocketAddr \<Rightarrow> string \<Rightarrow> nat \<Rightarrow> string" where
  "preauth_timeout_text peer kind elapsed_ms =
     ''event=preauth_timeout peer='' @ socket_to_string peer @ '' kind='' @ kind @ '' elapsed_ms='' @ show_nat elapsed_ms"

definition auth_accepted_text :: "SocketAddr option \<Rightarrow> string" where
  "auth_accepted_text peer = ''event=auth_accepted peer='' @ peer_label peer @ '' authentication=public_key''"

definition auth_success_text :: "SocketAddr option \<Rightarrow> string" where
  "auth_success_text peer = ''event=auth_success peer='' @ peer_label peer"

lemmas line_text_defs = connection_rejected_text_def preauth_timeout_text_def auth_accepted_text_def auth_success_text_def

text \<open>
  The text of a recorded event. The line of a failed connection shows the error of the SSH
  library as it is, and that of a panic its payload; both are outside the recorded data.
\<close>

fun log_text :: "(string \<Rightarrow> bool) \<Rightarrow> (KeysError \<Rightarrow> string) \<Rightarrow> path \<Rightarrow> LogLine \<Rightarrow> string option" where
  "log_text printable et q (RejectedLine peer reason) = Some (connection_rejected_text peer reason)"
| "log_text printable et q (TimeoutLine peer kind elapsed_ms) = Some (preauth_timeout_text peer kind elapsed_ms)"
| "log_text printable et q (AuthRejectedLine peer cat reason ban) = Some (auth_rejection_log_message printable peer cat reason ban)"
| "log_text printable et q (ReloadLine ev) = Some (reload_text printable et q ev)"
| "log_text printable et q (AcceptedLine peer) = Some (auth_accepted_text peer)"
| "log_text printable et q (AuthSuccessLine peer) = Some (auth_success_text peer)"
| "log_text printable et q (ConnectionErrorLine peer) = None"
| "log_text printable et q (ConnectionPanicLine peer) = None"

text \<open>The note on suppressed lines; the limiter's window is 30 seconds.\<close>

definition emitted_text :: "(string \<Rightarrow> bool) \<Rightarrow> (KeysError \<Rightarrow> string) \<Rightarrow> path \<Rightarrow> LogLine \<times> nat \<Rightarrow> string option" where
  "emitted_text printable et q x =
     (case x of
        (l, n) \<Rightarrow>
          map_option (\<lambda>s. if n = 0 then s else s @ ''; suppressed '' @ show_nat n @ '' similar messages in the last 30s'')
            (log_text printable et q l))"

subsection \<open>Lines stay lines\<close>

fun line_ok :: "LogLine \<Rightarrow> bool" where
  "line_ok (TimeoutLine peer kind ms) = clean kind"
| "line_ok (AuthRejectedLine peer cat reason ban) = clean cat"
| "line_ok _ = True"

lemma clean_reject [simp]: "clean (reject_debug r)"
  by (cases r) (simp_all add: clean_char_def)

lemma clean_quoted [simp]: "clean (quoted s) = clean s"
  by (simp add: quoted_def)

lemma clean_peer [simp]: "clean (peer_label peer)"
  by (simp add: peer_label_def clean_char_def split: option.split)

lemma clean_lossy: "clean s \<Longrightarrow> clean (from_utf8_lossy s)"
proof (induction s rule: from_utf8_lossy.induct)
  case (1 s)
  show ?case
  proof (cases "s = []")
    case False
    obtain valid n where v: "utf8_item s = (valid, n)" by fastforce
    have "clean (take n s)" "clean (drop n s)"
      using "1.prems" by (auto simp: clean_def list_all_iff dest: in_set_takeD in_set_dropD)
    with 1 False v show ?thesis by (subst from_utf8_lossy.simps) (simp add: clean_char_def)
  qed (simp add: from_utf8_lossy.simps)
qed

lemma clean_rejection: "clean cat \<Longrightarrow> clean (auth_rejection_log_message printable peer cat reason ban)"
  by (simp add: auth_rejection_log_message_def show_bool_def clean_char_def split: option.split)

lemma clean_reload: "clean q \<Longrightarrow> clean (reload_text printable et q ev)"
  by (cases ev) (simp_all add: reload_text_def clean_lossy clean_char_def)

lemma clean_log_text: "line_ok l \<Longrightarrow> clean q \<Longrightarrow> log_text printable et q l = Some s \<Longrightarrow> clean s"
  by (cases l) (auto simp: line_text_defs clean_rejection clean_reload clean_char_def)

lemma clean_emitted: "line_ok l \<Longrightarrow> clean q \<Longrightarrow> emitted_text printable et q (l, n) = Some s \<Longrightarrow> clean s"
  using clean_log_text [of l q printable et] by (auto simp: emitted_text_def clean_char_def)

subsection \<open>Every line the daemon writes\<close>

definition log_ok :: "AppState \<Rightarrow> bool" where
  "log_ok st \<longleftrightarrow> list_all (\<lambda>x. line_ok (fst x)) (app_log st)"

text \<open>An operation that only adds such lines.\<close>

definition logs_lines :: "'a app \<Rightarrow> bool" where
  "logs_lines f \<longleftrightarrow> (\<forall>st r st'. log_ok st \<longrightarrow> f st = (r, st') \<longrightarrow> log_ok st')"

lemma logs_linesD: "logs_lines f \<Longrightarrow> log_ok st \<Longrightarrow> f st = (r, st') \<Longrightarrow> log_ok st'"
  unfolding logs_lines_def by blast

lemma logs_bind: "logs_lines f \<Longrightarrow> (\<And>a. logs_lines (g a)) \<Longrightarrow> logs_lines (app_bind f g)"
  unfolding logs_lines_def by (blast elim: app_bind_cases)

lemma logs_metrics: "logs_lines (on_metrics f)"
  by (auto simp: logs_lines_def on_metrics_def log_ok_def)

lemma logs_return: "logs_lines (app_return a)"
  by (auto simp: logs_lines_def app_return_def)

lemma logs_line: "line_ok l \<Longrightarrow> logs_lines (log_line l n)"
  by (auto simp: logs_lines_def log_line_def log_ok_def)

lemma logs_warn: "line_ok l \<Longrightarrow> logs_lines (warn_limited env now peer cat l)"
  by (auto simp: logs_lines_def warn_limited_def log_line_def log_ok_def split: prod.splits option.splits LogDecision.splits)

lemmas logs_intros = logs_bind logs_metrics logs_return logs_line logs_warn

lemma logs_reload: "logs_lines (log_authorized_keys_reload env now ev)"
  by (auto simp: log_authorized_keys_reload_def intro!: logs_intros split: AuthorizedKeysReloadEvent.split)

lemma log_ok_frame [simp]:
  "log_ok (st\<lparr>app_admission := a\<rparr>) = log_ok st" "log_ok (st\<lparr>app_keys := ks\<rparr>) = log_ok st"
  "log_ok (st\<lparr>app_metrics := m\<rparr>) = log_ok st" "log_ok (st\<lparr>app_limiter := l\<rparr>) = log_ok st"
  by (simp_all add: log_ok_def)

lemma logs_failure:
  assumes "clean cat"
  shows "logs_lines (app_record_auth_failure env t peer cat reason)"
proof (cases peer)
  case None
  with assms show ?thesis by (auto simp: app_record_auth_failure_def intro!: logs_intros)
next
  case (Some sa)
  have "logs_lines (app_bind (on_metrics (metrics_auth_failure (Some (ip sa)) ban))
      (\<lambda>_. warn_limited env (t 1) peer cat (AuthRejectedLine peer cat reason (Some ban))))" for ban
    using assms by (auto intro!: logs_intros)
  note step = this
  show ?thesis
    unfolding logs_lines_def
  proof (intro allI impI)
    fix st r st'
    assume ok: "log_ok st" and f: "app_record_auth_failure env t peer cat reason st = (r, st')"
    obtain b ctl where rec: "record_auth_failure_at (env_platform env) (app_admission st) (ip sa) (t 0) = (b, ctl)" by fastforce
    show "log_ok st'"
    proof (cases b)
      case None
      with f rec Some ok show ?thesis by (auto simp: app_record_auth_failure_def)
    next
      case (Some ban)
      have "app_bind (on_metrics (metrics_auth_failure (Some (ip sa)) ban))
          (\<lambda>_. warn_limited env (t 1) peer cat (AuthRejectedLine peer cat reason (Some ban))) (st\<lparr>app_admission := ctl\<rparr>) = (r, st')"
        using f by (simp only: app_record_auth_failure_def \<open>peer = Some sa\<close> rec Some option.case prod.case)
      from logs_linesD [OF step _ this] ok show ?thesis by simp
    qed
  qed
qed

lemma logs_is_authorized: "logs_lines (is_authorized env t view key)"
  unfolding logs_lines_def
proof (intro allI impI)
  fix st r st'
  assume ok: "log_ok st" and f: "is_authorized env t view key st = (r, st')"
  obtain b ks where rf: "store_refresh (env_parse env) (env_bytes env) (env_platform env) (t 0) view (app_keys st) = (b, ks)"
    by fastforce
  have reload: "logs_lines (case ev of None \<Rightarrow> app_return () | Some x \<Rightarrow> log_authorized_keys_reload env (t 1) x)" for ev
    by (auto intro!: logs_return logs_reload split: option.split)
  have look: "logs_lines (\<lambda>st'. (store_contains (env_bytes env) (app_keys st') key, st'))"
    by (simp add: logs_lines_def)
  show "log_ok st'"
  proof (cases "\<exists>ev. b = Some (Inr ev)")
    case True
    then obtain ev where ev: "b = Some (Inr ev)" by blast
    have "app_bind (case ev of None \<Rightarrow> app_return () | Some x \<Rightarrow> log_authorized_keys_reload env (t 1) x)
        (\<lambda>_ st'. (store_contains (env_bytes env) (app_keys st') key, st')) (st\<lparr>app_keys := ks\<rparr>) = (r, st')"
      using f by (simp only: is_authorized_def rf ev option.case sum.case prod.case)
    from logs_linesD [OF logs_bind [OF reload look] _ this] ok show ?thesis by simp
  next
    case False
    with f rf ok show ?thesis by (auto simp: is_authorized_def split: option.splits sum.splits)
  qed
qed

lemma logs_if: "logs_lines f \<Longrightarrow> logs_lines g \<Longrightarrow> logs_lines (\<lambda>st. if P st then f st else g st)"
  unfolding logs_lines_def by metis

lemma clean_categories [simp]:
  "clean ''auth-reject-username''" "clean ''auth-reject-key-algorithm''" "clean ''auth-reject-unknown-key''"
  "clean ''auth-reject-password''" "clean ''login-grace-timeout''" "clean ''kex-start-timeout''" "clean ''banner''"
  by (simp_all add: clean_char_def)

lemma logs_authorize: "logs_lines (authorize_key env t view peer user key)"
  unfolding authorize_key_def [abs_def]
proof (intro logs_if logs_bind logs_failure logs_return clean_categories logs_is_authorized)
  fix r :: "(KeysError, bool) result"
  show "logs_lines (case r of
      Inl e \<Rightarrow> app_return (Inl e)
    | Inr True \<Rightarrow> app_bind (log_line (AcceptedLine peer) 0) (\<lambda>_. app_return (Inr Auth.Accept))
    | Inr False \<Rightarrow>
        app_bind (app_record_auth_failure env (\<lambda>i. t (i + 2)) peer ''auth-reject-unknown-key''
            ''public key not present in authorized_keys cache'')
          (\<lambda>_. app_return (Inr Auth.Reject)))"
    by (cases r) (auto intro!: logs_bind logs_line logs_return logs_failure clean_categories split: bool.split)
qed

lemma logs_diag: "(\<And>st. logs_lines (F st)) \<Longrightarrow> logs_lines (\<lambda>st. F st st)"
  unfolding logs_lines_def by blast

lemma logs_preauth_error: "logs_lines (note_preauth_error env now peer err)"
proof -
  have idle: "logs_lines (\<lambda>st. (Some (), st))" by (simp add: logs_lines_def)
  have kind: "clean kind" if "preauth_timeout_details c err = Some (kind, ms)" for c kind ms
    using that by (auto simp: preauth_timeout_details_def simp del: clean_simps split: if_splits)
  let ?F = "\<lambda>st. case preauth_timeout_details (app_config st) err of
      Some (kind, elapsed_ms) \<Rightarrow>
        app_bind (on_metrics (record_rejected_connection kind))
          (\<lambda>_. app_bind (on_metrics record_preauth_timeout)
            (\<lambda>_. warn_limited env now (Some peer) kind (TimeoutLine peer kind elapsed_ms)))
    | None \<Rightarrow>
        if is_malformed_connection_error err
        then app_bind (on_metrics (record_rejected_connection ''malformed-disconnect'')) (\<lambda>_. on_metrics record_malformed_disconnect)
        else (\<lambda>st. (Some (), st))"
  have "logs_lines (?F st)" for st
  proof (cases "preauth_timeout_details (app_config st) err")
    case None
    then show ?thesis by (simp add: logs_bind logs_metrics idle)
  next
    case (Some x)
    obtain k ms where x: "x = (k, ms)" by fastforce
    have "line_ok (TimeoutLine peer k ms)" using kind Some x by simp
    with Some x show ?thesis by (simp add: logs_intros)
  qed
  moreover have "note_preauth_error env now peer err = (\<lambda>st. ?F st st)"
    by (rule ext) (auto simp add: note_preauth_error_def split: option.split)
  ultimately show ?thesis by (simp only:) (rule logs_diag)
qed

lemma logs_banner: "logs_lines (note_banner_timeout env now peer)"
  unfolding note_banner_timeout_def [abs_def]
  by (rule logs_diag) (auto intro!: logs_intros clean_categories simp del: clean_simps)

lemma logs_setup: "logs_lines (serve_setup env now peer outcome)"
  by (cases outcome) (simp_all add: serve_setup_def logs_return logs_preauth_error logs_banner)

lemma logs_end: "logs_lines (serve_end env now peer notified res)"
  by (auto simp: serve_end_def intro!: logs_return logs_bind logs_preauth_error split: sum.split)

lemma supervise_log: "log_ok (snd x) \<Longrightarrow> log_ok (supervise peer x)"
  by (cases x) (auto simp: supervise_def log_line_def log_ok_def split: option.split sum.split)

lemma accept_log:
  assumes "serve_accept env t peer st = (r, st')" "log_ok st"
  shows "log_ok st'"
proof -
  obtain q ctl where acq: "try_acquire_at (env_platform env) (app_admission st) (ip peer) (t 0) = (q, ctl)" by fastforce
  show ?thesis
  proof (cases "\<exists>reason. q = Some (Inl reason)")
    case True
    then obtain reason where q: "q = Some (Inl reason)" by blast
    have eq: "app_bind (on_metrics (record_rejected_connection (reject_category reason)))
        (\<lambda>_. app_bind (warn_limited env (t 1) (Some peer) (reject_category reason) (RejectedLine peer reason))
          (\<lambda>_. app_return None)) (st\<lparr>app_admission := ctl\<rparr>) = (r, st')"
      using assms(1) by (simp only: serve_accept_def acq q option.case sum.case prod.case)
    have "logs_lines (app_bind (on_metrics (record_rejected_connection (reject_category reason)))
        (\<lambda>_. app_bind (warn_limited env (t 1) (Some peer) (reject_category reason) (RejectedLine peer reason))
          (\<lambda>_. app_return (None :: Conn option))))"
      by (auto intro!: logs_intros)
    from logs_linesD [OF this _ eq] assms(2) show ?thesis by simp
  next
    case False
    with assms acq show ?thesis
      by (auto simp: serve_accept_def log_ok_def split: option.splits sum.splits prod.splits)
  qed
qed

lemma auth_calls_log:
  "auth_publickey env t view user key c st = (r, c', st') \<Longrightarrow> log_ok st \<Longrightarrow> log_ok st'"
  "auth_publickey_offered env t view user key c st = (r, c', st') \<Longrightarrow> log_ok st \<Longrightarrow> log_ok st'"
  "auth_password env t c st = (r, c', st') \<Longrightarrow> log_ok st \<Longrightarrow> log_ok st'"
  "auth_succeeded env t c st = (r, c', st') \<Longrightarrow> log_ok st \<Longrightarrow> log_ok st'"
proof -
  show "log_ok st'" if "auth_publickey env t view user key c st = (r, c', st')" "log_ok st"
    using that logs_linesD [OF logs_authorize] by (auto simp: auth_publickey_def split: prod.splits)
  show "log_ok st'" if "auth_publickey_offered env t view user key c st = (r, c', st')" "log_ok st"
    using that logs_linesD [OF logs_authorize] by (auto simp: auth_publickey_offered_def split: prod.splits)
  show "log_ok st'" if "auth_password env t c st = (r, c', st')" "log_ok st"
    using that logs_linesD [OF logs_failure [OF clean_categories(4)]]
    by (auto simp: auth_password_def simp del: clean_simps split: prod.splits option.splits)
  show "log_ok st'" if "auth_succeeded env t c st = (r, c', st')" "log_ok st"
    using that by (auto simp: auth_succeeded_def put_shared_def log_line_def log_ok_def split: prod.splits option.splits)
qed

lemma handle_log: "handle_timed env tc c st = (r, c', st') \<Longrightarrow> log_ok st \<Longrightarrow> log_ok st'"
  by (cases "the_call tc")
    (auto simp: handle_timed_def channel_open_session_def channel_close_def dest: service_calls_state auth_calls_log)

lemma drop_log: "handler_drop env now c st = (r, c', st') \<Longrightarrow> log_ok st \<Longrightarrow> log_ok st'"
  by (auto simp: handler_drop_def put_shared_def log_ok_def Let_def split: prod.splits)

lemma server_step_log: "server_rel env s e s' \<Longrightarrow> log_ok (srv_app s) \<Longrightarrow> log_ok (srv_app s')"
proof -
  assume "log_ok (srv_app s)"
  then have "log_ok (srv_app (server_step env e s))"
  proof (cases e)
    case (SockAccepted i peer t)
    with \<open>log_ok (srv_app s)\<close> show ?thesis
      using accept_log by (fastforce split: prod.splits option.splits intro!: supervise_log)
  next
    case (SetupDone i outcome t)
    have "log_ok (snd (app_bind (serve_setup env (t 1) peer outcome) (\<lambda>_. app_return (Inr ())) st))" if "log_ok st" for peer st
      using logs_linesD [OF logs_bind [OF logs_setup logs_return] that prod.collapse [symmetric]] .
    with SetupDone \<open>log_ok (srv_app s)\<close> show ?thesis
      using drop_log by (fastforce split: prod.splits option.splits phase.splits intro!: supervise_log)
  next
    case (HandlerCalled i tc)
    with \<open>log_ok (srv_app s)\<close> show ?thesis
      using handle_log by (fastforce split: prod.splits option.splits phase.splits)
  next
    case (SessionEnded i notified res t)
    have "log_ok (snd (serve_end env (t 1) peer notified res st))" if "log_ok st" for peer st
      using logs_linesD [OF logs_end that prod.collapse [symmetric]] .
    with SessionEnded \<open>log_ok (srv_app s)\<close> show ?thesis
      using drop_log by (fastforce split: prod.splits option.splits phase.splits intro!: supervise_log)
  qed
  then show "server_rel env s e s' \<Longrightarrow> log_ok (srv_app s')" by (simp add: server_rel_def)
qed

interpretation logged: event_system "server_start st" "server_rel env" "\<lambda>s. log_ok st \<longrightarrow> log_ok (srv_app s)" for st env
  by unfold_locales (simp add: server_start_def, blast dest: server_step_log)


text \<open>A daemon that admits nobody, and its first peer.\<close>

definition closed_config :: AppConfig where
  "closed_config = demo_config\<lparr>max_unauth_connections_global := 0\<rparr>"

lemma closed_boot:
  "\<exists>st. bootstrap demo_env (\<lambda>_. 0) (Some ''/home/me'') (Inr Ed25519) (Some ''me'') False (test_view 1 ''old'') True closed_config = Some (Inr st) \<and>
     app_admission st = controller_new (from_app_config closed_config) 0 \<and> app_limiter st = Unlocked (limiter_new (from_secs 30) 4096 0) \<and>
     app_log st = []"
  by (simp add: bootstrap_def demo_env_def state_missing_def instant_add_def closed_config_def demo_config_def default_config_def Let_def from_secs_def nanos_per_sec_def)

lemma closed_refuses:
  "\<exists>a. try_acquire_at Unix (controller_new (from_app_config closed_config) 0) (ip demo_peer) 0 =
     (Some (Inl TooManyUnauthenticatedConnections), Unlocked a)"
  by (simp add: try_acquire_at_def controller_new_def from_app_config_def closed_config_def demo_config_def default_config_def demo_peer_def adm_eval)

lemma fresh_limiter_emits:
  "\<exists>l. check_at id (Unlocked (limiter_new (from_secs 30) 4096 0)) k 0 = (Some (Emit 0), l)"
  by (simp add: check_at_def check_def check_entry_def maybe_cleanup_def limiter_new_def Let_def)


end
