(* ===== verification/Startup.thy ===== *)
theory Startup
  imports Sshd_Server Sandbox
begin

text \<open>
  How the daemon comes up: the host key and its permissions, the user name, the parameters
  given to the SSH library, the order of start-up steps and the accept loop
  (\<open>src/src/sshd.rs\<close>), the command line (\<open>src/src/main.rs\<close>) and the sandbox probes
  (\<open>src/src/sandbox.rs\<close>).

  The file system is a world \<open>'w\<close> with operations as parameters, which may fail; reading,
  generating and writing keys belong to the crate \<open>ssh_key\<close>.
\<close>

unbundle bit_operations_syntax

subsection \<open>The host key\<close>

datatype HostKeyError =
    ReadKeyFailed string
  | CreateDirectoryFailed IoError
  | SecureDirectoryFailed IoError
  | GenerateKeyFailed string
  | WriteKeyFailed string
  | StatKeyFailed IoError
  | InsecurePermissions "32 word"

record ('w, 'k) KeyOs =
  key_exists :: "path \<Rightarrow> 'w \<Rightarrow> bool"
  read_openssh_file :: "path \<Rightarrow> 'w \<Rightarrow> (string, 'k) result"
  make_dirs :: "path \<Rightarrow> ('w, unit) os_call"
  set_mode :: "path \<Rightarrow> 32 word \<Rightarrow> ('w, unit) os_call"
  stat_mode :: "path \<Rightarrow> 'w \<Rightarrow> (IoError, 32 word) result"
  random_ed25519 :: "(string, 'k) result"
  write_openssh_file :: "'k \<Rightarrow> path \<Rightarrow> 'w \<Rightarrow> (string, unit) result \<times> 'w"

text \<open>The mode bits \<open>0o777\<close> and \<open>0o077\<close>.\<close>

definition verify_private_host_key_file_permissions ::
    "platform \<Rightarrow> ('w, 'k) KeyOs \<Rightarrow> path \<Rightarrow> 'w \<Rightarrow> (HostKeyError, unit) result" where
  "verify_private_host_key_file_permissions p os q w =
     (case p of
        Windows \<Rightarrow> Inr ()
      | Unix \<Rightarrow>
          (case stat_mode os q w of
             Inl e \<Rightarrow> Inl (StatKeyFailed e)
           | Inr m \<Rightarrow>
               let mode = m AND 511 in
               if mode AND 63 \<noteq> 0 then Inl (InsecurePermissions mode) else Inr ()))"

definition ensure_private_host_key_directory :: "platform \<Rightarrow> ('w, 'k) KeyOs \<Rightarrow> path \<Rightarrow> ('w, unit) os_call" where
  "ensure_private_host_key_directory p os q w =
     (case p of Windows \<Rightarrow> (Inr (), w) | Unix \<Rightarrow> set_mode os q 448 w)"

definition prepare_key_directory :: "platform \<Rightarrow> ('w, 'k) KeyOs \<Rightarrow> path \<Rightarrow> 'w \<Rightarrow> (HostKeyError, unit) result \<times> 'w" where
  "prepare_key_directory p os q w =
     (case path_parent q of
        None \<Rightarrow> (Inr (), w)
      | Some parent \<Rightarrow>
          (case make_dirs os parent w of
             (Inl e, w1) \<Rightarrow> (Inl (CreateDirectoryFailed e), w1)
           | (Inr _, w1) \<Rightarrow>
               (case ensure_private_host_key_directory p os parent w1 of
                  (Inl e, w2) \<Rightarrow> (Inl (SecureDirectoryFailed e), w2)
                | (Inr _, w2) \<Rightarrow> (Inr (), w2))))"

definition load_or_generate_host_key :: "platform \<Rightarrow> ('w, 'k) KeyOs \<Rightarrow> path \<Rightarrow> 'w \<Rightarrow> (HostKeyError, 'k) result \<times> 'w" where
  "load_or_generate_host_key p os q w =
     (if key_exists os q w then
        (case read_openssh_file os q w of
           Inl e \<Rightarrow> (Inl (ReadKeyFailed e), w)
         | Inr key \<Rightarrow>
             (map_sum id (\<lambda>_. key) (verify_private_host_key_file_permissions p os q w), w))
      else
        (case prepare_key_directory p os q w of
           (Inl e, w1) \<Rightarrow> (Inl e, w1)
         | (Inr _, w1) \<Rightarrow>
             (case random_ed25519 os of
                Inl e \<Rightarrow> (Inl (GenerateKeyFailed e), w1)
              | Inr key \<Rightarrow>
                  (case write_openssh_file os key q w1 of
                     (Inl e, w2) \<Rightarrow> (Inl (WriteKeyFailed e), w2)
                   | (Inr _, w2) \<Rightarrow>
                       (map_sum id (\<lambda>_. key) (verify_private_host_key_file_permissions p os q w2), w2)))))"

subsection \<open>The user\<close>

datatype UsernameError = UidLookupFailed | NoPasswdEntry | NoUserVariable

text \<open>On Unix the entry of the daemon's uid; elsewhere the environment variables.\<close>

definition resolve_daemon_username ::
    "platform \<Rightarrow> (unit, string option) result \<Rightarrow> (string \<Rightarrow> string option) \<Rightarrow> (UsernameError, string) result" where
  "resolve_daemon_username p passwd var =
     (case p of
        Unix \<Rightarrow>
          (case passwd of
             Inl _ \<Rightarrow> Inl UidLookupFailed
           | Inr None \<Rightarrow> Inl NoPasswdEntry
           | Inr (Some name) \<Rightarrow> Inr name)
      | Windows \<Rightarrow>
          (case var ''USERNAME'' of
             Some name \<Rightarrow> Inr name
           | None \<Rightarrow> ok_or NoUserVariable (var ''USER'')))"

subsection \<open>Parameters of the SSH library\<close>

record Preferred =
  pref_kex :: "string list"
  pref_key :: "Algorithm list"
  pref_certificates :: "string list"
  pref_cipher :: "string list"
  pref_mac :: "string list"
  pref_compression :: "string list"

definition public_exposure_preferred :: Preferred where
  "public_exposure_preferred =
     \<lparr>pref_kex = [''MLKEM768X25519_SHA256'', ''CURVE25519'', ''CURVE25519_PRE_RFC_8731'', ''EXTENSION_SUPPORT_AS_SERVER'',
                  ''EXTENSION_OPENSSH_STRICT_KEX_AS_SERVER''],
      pref_key = [Ed25519, SkEd25519],
      pref_certificates = [],
      pref_cipher = [''CHACHA20_POLY1305'', ''AES_256_GCM'', ''AES_256_CTR'', ''AES_128_CTR''],
      pref_mac = [''HMAC_SHA512_ETM'', ''HMAC_SHA256_ETM'', ''HMAC_SHA512'', ''HMAC_SHA256''],
      pref_compression = [''NONE'']\<rparr>"

datatype MethodKind = PublicKeyMethod | OtherMethod string

record 'k ServerConfig =
  sc_methods :: "MethodKind list"
  sc_auth_rejection_time :: duration
  sc_auth_rejection_time_initial :: "duration option"
  sc_keys :: "'k list"
  sc_preferred :: Preferred
  sc_max_auth_attempts :: nat
  sc_inactivity_timeout :: "duration option"
  sc_keepalive_interval :: "duration option"
  sc_keepalive_max :: nat
  sc_nodelay :: bool
  sc_channel_buffer_size :: nat
  sc_event_buffer_size :: nat
  sc_window_size :: nat
  sc_maximum_packet_size :: nat

definition build_ssh_config :: "'k \<Rightarrow> AppState \<Rightarrow> 'k ServerConfig" where
  "build_ssh_config key st =
     (let c = app_config st in
      \<lparr>sc_methods = [PublicKeyMethod],
       sc_auth_rejection_time = auth_rejection_time c,
       sc_auth_rejection_time_initial = Some (auth_rejection_time c),
       sc_keys = [key],
       sc_preferred = public_exposure_preferred,
       sc_max_auth_attempts = max_auth_attempts c,
       sc_inactivity_timeout = Some (inactivity_timeout c),
       sc_keepalive_interval = Some (keepalive_interval c),
       sc_keepalive_max = keepalive_max c,
       sc_nodelay = nodelay c,
       sc_channel_buffer_size = channel_buffer_size c,
       sc_event_buffer_size = event_buffer_size c,
       sc_window_size = window_size c,
       sc_maximum_packet_size = maximum_packet_size c\<rparr>)"

subsection \<open>The accept loop\<close>

text \<open>
  The select of the loop: the shutdown future, an error of \<open>accept\<close>, or an event of the
  system of connections, accepted sockets among them. The loop has ended when it has a result.
\<close>

datatype 'k loop_item = ShutdownRequested | AcceptError IoError | Proceed "'k srv_event"

fun accept_loop :: "'k SshEnv \<Rightarrow> 'k loop_item list \<Rightarrow> Server \<Rightarrow> (IoError, unit) result option \<times> Server" where
  "accept_loop env [] s = (None, s)"
| "accept_loop env (ShutdownRequested # items) s = (Some (Inr ()), s)"
| "accept_loop env (AcceptError e # items) s = (Some (Inl e), s)"
| "accept_loop env (Proceed ev # items) s = accept_loop env items (server_step env ev s)"

datatype RunError = BootFailed BootError | BindFailed IoError | SandboxFailed SandboxError | AcceptFailed IoError

text \<open>
  Start-up in its order: the state, the listener, the two steps of the sandbox, the loop.
  The result comes with the process and, when the loop was entered, the system it leaves.
\<close>

record Kernel =
  k_eval :: filter_eval
  k_stack :: action_stack
  k_is_dir :: "path \<Rightarrow> bool"
  k_restrict :: "Ruleset \<Rightarrow> Process \<Rightarrow> RestrictionStatus option"
  k_prctl_errno :: "nat option"

definition run_until_shutdown ::
    "'k SshEnv \<Rightarrow> Kernel \<Rightarrow> (BootError, AppState) result \<Rightarrow> (IoError, unit) result \<Rightarrow> 'k loop_item list \<Rightarrow> Process
       \<Rightarrow> (RunError, unit) result option \<times> Process \<times> Server option" where
  "run_until_shutdown env k boot bind_result items p =
     (case boot of
        Inl e \<Rightarrow> (Some (Inl (BootFailed e)), p, None)
      | Inr st \<Rightarrow>
          (case bind_result of
             Inl e \<Rightarrow> (Some (Inl (BindFailed e)), p, None)
           | Inr _ \<Rightarrow>
               (case enable_no_new_privs (k_prctl_errno k) p of
                  (Inl e, p1) \<Rightarrow> (Some (Inl (SandboxFailed e)), p1, None)
                | (Inr _, p1) \<Rightarrow>
                    (case apply_preauth_sandbox (k_eval k) (k_stack k) (k_is_dir k) (k_restrict k)
                            (authorized_keys_file (app_config st)) p1 of
                       (Inl e, p2) \<Rightarrow> (Some (Inl (SandboxFailed e)), p2, None)
                     | (Inr _, p2) \<Rightarrow>
                         (case accept_loop env items (server_start st) of
                            (r, s) \<Rightarrow> (map_option (map_sum AcceptFailed id) r, p2, Some s))))))"

subsection \<open>The command line\<close>

record Cli =
  cli_config :: "path option"
  cli_check_config :: bool
  cli_print_sample_config :: bool
  cli_log_file :: "path option"
  cli_internal_executor :: bool
  cli_sandbox_probe :: "path option"
  cli_default_deny_probe :: "path option"

datatype CliAction =
    RunExecutor
  | RunSandboxProbe path
  | RunDefaultDenyProbe path
  | PrintText string
  | CliFailed
  | RunDaemon AppConfig

definition run_cli ::
    "platform \<Rightarrow> (path option \<Rightarrow> (ConfigError, AppConfig) result) \<Rightarrow> (LogLevel \<Rightarrow> path option \<Rightarrow> bool) \<Rightarrow> Cli \<Rightarrow> CliAction" where
  "run_cli p load init_log cli =
     (if p = Unix \<and> cli_internal_executor cli then RunExecutor
      else if p = Unix \<and> cli_sandbox_probe cli \<noteq> None then RunSandboxProbe (the (cli_sandbox_probe cli))
      else if p = Unix \<and> cli_default_deny_probe cli \<noteq> None then RunDefaultDenyProbe (the (cli_default_deny_probe cli))
      else if cli_print_sample_config cli then PrintText SAMPLE_CONFIG
      else case load (cli_config cli) of
          Inl e \<Rightarrow> CliFailed
        | Inr c \<Rightarrow>
            if \<not> init_log (log_level c) (cli_log_file cli) then CliFailed
            else if cli_check_config cli then PrintText (''config ok'' @ [CHR 0x0A])
            else RunDaemon c)"

subsection \<open>The sandbox probes\<close>

definition enter_sandbox :: "Kernel \<Rightarrow> path \<Rightarrow> Process \<Rightarrow> (SandboxError, unit) result \<times> Process" where
  "enter_sandbox k keys p =
     (case enable_no_new_privs (k_prctl_errno k) p of
        (Inl e, p1) \<Rightarrow> (Inl e, p1)
      | (Inr _, p1) \<Rightarrow> apply_preauth_sandbox (k_eval k) (k_stack k) (k_is_dir k) (k_restrict k) keys p1)"

datatype ProbeError = ProbeSandboxFailed SandboxError | ProbeReadFailed | ProbeModeFailed

definition flag_line :: "string \<Rightarrow> bool \<Rightarrow> string" where
  "flag_line name b = name @ ''='' @ (if b then ''1'' else ''0'') @ [CHR 0x0A]"

text \<open>
  The report of the first probe. What it observes is given: the text it reads back,
  whether the file exists, whether opening for writing, executing and making a socket
  fail (the socket with which error), and the seccomp mode.
\<close>

definition internal_probe ::
    "Kernel \<Rightarrow> path \<Rightarrow> (unit, string) result \<Rightarrow> bool \<Rightarrow> bool \<Rightarrow> bool \<Rightarrow> nat option \<Rightarrow> nat option \<Rightarrow> Process
       \<Rightarrow> (ProbeError, string) result \<times> Process" where
  "internal_probe k keys read_back exists write_denied exec_denied socket_errno mode p =
     (case enter_sandbox k keys p of
        (Inl e, p1) \<Rightarrow> (Inl (ProbeSandboxFailed e), p1)
      | (Inr _, p1) \<Rightarrow>
          (case read_back of
             Inl _ \<Rightarrow> (Inl ProbeReadFailed, p1)
           | Inr body \<Rightarrow>
               (case mode of
                  None \<Rightarrow> (Inl ProbeModeFailed, p1)
                | Some m \<Rightarrow>
                    (Inr (flag_line ''read_ok'' (body \<noteq> [] \<or> exists) @ flag_line ''write_denied'' write_denied @
                          flag_line ''exec_denied'' exec_denied @ flag_line ''socket_eperm'' (socket_errno = Some EPERM) @
                          ''seccomp_mode='' @ show_nat m @ [CHR 0x0A]), p1))))"

definition internal_default_deny_probe :: "Kernel \<Rightarrow> path \<Rightarrow> Process \<Rightarrow> (SandboxError, unit) result \<times> Process" where
  "internal_default_deny_probe k keys p =
     (case enter_sandbox k keys p of
        (Inl e, p1) \<Rightarrow> (Inl e, p1)
      | (Inr _, p1) \<Rightarrow>
          if verdict (k_eval k) (k_stack k) (filters p1) ''memfd_create'' = KillProcess
          then (Inr (), p1\<lparr>killed := True\<rparr>) else (Inr (), p1))"

subsection \<open>The sandbox surrounds every connection\<close>

definition sandboxed :: "Kernel \<Rightarrow> Process \<Rightarrow> bool" where
  "sandboxed k p \<longleftrightarrow>
     no_new_privs p \<and> (\<forall>c. verdict (k_eval k) (k_stack k) (filters p) c = preauth_policy c) \<and>
     (\<exists>d. k_is_dir k d \<and> rulesets p = [\<lparr>handled = abi_v1, beneath = [(d, {ReadFile, ReadDir})]\<rparr>])"

lemma apply_sandbox_success:
  assumes "kernel_laws (k_eval k) (k_stack k)" "filters p = []" "rulesets p = []"
    and "apply_preauth_sandbox (k_eval k) (k_stack k) (k_is_dir k) (k_restrict k) keys p = (Inr u, p')" "no_new_privs p"
  shows "sandboxed k p'"
proof -
  obtain d p1 where i: "install_authorized_keys_landlock (k_is_dir k) (k_restrict k) keys p = (Inr d, p1)"
    and f: "install_preauth_seccomp_filter (k_eval k) (k_stack k) p1 = (Inr u, p')"
    using assms(4) by (auto simp: apply_preauth_sandbox_def split: sum.splits prod.splits)
  note l = landlock_success [OF i]
  have "filters p1 = []" using l assms(2) by auto
  then have "p' = p1\<lparr>filters := [errno_filter, allowlist_filter]\<rparr>" using f install_fresh [OF assms(1)] by simp
  then show ?thesis using l assms(3,5) stacked_verdict [OF assms(1)] by (auto simp: sandboxed_def)
qed

lemma enter_sandbox_success:
  assumes "kernel_laws (k_eval k) (k_stack k)" "filters p = []" "rulesets p = []" "enter_sandbox k keys p = (Inr u, p')"
  shows "sandboxed k p'"
  using assms apply_sandbox_success [OF assms(1), of "p\<lparr>no_new_privs := True\<rparr>" keys u p']
  by (auto simp: enter_sandbox_def enable_no_new_privs_def split: option.splits sum.splits)

lemma run_enters_sandbox:
  "run_until_shutdown env k boot bind_result items p = (r, p', Some s) \<Longrightarrow>
     \<exists>st u. boot = Inr st \<and> bind_result = Inr u \<and> enter_sandbox k (authorized_keys_file (app_config st)) p = (Inr (), p') \<and>
       (r, s) = apfst (map_option (map_sum AcceptFailed id)) (accept_loop env items (server_start st))"
  by (auto simp: run_until_shutdown_def enter_sandbox_def split: sum.splits prod.splits)

lemma server_reach_step: "reach s0 (server_rel env) s \<Longrightarrow> reach s0 (server_rel env) (server_step env ev s)"
  by (erule reach_step [where e = ev]) (simp only: server_rel_def)

lemma accept_loop_reach: "accept_loop env items s = (r, s') \<Longrightarrow> reach s0 (server_rel env) s \<Longrightarrow> reach s0 (server_rel env) s'"
  by (induction env items s rule: accept_loop.induct) (auto intro: server_reach_step)

text \<open>An error of \<open>accept\<close> ends the daemon, whatever connections it serves.\<close>

lemma accept_error_ends_loop: "accept_loop env (AcceptError e # items) s = (Some (Inl e), s)"
  by simp

text \<open>
  No connection before the sandbox. If the accept loop was entered, the process has given
  up new privileges, its system calls follow the policy, and its only file system rule
  grants reading below one directory; and every state of the loop is one the system of
  connections reaches from the bootstrapped state.
\<close>

lemma connections_only_in_sandbox:
  assumes "kernel_laws (k_eval k) (k_stack k)" "filters p = []" "rulesets p = []"
    and "run_until_shutdown env k boot bind_result items p = (r, p', Some s)"
  shows "sandboxed k p' \<and> (\<exists>st. boot = Inr st \<and> reach (server_start st) (server_rel env) s)"
proof -
  obtain st u where r: "boot = Inr st" "enter_sandbox k (authorized_keys_file (app_config st)) p = (Inr (), p')"
    "(r, s) = apfst (map_option (map_sum AcceptFailed id)) (accept_loop env items (server_start st))"
    using run_enters_sandbox [OF assms(4)] by blast
  obtain r0 where l: "accept_loop env items (server_start st) = (r0, s)"
    using r(3) by (cases "accept_loop env items (server_start st)") (simp add: apfst_def map_prod_def)
  have "reach (server_start st) (server_rel env) s" using accept_loop_reach [OF l reach_init] .
  with r(1) enter_sandbox_success [OF assms(1-3) r(2)] show ?thesis by simp
qed

definition demo_kernel :: Kernel where
  "demo_kernel =
     \<lparr>k_eval = test_eval, k_stack = test_stack, k_is_dir = (\<lambda>d. d = ''/''),
      k_restrict = (\<lambda>_ _. Some \<lparr>ruleset_status = FullyEnforced, status_no_new_privs = True\<rparr>), k_prctl_errno = None\<rparr>"

text \<open>The probe for the default action never returns once the sandbox is in place.\<close>

lemma default_deny_probe_killed:
  assumes "kernel_laws (k_eval k) (k_stack k)" "filters p = []" "rulesets p = []" "internal_default_deny_probe k keys p = (Inr u, p')"
  shows "killed p'"
proof -
  obtain p1 where p1: "enter_sandbox k keys p = (Inr (), p1)"
    using assms(4) by (auto simp: internal_default_deny_probe_def split: sum.splits prod.splits)
  have "preauth_policy ''memfd_create'' = KillProcess" by code_simp
  with enter_sandbox_success [OF assms(1-3) p1] p1 assms(4) show ?thesis
    by (auto simp: internal_default_deny_probe_def sandboxed_def)
qed

text \<open>The daemon runs only on a configuration that was loaded and validated.\<close>

lemma run_cli_validated:
  "run_cli p (config_load p d ex rd) init_log cli = RunDaemon c \<Longrightarrow> validate c = Inr ()"
  by (auto simp: run_cli_def split: if_splits sum.splits elim: config_load_Inr)

subsection \<open>The host key is private\<close>

lemma verify_permissions_ok:
  "verify_private_host_key_file_permissions Unix os q w = Inr u \<Longrightarrow> \<exists>m. stat_mode os q w = Inr m \<and> m AND 63 = 0"
  by (auto simp: verify_private_host_key_file_permissions_def Let_def and.assoc split: sum.splits if_splits)

lemma returned_key_is_private:
  "load_or_generate_host_key Unix os q w = (Inr key, w') \<Longrightarrow> \<exists>m. stat_mode os q w' = Inr m \<and> m AND 63 = 0"
  by (auto simp: load_or_generate_host_key_def map_sum_eq_Inr dest!: verify_permissions_ok
      split: if_splits sum.splits prod.splits)

text \<open>
  [C22] The host key is private and is never replaced. On Unix a key is returned only if the
  file at its path has no permission bit for group or others afterwards; a key file that
  existed is read and left as it was, and otherwise the returned key is the one that was
  generated and written there.
\<close>

theorem host_key_is_private:
  assumes "load_or_generate_host_key Unix os q w = (Inr key, w')"
  shows "(\<exists>m. stat_mode os q w' = Inr m \<and> m AND 63 = 0) \<and>
    (if key_exists os q w then w' = w \<and> read_openssh_file os q w = Inr key
     else \<exists>w1. random_ed25519 os = Inr key \<and> write_openssh_file os key q w1 = (Inr (), w'))"
  using returned_key_is_private [OF assms] assms
  by (auto simp: load_or_generate_host_key_def map_sum_eq_Inr split: if_splits sum.splits prod.splits)

definition demo_key_os :: "(32 word option, string) KeyOs" where
  "demo_key_os =
     \<lparr>key_exists = (\<lambda>q w. w \<noteq> None), read_openssh_file = (\<lambda>q w. Inr ''key''), make_dirs = (\<lambda>q w. (Inr (), w)),
      set_mode = (\<lambda>q m w. (Inr (), w)),
      stat_mode = (\<lambda>q w. case w of None \<Rightarrow> Inl \<lparr>io_kind = NotFound, io_message = []\<rparr> | Some m \<Rightarrow> Inr m),
      random_ed25519 = Inr ''key'', write_openssh_file = (\<lambda>key q w. (Inr (), Some 384))\<rparr>"

theorem host_key_is_private_witness:
  "load_or_generate_host_key Unix demo_key_os ''/k/host'' None = (Inr ''key'', Some 384) \<and>
   stat_mode demo_key_os ''/k/host'' (Some 384) = Inr 384"
proof -
  have "load_or_generate_host_key Unix demo_key_os ''/k/host'' None = (Inr ''key'', Some 384)"
    by (simp add: load_or_generate_host_key_def prepare_key_directory_def ensure_private_host_key_directory_def
        verify_private_host_key_file_permissions_def demo_key_os_def split: option.split)
  with host_key_is_private [OF this] show ?thesis by (auto simp: demo_key_os_def)
qed

end
