(* ===== verification/Windows_Service.thy ===== *)
theory Windows_Service
  imports Config
begin

text \<open>
  The daemon under the Windows service manager (\<open>src/src/windows_service_runtime.rs\<close>): the
  handler of control events and the main function of the service, which share the handle
  for status reports and the sender of the shutdown signal.

  The service manager and the daemon itself answer through \<open>SvcEnv\<close>: whether registering
  succeeds, whether the n-th status report is taken, what loading the configuration,
  setting up the log, building the runtime and running the daemon return. Control events
  arrive before, between and after the steps of the main function.
\<close>

subsection \<open>State\<close>

datatype ServiceState = StartPending | Running | StopPending | Stopped

datatype ServiceExitCode = NO_ERROR | ServiceSpecific "32 word"

datatype ServiceControl = ControlStop | ControlShutdown | ControlInterrogate | ControlOther nat

datatype ControlResult = NoError | NotImplemented

datatype ServiceType = OWN_PROCESS

record ServiceStatus =
  service_type :: ServiceType
  current_state :: ServiceState
  controls_accepted :: "ServiceControl list"
  exit_code :: ServiceExitCode
  checkpoint :: "32 word"
  wait_hint :: duration
  process_id :: "nat option"

definition STARTUP_FAILURE_EXIT_CODE :: "32 word" where
  "STARTUP_FAILURE_EXIT_CODE = 1"

definition RUNTIME_FAILURE_EXIT_CODE :: "32 word" where
  "RUNTIME_FAILURE_EXIT_CODE = 2"

record WindowsServiceLaunchOptions =
  service_name :: string
  config_path :: "path option"
  svc_log_file :: "path option"

text \<open>The lines appended to the log file when the service cannot start, by the data they show.\<close>

datatype BootstrapNote = RegisterNote string | ConfigNote string ConfigError | LoggingNote string

record Svc =
  status_handle :: bool
  shutdown_tx :: bool
  shutdown_sent :: bool
  reports :: "ServiceStatus list"
  report_count :: nat
  bootstrap_errors :: "BootstrapNote list"

definition svc_new :: Svc where
  "svc_new =
     \<lparr>status_handle = False, shutdown_tx = True, shutdown_sent = False, reports = [], report_count = 0, bootstrap_errors = []\<rparr>"

datatype SvcError =
    NoLaunchOptions
  | RegisterFailed
  | MissingHandle
  | ReportFailed
  | ConfigFailed ConfigError
  | LoggingFailed
  | RuntimeFailed
  | DaemonFailed string

record SvcEnv =
  registered :: bool
  takes_report :: "nat \<Rightarrow> bool"
  loaded :: "(ConfigError, AppConfig) result"
  logging_ok :: bool
  runtime_ok :: bool
  daemon_result :: "(string, unit) result"

subsection \<open>Operations\<close>

definition service_status ::
    "ServiceState \<Rightarrow> ServiceControl list \<Rightarrow> ServiceExitCode \<Rightarrow> 32 word \<Rightarrow> duration \<Rightarrow> ServiceStatus" where
  "service_status state accepted code cp hint =
     \<lparr>service_type = OWN_PROCESS, current_state = state, controls_accepted = accepted, exit_code = code, checkpoint = cp,
      wait_hint = hint, process_id = None\<rparr>"

definition set_service_status :: "SvcEnv \<Rightarrow> ServiceStatus \<Rightarrow> Svc \<Rightarrow> (SvcError, unit) result \<times> Svc" where
  "set_service_status env status s =
     (if \<not> status_handle s then (Inl MissingHandle, s)
      else if takes_report env (report_count s)
        then (Inr (), s\<lparr>reports := reports s @ [status], report_count := report_count s + 1\<rparr>)
        else (Inl ReportFailed, s\<lparr>report_count := report_count s + 1\<rparr>))"

definition control_event :: "SvcEnv \<Rightarrow> ServiceControl \<Rightarrow> Svc \<Rightarrow> ControlResult \<times> Svc" where
  "control_event env ctl s =
     (if ctl = ControlStop \<or> ctl = ControlShutdown then
        (let s1 = snd (set_service_status env (service_status StopPending [] NO_ERROR 1 (from_secs 15)) s)
         in (NoError, if shutdown_tx s1 then s1\<lparr>shutdown_tx := False, shutdown_sent := True\<rparr> else s1))
      else if ctl = ControlInterrogate then (NoError, s)
      else (NotImplemented, s))"

definition control_events :: "SvcEnv \<Rightarrow> ServiceControl list \<Rightarrow> Svc \<Rightarrow> Svc" where
  "control_events env ctls s = fold (\<lambda>ctl s. snd (control_event env ctl s)) ctls s"

definition note_bootstrap_error :: "BootstrapNote \<Rightarrow> Svc \<Rightarrow> Svc" where
  "note_bootstrap_error msg s = s\<lparr>bootstrap_errors := bootstrap_errors s @ [msg]\<rparr>"

definition stopped_status :: "ServiceExitCode \<Rightarrow> ServiceStatus" where
  "stopped_status code = service_status Stopped [] code 0 0"

text \<open>
  The end of the service: the daemon's result is reported. Reporting a failure may itself
  fail, which is ignored; failing to report a success is the error of the service.
\<close>

definition stop_service :: "SvcEnv \<Rightarrow> Svc \<Rightarrow> (SvcError, unit) result \<times> Svc" where
  "stop_service env s =
     (case daemon_result env of
        Inr _ \<Rightarrow> set_service_status env (stopped_status NO_ERROR) s
      | Inl e \<Rightarrow>
          (Inl (DaemonFailed e), snd (set_service_status env (stopped_status (ServiceSpecific RUNTIME_FAILURE_EXIT_CODE)) s)))"

text \<open>\<open>during n\<close> are the control events that arrive before step \<open>n\<close> after the registration.\<close>

definition run_service ::
    "SvcEnv \<Rightarrow> (nat \<Rightarrow> ServiceControl list) \<Rightarrow> WindowsServiceLaunchOptions option \<Rightarrow> Svc \<Rightarrow> (SvcError, unit) result \<times> Svc" where
  "run_service env during options s =
     (case options of
        None \<Rightarrow> (Inl NoLaunchOptions, s)
      | Some launch \<Rightarrow>
          if \<not> registered env then
            (Inl RegisterFailed, note_bootstrap_error (RegisterNote (service_name launch)) s)
          else
            let s1 = (control_events env (during 0) s)\<lparr>status_handle := True\<rparr> in
            (case set_service_status env (service_status StartPending [] NO_ERROR 1 (from_secs 30)) (control_events env (during 1) s1) of
               (Inl e, s2) \<Rightarrow> (Inl e, s2)
             | (Inr _, s2) \<Rightarrow>
                 let s3 = control_events env (during 2) s2 in
                 (case loaded env of
                    Inl e \<Rightarrow>
                      (Inl (ConfigFailed e),
                       snd (set_service_status env (stopped_status (ServiceSpecific STARTUP_FAILURE_EXIT_CODE))
                         (note_bootstrap_error (ConfigNote (service_name launch) e) s3)))
                  | Inr cfg \<Rightarrow>
                      if \<not> logging_ok env then
                        (Inl LoggingFailed,
                         snd (set_service_status env (stopped_status (ServiceSpecific STARTUP_FAILURE_EXIT_CODE))
                           (note_bootstrap_error (LoggingNote (service_name launch)) s3)))
                      else
                        (case set_service_status env
                                (service_status Running [ControlStop, ControlShutdown] NO_ERROR 0 0) (control_events env (during 3) s3) of
                           (Inl e, s4) \<Rightarrow> (Inl e, s4)
                         | (Inr _, s4) \<Rightarrow>
                             if \<not> runtime_ok env then (Inl RuntimeFailed, s4)
                             else stop_service env (control_events env (during 4) s4)))))"

definition dispatch ::
    "bool \<Rightarrow> WindowsServiceLaunchOptions \<Rightarrow> WindowsServiceLaunchOptions option
       \<Rightarrow> (string, unit) result \<times> WindowsServiceLaunchOptions option" where
  "dispatch dispatcher_ok options cell =
     (case cell of
        Some _ \<Rightarrow> (Inl ''windows service launch options were already initialized'', cell)
      | None \<Rightarrow>
          (if dispatcher_ok then Inr () else Inl ''failed to start the Windows service dispatcher'', Some options))"

subsection \<open>Reports and the shutdown signal\<close>

lemma set_status_taken:
  assumes "status_handle s" "\<And>n. takes_report env n"
  shows "set_service_status env st s = (Inr (), s\<lparr>reports := reports s @ [st], report_count := report_count s + 1\<rparr>)"
  using assms by (simp add: set_service_status_def)

lemma control_event_frame:
  "status_handle (snd (control_event env ctl s)) = status_handle s"
  "bootstrap_errors (snd (control_event env ctl s)) = bootstrap_errors s"
  by (auto simp: control_event_def set_service_status_def Let_def)

lemma control_event_reports:
  "\<exists>more. reports (snd (control_event env ctl s)) = reports s @ more \<and> list_all (\<lambda>x. current_state x = StopPending) more"
  by (auto simp: control_event_def set_service_status_def service_status_def Let_def)

lemma control_events_frame:
  "status_handle (control_events env ctls s) = status_handle s"
  "\<exists>more. reports (control_events env ctls s) = reports s @ more \<and> list_all (\<lambda>x. current_state x = StopPending) more"
proof -
  show "status_handle (control_events env ctls s) = status_handle s"
    by (induction ctls arbitrary: s) (auto simp: control_events_def control_event_frame)
  show "\<exists>more. reports (control_events env ctls s) = reports s @ more \<and> list_all (\<lambda>x. current_state x = StopPending) more"
  proof (induction ctls arbitrary: s)
    case (Cons ctl ctls)
    from control_event_reports [of env ctl s] Cons [of "snd (control_event env ctl s)"] show ?case
      by (auto simp: control_events_def)
  qed (simp add: control_events_def)
qed

lemma events_not_stopped:
  "list_all (\<lambda>x. current_state x \<noteq> Stopped) (reports s) \<Longrightarrow>
     list_all (\<lambda>x. current_state x \<noteq> Stopped) (reports (control_events env ctls s))"
  using control_events_frame(2) [of env ctls s] by (auto simp: list_all_iff)

text \<open>The shutdown signal is sent at the first stop or shutdown, and only then.\<close>

lemma control_events_shutdown:
  "shutdown_sent (control_events env ctls s) \<longleftrightarrow>
     shutdown_sent s \<or> shutdown_tx s \<and> (ControlStop \<in> set ctls \<or> ControlShutdown \<in> set ctls)"
  "shutdown_tx (control_events env ctls s) \<longleftrightarrow> shutdown_tx s \<and> ControlStop \<notin> set ctls \<and> ControlShutdown \<notin> set ctls"
proof -
  have 1: "shutdown_sent (snd (control_event env ctl s)) \<longleftrightarrow> shutdown_sent s \<or> shutdown_tx s \<and> (ctl = ControlStop \<or> ctl = ControlShutdown)"
    "shutdown_tx (snd (control_event env ctl s)) \<longleftrightarrow> shutdown_tx s \<and> ctl \<noteq> ControlStop \<and> ctl \<noteq> ControlShutdown" for ctl s
    by (auto simp: control_event_def set_service_status_def Let_def)
  show "shutdown_sent (control_events env ctls s) \<longleftrightarrow>
     shutdown_sent s \<or> shutdown_tx s \<and> (ControlStop \<in> set ctls \<or> ControlShutdown \<in> set ctls)"
    by (induction ctls arbitrary: s) (auto simp: control_events_def 1)
  show "shutdown_tx (control_events env ctls s) \<longleftrightarrow> shutdown_tx s \<and> ControlStop \<notin> set ctls \<and> ControlShutdown \<notin> set ctls"
    by (induction ctls arbitrary: s) (auto simp: control_events_def 1)
qed

text \<open>What the service manager last hears, by the result of the service.\<close>

fun final_report :: "(SvcError, unit) result \<Rightarrow> ServiceStatus list \<Rightarrow> bool" where
  "final_report (Inr _) rs \<longleftrightarrow> rs \<noteq> [] \<and> last rs = stopped_status NO_ERROR"
| "final_report (Inl (ConfigFailed _)) rs \<longleftrightarrow> rs \<noteq> [] \<and> last rs = stopped_status (ServiceSpecific STARTUP_FAILURE_EXIT_CODE)"
| "final_report (Inl LoggingFailed) rs \<longleftrightarrow> rs \<noteq> [] \<and> last rs = stopped_status (ServiceSpecific STARTUP_FAILURE_EXIT_CODE)"
| "final_report (Inl (DaemonFailed _)) rs \<longleftrightarrow> rs \<noteq> [] \<and> last rs = stopped_status (ServiceSpecific RUNTIME_FAILURE_EXIT_CODE)"
| "final_report (Inl RuntimeFailed) rs \<longleftrightarrow> list_all (\<lambda>x. current_state x \<noteq> Stopped) rs"
| "final_report (Inl _) rs \<longleftrightarrow> False"

text \<open>
  [C39] The service manager learns how the service ended. When it takes every report, a
  registered service that returns has last reported that it stopped: with no error
  if the daemon ended well, with the code of a start-up failure if the configuration
  or the log could not be set up, with the code of a runtime failure if the daemon
  failed; whatever control events arrived. The one exception is a failure to build the
  runtime, after which the service has never reported that it stopped.
\<close>

theorem service_end_is_reported:
  assumes "run_service env during (Some launch) svc_new = (r, s)" "registered env" "\<And>n. takes_report env n"
  shows "final_report r (reports s)"
proof -
  note taken = set_status_taken [OF _ assms(3)]
  define s1 where "s1 = (control_events env (during 0) svc_new)\<lparr>status_handle := True\<rparr>"
  let ?sp = "service_status StartPending [] NO_ERROR 1 (from_secs 30)"
  define s1' where "s1' = control_events env (during 1) s1"
  have h1: "status_handle s1'" by (simp add: s1'_def s1_def control_events_frame(1))
  define s2 where "s2 = s1'\<lparr>reports := reports s1' @ [?sp], report_count := report_count s1' + 1\<rparr>"
  define s3 where "s3 = control_events env (during 2) s2"
  define s3' where "s3' = control_events env (during 3) s3"
  have h3: "status_handle s3" "status_handle s3'" using h1 by (simp_all add: s3'_def s3_def s2_def control_events_frame(1))
  define s4 where "s4 = s3'\<lparr>reports := reports s3' @ [service_status Running [ControlStop, ControlShutdown] NO_ERROR 0 0],
     report_count := report_count s3' + 1\<rparr>"
  have h4: "status_handle (control_events env (during 4) s4)" using h3 by (simp add: s4_def control_events_frame(1))
  note def = assms(1) [unfolded run_service_def option.case Let_def s1_def [symmetric] s1'_def [symmetric] taken [OF h1]
      s2_def [symmetric] prod.case sum.case s3_def [symmetric] s3'_def [symmetric] taken [OF h3(2)] s4_def [symmetric]]
  have quiet: "list_all (\<lambda>x. current_state x \<noteq> Stopped) (reports s4)"
    by (auto simp: s4_def s3'_def s3_def s2_def s1'_def s1_def svc_new_def service_status_def intro!: events_not_stopped)
  have "status_handle (note_bootstrap_error b s3)" for b using h3 by (simp add: note_bootstrap_error_def)
  then show ?thesis
    using def assms(2) quiet taken [OF h4]
    by (auto simp: stop_service_def taken split: sum.splits if_splits)
qed

definition demo_service :: SvcEnv where
  "demo_service =
     \<lparr>registered = True, takes_report = (\<lambda>_. True), loaded = Inl NoHomeDirectory, logging_ok = True, runtime_ok = True,
      daemon_result = Inr ()\<rparr>"

definition demo_launch :: WindowsServiceLaunchOptions where
  "demo_launch = \<lparr>service_name = ''narrowd'', config_path = None, svc_log_file = None\<rparr>"

theorem service_end_is_reported_witness:
  "\<exists>s. run_service demo_service (\<lambda>_. [ControlStop]) (Some demo_launch) svc_new = (Inl (ConfigFailed NoHomeDirectory), s) \<and>
     last (reports s) = stopped_status (ServiceSpecific STARTUP_FAILURE_EXIT_CODE)"
proof -
  obtain s where run: "run_service demo_service (\<lambda>_. [ControlStop]) (Some demo_launch) svc_new = (Inl (ConfigFailed NoHomeDirectory), s)"
    by (simp add: run_service_def demo_service_def control_events_def control_event_def set_service_status_def svc_new_def Let_def)
  have "registered demo_service" "\<And>n. takes_report demo_service n" by (simp_all add: demo_service_def)
  from service_end_is_reported [OF run this] run show ?thesis by auto
qed

end
