(* ===== verification/Program.thy ===== *)
theory Program
  imports Startup Executor_Spawn Windows_Service
begin

text \<open>
  The program as a whole: \<open>main\<close> of \<open>src/src/main.rs\<close> on both platforms, the start-up of
  the daemon (\<open>AppState::bootstrap\<close> in \<open>src/src/sshd.rs\<close>) with the host key, the user name
  and the executor process it brings up, the server on a given listener, and what every
  connection of the running daemon keeps.
\<close>

subsection \<open>The main function\<close>

text \<open>The two options that exist on Windows only.\<close>

record MainCli = Cli +
  cli_run_windows_service :: bool
  cli_service_name :: "string option"

datatype MainAction =
    MissingServiceName
  | DispatchService WindowsServiceLaunchOptions
  | NoTokioRuntime
  | RunCli CliAction

definition narrowd_main ::
    "platform \<Rightarrow> (path option \<Rightarrow> (ConfigError, AppConfig) result) \<Rightarrow> (LogLevel \<Rightarrow> path option \<Rightarrow> bool) \<Rightarrow> bool \<Rightarrow> MainCli \<Rightarrow> MainAction" where
  "narrowd_main p load init_log runtime_built cli =
     (if p = Windows \<and> cli_run_windows_service cli then
        (case cli_service_name cli of
           None \<Rightarrow> MissingServiceName
         | Some name \<Rightarrow>
             DispatchService \<lparr>service_name = name, config_path = cli_config cli, svc_log_file = cli_log_file cli\<rparr>)
      else if \<not> runtime_built then NoTokioRuntime
      else RunCli (run_cli p load init_log (Cli.truncate cli)))"

subsection \<open>The start-up of the daemon\<close>

text \<open>
  The outside of the start-up on Unix: the key files, the text of an error about them, the
  entry of the user data base, and the answers to the calls that start the executor.
\<close>

record ('w, 'h) BootEnv =
  key_os :: "('w, 'h) KeyOs"
  key_error_text :: "HostKeyError \<Rightarrow> string"
  host_key_algorithm :: "'h \<Rightarrow> Algorithm"
  passwd_entry :: "(unit, string option) result"
  env_var :: "string \<Rightarrow> string option"
  spawn_env :: SpawnEnv

text \<open>
  The executor is the last thing the start-up brings up, after every check. A result
  \<open>None\<close> means that the start-up does not complete: it panics, or it waits for the
  executor for ever.
\<close>

definition daemon_bootstrap ::
    "'k SshEnv \<Rightarrow> ('w, 'h) BootEnv \<Rightarrow> (nat \<Rightarrow> instant) \<Rightarrow> path option \<Rightarrow> bool \<Rightarrow> FsView \<Rightarrow> path option \<Rightarrow> AppConfig \<Rightarrow> 'w \<Rightarrow> Parent
       \<Rightarrow> (BootError, AppState) result option \<times> 'w \<times> Parent" where
  "daemon_bootstrap env b t home exists view program c w q =
     (case home of
        None \<Rightarrow> (Some (Inl NoHome), w, q)
      | Some h \<Rightarrow>
          (case load_or_generate_host_key (env_platform env) (key_os b) (host_key c) w of
             (key, w1) \<Rightarrow>
               let user = (case resolve_daemon_username (env_platform env) (passwd_entry b) (env_var b) of Inl _ \<Rightarrow> None | Inr u \<Rightarrow> Some u);
                   boot = (\<lambda>spawned. bootstrap env t (Some h) (map_sum (key_error_text b) (host_key_algorithm b) key) user exists view spawned c)
               in (case boot True of
                     Some (Inr st) \<Rightarrow>
                       (case executor_spawn (spawn_env b) program q of
                          (None, q1) \<Rightarrow> (None, w1, q1)
                        | (Some (Inl _), q1) \<Rightarrow> (boot False, w1, q1)
                        | (Some (Inr _), q1) \<Rightarrow> (boot True, w1, q1))
                   | r \<Rightarrow> (r, w1, q))))"

subsection \<open>The server on a given listener\<close>

fun is_shutdown :: "'k loop_item \<Rightarrow> bool" where
  "is_shutdown ShutdownRequested = True"
| "is_shutdown _ = False"

text \<open>Its shutdown future is never ready, and it applies no sandbox.\<close>

definition run_on_listener_unsandboxed_for_tests ::
    "'k SshEnv \<Rightarrow> (BootError, AppState) result \<Rightarrow> 'k loop_item list \<Rightarrow> (RunError, unit) result option \<times> Server option" where
  "run_on_listener_unsandboxed_for_tests env boot items =
     (case boot of
        Inl e \<Rightarrow> (Some (Inl (BootFailed e)), None)
      | Inr st \<Rightarrow>
          (case accept_loop env (filter (\<lambda>x. \<not> is_shutdown x) items) (server_start st) of
             (r, s) \<Rightarrow> (map_option (map_sum AcceptFailed id) r, Some s)))"

definition run_daemon ::
    "'k SshEnv \<Rightarrow> Kernel \<Rightarrow> (BootError, AppState) result \<Rightarrow> (IoError, unit) result \<Rightarrow> 'k loop_item list \<Rightarrow> Process
       \<Rightarrow> (RunError, unit) result option \<times> Process \<times> Server option" where
  "run_daemon env k boot bind_result items = run_until_shutdown env k boot bind_result (filter (\<lambda>x. \<not> is_shutdown x) items)"

subsection \<open>Every connection of the daemon\<close>

definition conns_inv :: "AppState \<Rightarrow> Server \<Rightarrow> bool" where
  "conns_inv st s \<longleftrightarrow>
     same_identity st (srv_app s) \<and> list_all (\<lambda>x. conn_inv st (snd (snd (snd x)))) (srv_conns s)"

lemma serve_accept_identity:
  assumes "serve_accept env t peer st = (r, st')"
  shows "same_identity st st' \<and> (\<forall>c. r = Some (Some c) \<longrightarrow> conn_inv st0 c)"
proof -
  obtain q ctl where acq: "try_acquire_at (env_platform env) (app_admission st) (ip peer) (t 0) = (q, ctl)" by fastforce
  consider "q = None" | reason where "q = Some (Inl reason)" | g where "q = Some (Inr g)"
    by (metis option.exhaust sum.exhaust)
  then show ?thesis
  proof cases
    case 2
    then have "keeps_admission (st\<lparr>app_admission := ctl\<rparr>) st'" "r = None \<or> r = Some None"
      using assms acq reject_quiet by (fastforce simp: serve_accept_def)+
    then show ?thesis by (auto simp: keeps_admission_def same_identity_def)
  qed (use assms acq in \<open>auto simp: serve_accept_def same_identity_def split: option.splits prod.splits\<close>)
qed

lemma handler_drop_identity: "handler_drop env now c st = (r, c', st') \<Longrightarrow> same_identity st st'"
  by (auto simp: handler_drop_def put_shared_def same_identity_def Let_def split: prod.splits)

lemma supervise_identity: "same_identity st (snd x) \<Longrightarrow> same_identity st (supervise peer x)"
  using supervise_quiet [of "snd x" peer "fst x"] by (auto simp: keeps_admission_def intro: same_identity_trans)

lemma conns_inv_lookup: "conns_inv st s \<Longrightarrow> hm_get (srv_conns s) i = Some (peer, ph, c) \<Longrightarrow> conn_inv st c"
  by (auto simp: conns_inv_def list_all_iff dest!: hm_get_in_set)

lemma conns_inv_put:
  "conns_inv st s \<Longrightarrow> same_identity st st' \<Longrightarrow> conn_inv st c \<Longrightarrow>
     conns_inv st \<lparr>srv_app = st', srv_conns = hm_insert i (peer, ph, c) (srv_conns s)\<rparr>"
  by (simp add: conns_inv_def list_all_update)

lemma conns_inv_del: "conns_inv st s \<Longrightarrow> same_identity st st' \<Longrightarrow> conns_inv st \<lparr>srv_app = st', srv_conns = hm_remove i (srv_conns s)\<rparr>"
  by (simp add: conns_inv_def list_all_delete)

lemma conns_inv_app: "conns_inv st s \<Longrightarrow> same_identity st st' \<Longrightarrow> conns_inv st (s\<lparr>srv_app := st'\<rparr>)"
  by (simp add: conns_inv_def)

lemma conns_inv_accept:
  assumes "conns_inv st s"
  shows "conns_inv st (server_step env (SockAccepted i peer t) s)"
proof -
  obtain r st' where acc: "serve_accept env t peer (srv_app s) = (r, st')" by fastforce
  have id: "same_identity st st'"
    using serve_accept_identity [OF acc] assms by (auto simp: conns_inv_def intro: same_identity_trans)
  show ?thesis
    using acc assms serve_accept_identity [OF acc, of st] id
    by (auto simp del: Server.update_convs split: option.splits intro!: conns_inv_put conns_inv_app supervise_identity)
qed

lemma conns_inv_setup:
  assumes "conns_inv st s"
  shows "conns_inv st (server_step env (SetupDone i outcome t) s)"
proof (cases "\<exists>peer x. hm_get (srv_conns s) i = Some (peer, Setup, x)")
  case True
  then obtain peer x where g: "hm_get (srv_conns s) i = Some (peer, Setup, x)" by auto
  obtain r x' st' where d: "handler_drop env (t 0) x (srv_app s) = (r, x', st')" by (metis prod_cases3)
  have id: "same_identity st (srv_app s)" using assms by (simp add: conns_inv_def)
  then have id': "same_identity st st'" using handler_drop_identity [OF d] same_identity_trans by blast
  obtain q :: "(error_chain, unit) result option" and st1
    where y: "app_bind (serve_setup env (t 1) peer outcome) (\<lambda>_. app_return (Inr ())) st' = (q, st1)" by fastforce
  have "keeps_admission st' st1"
    using y by (rule quiet_bind) (auto intro: serve_setup_quiet quiet_return)
  then have "same_identity st st1" using id' by (auto simp: keeps_admission_def intro: same_identity_trans)
  with id' g d y assms id conns_inv_put [OF assms id conns_inv_lookup [OF assms g], of i peer phase.Running] show ?thesis
    by (auto simp del: Server.update_convs simp: server_eta split: option.splits intro!: conns_inv_del supervise_identity)
next
  case False
  then have "server_step env (SetupDone i outcome t) s = s" by (auto split: option.splits phase.splits)
  with assms show ?thesis by simp
qed

lemma conns_inv_call:
  assumes "conns_inv st s"
  shows "conns_inv st (server_step env (HandlerCalled i tc) s)"
proof (cases "\<exists>peer x. hm_get (srv_conns s) i = Some (peer, phase.Running, x)")
  case True
  then obtain peer x where g: "hm_get (srv_conns s) i = Some (peer, phase.Running, x)" by auto
  obtain r x' st' where h: "handle_timed env tc x (srv_app s) = (r, x', st')" by (metis prod_cases3)
  have id: "same_identity st (srv_app s)" using assms by (simp add: conns_inv_def)
  have "conn_inv (srv_app s) x'"
    using conn_step_inv [OF handle_timed_step [OF h]] conns_inv_lookup [OF assms g] conn_inv_cong [OF id] by simp
  then have "conn_inv st x'" using conn_inv_cong [OF id] by simp
  moreover have "same_identity st st'" using id handle_identity [OF h] same_identity_trans by blast
  ultimately show ?thesis using g h conns_inv_put [OF assms] by simp
next
  case False
  then have "server_step env (HandlerCalled i tc) s = s" by (auto split: option.splits phase.splits)
  with assms show ?thesis by simp
qed

lemma conns_inv_end:
  assumes "conns_inv st s"
  shows "conns_inv st (server_step env (SessionEnded i notified res t) s)"
proof (cases "\<exists>peer ph x. hm_get (srv_conns s) i = Some (peer, ph, x) \<and> ph \<noteq> Setup")
  case True
  then obtain peer ph x where g: "hm_get (srv_conns s) i = Some (peer, ph, x)" "ph \<noteq> Setup" by auto
  obtain r x' st' where d: "handler_drop env (t 0) x (srv_app s) = (r, x', st')" by (metis prod_cases3)
  obtain q st1 where y: "serve_end env (t 1) peer notified res st' = (q, st1)" by fastforce
  have "same_identity st st'"
    using assms handler_drop_identity [OF d] by (auto simp: conns_inv_def intro: same_identity_trans)
  with serve_end_quiet [OF y] have "same_identity st st1" by (auto simp: keeps_admission_def intro: same_identity_trans)
  with g d y show ?thesis by (cases ph) (auto intro!: conns_inv_del [OF assms] supervise_identity)
next
  case False
  then have "server_step env (SessionEnded i notified res t) s = s" by (auto split: option.splits phase.splits)
  with assms show ?thesis by simp
qed

interpretation served: event_system "server_start st" "server_rel env" "conns_inv st" for st env
proof
  show "conns_inv st (server_start st)" by (simp add: conns_inv_def server_start_def)
  show "conns_inv st s'" if "conns_inv st s" "server_rel env s e s'" for s e s'
    using that unfolding server_rel_def
    by (cases e) (auto simp only: conns_inv_accept conns_inv_setup conns_inv_call conns_inv_end)
qed

lemma reached_calls_allowed:
  assumes "reach (server_start st) (server_rel env) s"
  shows "app_config (srv_app s) = app_config st \<and> list_all (\<lambda>(i, peer, ph, x). list_all (call_allowed st) (exec_calls x)) (srv_conns s)"
  using served.inv_reach [OF assms] by (auto simp: conns_inv_def conn_inv_def same_identity_def list_all_iff)

subsection \<open>What the start-up establishes\<close>

lemma main_loads_config:
  assumes "narrowd_main p (config_load p d ex rd) init_log built cli = RunCli (RunDaemon c)"
  shows "validate c = Inr () \<and> config_wf c"
proof -
  have "config_load p d ex rd (cli_config (Cli.truncate cli)) = Inr c"
    using assms by (auto simp: narrowd_main_def run_cli_def split: if_splits option.splits sum.splits)
  then show ?thesis
    by (rule config_load_Inr) (use default_config_wf apply_config_file_wf in blast)
qed

lemma bootstrap_Inr:
  "bootstrap env t home alg user exists view spawned c = Some (Inr st) \<Longrightarrow> app_config st = c \<and> alg = Inr Ed25519 \<and> spawned"
  by (auto simp: bootstrap_def split: option.splits sum.splits if_splits)

lemma daemon_bootstrap_Inr:
  assumes "daemon_bootstrap env b t home exists view program c w q = (Some (Inr st), w', q')"
  obtains key fds alg user where
    "load_or_generate_host_key (env_platform env) (key_os b) (host_key c) w = (Inr key, w')"
    "executor_spawn (spawn_env b) program q = (Some (Inr fds), q')"
    "bootstrap env t home alg user exists view True c = Some (Inr st)"
proof -
  obtain h where h: "home = Some h" using assms by (cases home) (auto simp: daemon_bootstrap_def)
  obtain key w1 where key: "load_or_generate_host_key (env_platform env) (key_os b) (host_key c) w = (key, w1)" by fastforce
  define boot where "boot spawned = bootstrap env t (Some h) (map_sum (key_error_text b) (host_key_algorithm b) key)
      (case resolve_daemon_username (env_platform env) (passwd_entry b) (env_var b) of Inl _ \<Rightarrow> None | Inr u \<Rightarrow> Some u)
      exists view spawned c" for spawned
  have no: "boot False \<noteq> Some (Inr s)" for s using bootstrap_Inr by (fastforce simp: boot_def)
  have "daemon_bootstrap env b t home exists view program c w q =
      (case boot True of
         Some (Inr st) \<Rightarrow>
           (case executor_spawn (spawn_env b) program q of
              (None, q1) \<Rightarrow> (None, w1, q1)
            | (Some (Inl _), q1) \<Rightarrow> (boot False, w1, q1)
            | (Some (Inr _), q1) \<Rightarrow> (boot True, w1, q1))
       | r \<Rightarrow> (r, w1, q))"
    by (simp only: daemon_bootstrap_def h key Let_def boot_def option.case prod.case)
  with assms have "w1 = w' \<and> boot True = Some (Inr st) \<and> (\<exists>fds. executor_spawn (spawn_env b) program q = (Some (Inr fds), q'))"
    by (auto simp: no split: option.splits sum.splits prod.splits)
  moreover have "\<exists>k. key = Inr k" if "boot True = Some (Inr st)"
    using bootstrap_Inr [OF that [unfolded boot_def]] by (cases key) auto
  ultimately show ?thesis using that key h unfolding boot_def by blast
qed

lemma started_executor_fds:
  assumes "executor_spawn senv program parent_new = (Some (Inr fds), q)"
  shows "list_all (\<lambda>x. cloexec (snd x) \<and> fd_end (snd x) = ParentEnd) (parent_fds q)"
proof (cases "steps_succeed senv program")
  case True
  with assms show ?thesis
    by (cases "behaviour senv") (auto simp: spawn_from_handshake handshake_state_def split: if_splits)
next
  case False
  with assms show ?thesis using spawn_fails_before_handshake [OF False] by auto
qed

end
