(* ===== verification/Logging.thy ===== *)
theory Logging
  imports Sandbox Rust_Io Rust_Time "HOL-Library.Sublist"
begin

text \<open>
  The log file and its rotation (\<open>src/src/logging.rs\<close>).

  The files are a table from paths to contents. What the operating system answers during
  one call is a value of \<open>LogEnv\<close>: which operations fail, and how much a write takes.
  Nobody else touches the files.
\<close>

type_synonym log_files = "(path, string) hmap"

record LogEnv =
  mkdir_err :: "IoError option"
  open_err :: "IoError option"
  stat_err :: "IoError option"
  flush_err :: "IoError option"
  remove_err :: "IoError option"
  rename_err :: "IoError option"
  write_result :: "nat \<Rightarrow> (IoError, nat) result"
  write_all_failure :: "(nat \<times> IoError) option"

definition DEFAULT_LOG_ROTATE_BYTES :: nat where
  "DEFAULT_LOG_ROTATE_BYTES = 10 * 1024 * 1024"

record RotatingLogFile =
  log_path :: path
  rotated_path :: path
  max_bytes :: nat
  current_len :: nat
  file_open :: bool

definition content :: "log_files \<Rightarrow> path \<Rightarrow> string" where
  "content fs q = (case hm_get fs q of None \<Rightarrow> [] | Some s \<Rightarrow> s)"

text \<open>\<open>create_dir_all\<close> does nothing for the empty path.\<close>

definition create_parent :: "LogEnv \<Rightarrow> path \<Rightarrow> IoError option" where
  "create_parent env q =
     (case path_parent q of None \<Rightarrow> None | Some parent \<Rightarrow> if parent = [] then None else mkdir_err env)"

definition open_append :: "LogEnv \<Rightarrow> path \<Rightarrow> log_files \<Rightarrow> (IoError, unit) result \<times> log_files" where
  "open_append env q fs =
     (case open_err env of
        Some e \<Rightarrow> (Inl e, fs)
      | None \<Rightarrow> (Inr (), if hm_get fs q = None then hm_insert q [] fs else fs))"

definition open_log_file :: "LogEnv \<Rightarrow> path \<Rightarrow> log_files \<Rightarrow> (IoError, nat) result \<times> log_files" where
  "open_log_file env q fs =
     (case create_parent env q of
        Some e \<Rightarrow> (Inl e, fs)
      | None \<Rightarrow>
          (case open_append env q fs of
             (Inl e, fs1) \<Rightarrow> (Inl e, fs1)
           | (Inr _, fs1) \<Rightarrow>
               (case stat_err env of
                  Some e \<Rightarrow> (Inl e, fs1)
                | None \<Rightarrow> (Inr (length (content fs1 q)), fs1))))"

definition rotated_log_path :: "path \<Rightarrow> path" where
  "rotated_log_path q =
     (let rotated_name = (case file_name q of None \<Rightarrow> ''narrowd.log'' | Some n \<Rightarrow> n) @ ''.1'' in
      case path_parent q of Some parent \<Rightarrow> path_join parent rotated_name | None \<Rightarrow> rotated_name)"

definition log_new :: "LogEnv \<Rightarrow> path \<Rightarrow> nat \<Rightarrow> log_files \<Rightarrow> (IoError, RotatingLogFile) result \<times> log_files" where
  "log_new env q limit fs =
     (case open_log_file env q fs of
        (r, fs1) \<Rightarrow>
          (map_sum id (\<lambda>n. \<lparr>log_path = q, rotated_path = rotated_log_path q, max_bytes = limit, current_len = n,
                            file_open = True\<rparr>) r, fs1))"

definition needs_rotation :: "nat \<Rightarrow> RotatingLogFile \<Rightarrow> bool" where
  "needs_rotation incoming_len lf \<longleftrightarrow>
     \<not> (incoming_len = 0 \<or> current_len lf = 0 \<or> min (current_len lf + incoming_len) u64_max \<le> max_bytes lf)"

definition remove_rotated :: "LogEnv \<Rightarrow> path \<Rightarrow> log_files \<Rightarrow> (IoError, unit) result \<times> log_files" where
  "remove_rotated env q fs =
     (case hm_get fs q of
        None \<Rightarrow> (Inr (), fs)
      | Some _ \<Rightarrow> (case remove_err env of Some e \<Rightarrow> (Inl e, fs) | None \<Rightarrow> (Inr (), hm_remove q fs)))"

definition rename_file :: "LogEnv \<Rightarrow> path \<Rightarrow> path \<Rightarrow> log_files \<Rightarrow> (IoError, unit) result \<times> log_files" where
  "rename_file env q r fs =
     (case hm_get fs q of
        None \<Rightarrow> (Inl \<lparr>io_kind = NotFound, io_message = []\<rparr>, fs)
      | Some s \<Rightarrow>
          (case rename_err env of Some e \<Rightarrow> (Inl e, fs) | None \<Rightarrow> (Inr (), hm_insert r s (hm_remove q fs))))"

definition rotate_if_needed ::
    "LogEnv \<Rightarrow> nat \<Rightarrow> RotatingLogFile \<Rightarrow> log_files \<Rightarrow> (IoError, unit) result \<times> RotatingLogFile \<times> log_files" where
  "rotate_if_needed env incoming_len lf fs =
     (if \<not> needs_rotation incoming_len lf then (Inr (), lf, fs)
      else
        let lf1 = lf\<lparr>file_open := False\<rparr> in
        (case (if file_open lf then flush_err env else None) of
           Some e \<Rightarrow> (Inl e, lf1, fs)
         | None \<Rightarrow>
             (case remove_rotated env (rotated_path lf) fs of
                (Inl e, fs1) \<Rightarrow> (Inl e, lf1, fs1)
              | (Inr _, fs1) \<Rightarrow>
                  (case rename_file env (log_path lf) (rotated_path lf) fs1 of
                     (Inl e, fs2) \<Rightarrow> (Inl e, lf1, fs2)
                   | (Inr _, fs2) \<Rightarrow>
                       (case open_log_file env (log_path lf) fs2 of
                          (Inl e, fs3) \<Rightarrow> (Inl e, lf1, fs3)
                        | (Inr n, fs3) \<Rightarrow> (Inr (), lf1\<lparr>file_open := True, current_len := n\<rparr>, fs3))))))"

text \<open>Writing panics (\<open>None\<close>) when an earlier rotation failed and left the file closed.\<close>

definition log_write ::
    "LogEnv \<Rightarrow> string \<Rightarrow> RotatingLogFile \<Rightarrow> log_files \<Rightarrow> (IoError, nat) result option \<times> RotatingLogFile \<times> log_files" where
  "log_write env buf lf fs =
     (case rotate_if_needed env (length buf) lf fs of
        (Inl e, lf1, fs1) \<Rightarrow> (Some (Inl e), lf1, fs1)
      | (Inr _, lf1, fs1) \<Rightarrow>
          if \<not> file_open lf1 then (None, lf1, fs1)
          else (case write_result env (length buf) of
              Inl e \<Rightarrow> (Some (Inl e), lf1, fs1)
            | Inr n \<Rightarrow>
                (Some (Inr n), lf1\<lparr>current_len := min (current_len lf1 + n) u64_max\<rparr>,
                 hm_insert (log_path lf1) (content fs1 (log_path lf1) @ take n buf) fs1)))"

definition log_flush :: "LogEnv \<Rightarrow> RotatingLogFile \<Rightarrow> (IoError, unit) result option" where
  "log_flush env lf =
     (if \<not> file_open lf then None
      else Some (case flush_err env of Some e \<Rightarrow> Inl e | None \<Rightarrow> Inr ()))"

definition append_bootstrap_line :: "LogEnv \<Rightarrow> path \<Rightarrow> string \<Rightarrow> log_files \<Rightarrow> (IoError, unit) result \<times> log_files" where
  "append_bootstrap_line env q message fs =
     (case create_parent env q of
        Some e \<Rightarrow> (Inl e, fs)
      | None \<Rightarrow>
          (case open_append env q fs of
             (Inl e, fs1) \<Rightarrow> (Inl e, fs1)
           | (Inr _, fs1) \<Rightarrow>
               (case write_all_failure env of
                  Some (n, e) \<Rightarrow> (Inl e, hm_insert q (content fs1 q @ take n message) fs1)
                | None \<Rightarrow>
                    ((case flush_err env of Some e \<Rightarrow> Inl e | None \<Rightarrow> Inr ()),
                     hm_insert q (content fs1 q @ message) fs1))))"

definition append_bootstrap_error :: "LogEnv \<Rightarrow> path option \<Rightarrow> string \<Rightarrow> log_files \<Rightarrow> log_files" where
  "append_bootstrap_error env q message fs =
     (case q of
        None \<Rightarrow> fs
      | Some q \<Rightarrow> snd (append_bootstrap_line env q (''narrowd bootstrap error: '' @ message @ [CHR 0x0A]) fs))"

text \<open>
  Setting up the logger: the pipe target is the rotating file, and a second set-up in the
  same process fails. The builder itself belongs to the crate \<open>env_logger\<close>.
\<close>

datatype LogInitError = LogFileFailed IoError | AlreadyInitialised

definition log_init ::
    "LogEnv \<Rightarrow> bool \<Rightarrow> path option \<Rightarrow> log_files \<Rightarrow> (LogInitError, RotatingLogFile option) result \<times> log_files" where
  "log_init env initialised log_file fs =
     (case (case log_file of
              None \<Rightarrow> (Inr None, fs)
            | Some q \<Rightarrow>
                (case log_new env q DEFAULT_LOG_ROTATE_BYTES fs of (r, fs1) \<Rightarrow> (map_sum LogFileFailed Some r, fs1))) of
        (Inl e, fs1) \<Rightarrow> (Inl e, fs1)
      | (Inr target, fs1) \<Rightarrow> (if initialised then Inl AlreadyInitialised else Inr target, fs1))"

subsection \<open>Size and contents\<close>

definition log_wf :: "RotatingLogFile \<Rightarrow> log_files \<Rightarrow> bool" where
  "log_wf lf fs \<longleftrightarrow>
     rotated_path lf \<noteq> log_path lf \<and> max_bytes lf < u64_max \<and>
     (file_open lf \<longrightarrow> hm_get fs (log_path lf) \<noteq> None \<and> current_len lf = min (length (content fs (log_path lf))) u64_max)"

text \<open>What the two files hold, oldest first.\<close>

definition kept :: "RotatingLogFile \<Rightarrow> log_files \<Rightarrow> string" where
  "kept lf fs = content fs (rotated_path lf) @ content fs (log_path lf)"

definition same_log :: "RotatingLogFile \<Rightarrow> RotatingLogFile \<Rightarrow> bool" where
  "same_log lf lf' \<longleftrightarrow> log_path lf' = log_path lf \<and> rotated_path lf' = rotated_path lf \<and> max_bytes lf' = max_bytes lf"

lemma content_insert [simp]: "content (hm_insert q s fs) q' = (if q' = q then s else content fs q')"
  by (simp add: content_def)

lemma content_remove [simp]: "content (hm_remove q fs) q' = (if q' = q then [] else content fs q')"
  by (simp add: content_def)

lemma open_log_file_content:
  assumes "open_log_file env q fs = (r, fs')"
  shows "content fs' q' = content fs q' \<and> (\<forall>n. r = Inr n \<longrightarrow> n = length (content fs q) \<and> hm_get fs' q \<noteq> None)"
  using assms
  by (auto simp: open_log_file_def open_append_def content_def split: option.splits if_splits)

text \<open>The outcomes of a rotation attempt, by what became of the two files.\<close>

lemma rotate_cases:
  assumes "rotate_if_needed env n lf fs = (r, lf1, fs1)" "rotated_path lf \<noteq> log_path lf"
  obtains (not_needed) "r = Inr ()" "lf1 = lf" "fs1 = fs" "\<not> needs_rotation n lf"
  | (failed) e where "r = Inl e" "lf1 = lf\<lparr>file_open := False\<rparr>"
      "content fs1 (log_path lf) = content fs (log_path lf) \<and>
         (content fs1 (rotated_path lf) = content fs (rotated_path lf) \<or> content fs1 (rotated_path lf) = []) \<or>
       content fs1 (log_path lf) = [] \<and> content fs1 (rotated_path lf) = content fs (log_path lf)"
  | (rotated) "r = Inr ()" "lf1 = lf\<lparr>file_open := True, current_len := 0\<rparr>" "hm_get fs1 (log_path lf) \<noteq> None"
      "content fs1 (log_path lf) = []" "content fs1 (rotated_path lf) = content fs (log_path lf)"
proof (cases "needs_rotation n lf")
  case False
  with assms(1) not_needed show thesis by (auto simp: rotate_if_needed_def)
next
  case True
  let ?q = "log_path lf" and ?r = "rotated_path lf" and ?lf = "lf\<lparr>file_open := False\<rparr>"
  obtain r1 f1 where rm: "remove_rotated env ?r fs = (r1, f1)" by fastforce
  have c1: "content f1 ?q = content fs ?q" "content f1 ?r = content fs ?r \<or> content f1 ?r = []"
    using rm assms(2) by (auto simp: remove_rotated_def split: option.splits)
  obtain r2 f2 where rn: "rename_file env ?q ?r f1 = (r2, f2)" by fastforce
  have c2: "r2 = Inr () \<Longrightarrow> content f2 ?q = [] \<and> content f2 ?r = content f1 ?q" "r2 \<noteq> Inr () \<Longrightarrow> f2 = f1"
    using rn assms(2) by (auto simp: rename_file_def content_def split: option.splits)
  obtain r3 f3 where op: "open_log_file env ?q f2 = (r3, f3)" by fastforce
  note c3 = open_log_file_content [OF op]
  note def = assms(1) [unfolded rotate_if_needed_def Let_def]
  consider e where "(if file_open lf then flush_err env else None) = Some e"
    | e where "(if file_open lf then flush_err env else None) = None" "r1 = Inl e"
    | e where "(if file_open lf then flush_err env else None) = None" "r1 = Inr ()" "r2 = Inl e"
    | e where "(if file_open lf then flush_err env else None) = None" "r1 = Inr ()" "r2 = Inr ()" "r3 = Inl e"
    | m where "(if file_open lf then flush_err env else None) = None" "r1 = Inr ()" "r2 = Inr ()" "r3 = Inr m"
    by (cases "if file_open lf then flush_err env else None"; cases r1; cases r2; cases r3) auto
  then show thesis
  proof cases
    case 1 with True def failed show thesis by auto
  next
    case 2 with True def rm c1 failed show thesis by auto
  next
    case 3 with True def rm rn c1 c2 failed show thesis by auto
  next
    case 4 with True def rm rn op c1 c2 c3 failed show thesis by auto
  next
    case 5
    with c2 c3 have "m = 0" by auto
    with 5 True def rm rn op c1 c2 c3 rotated show thesis by auto
  qed
qed

definition written :: "(IoError, nat) result option \<Rightarrow> string \<Rightarrow> string" where
  "written r buf = (case r of Some (Inr n) \<Rightarrow> take n buf | _ \<Rightarrow> [])"

lemma rotate_frame:
  assumes "rotate_if_needed env n lf fs = (r, lf1, fs1)" "log_wf lf fs"
  shows "same_log lf lf1 \<and> log_wf lf1 fs1 \<and> suffix (kept lf1 fs1) (kept lf fs) \<and>
    length (content fs1 (log_path lf)) \<le> length (content fs (log_path lf)) \<and>
    (length (content fs1 (rotated_path lf)) \<le> max (length (content fs (rotated_path lf))) (length (content fs (log_path lf)))) \<and>
    (r = Inr () \<and> file_open lf1 \<longrightarrow>
       n = 0 \<or> content fs1 (log_path lf) = [] \<or> length (content fs1 (log_path lf)) + n \<le> max_bytes lf)"
proof -
  have ne: "rotated_path lf \<noteq> log_path lf" using assms(2) by (simp add: log_wf_def)
  from assms(1) ne show ?thesis
  proof (cases rule: rotate_cases)
    case not_needed
    then have "n = 0 \<or> content fs (log_path lf) = [] \<or> length (content fs (log_path lf)) + n \<le> max_bytes lf" if "file_open lf"
      using assms(2) that by (auto simp: needs_rotation_def log_wf_def min_def u64_max_def split: if_splits)
    with not_needed assms(2) show ?thesis by (auto simp: same_log_def)
  next
    case (failed e)
    with assms(2) show ?thesis by (auto simp: same_log_def log_wf_def kept_def suffix_def)
  next
    case rotated
    with assms(2) show ?thesis by (auto simp: same_log_def log_wf_def kept_def suffix_def)
  qed
qed

lemma write_frame:
  assumes "log_write env buf lf fs = (r, lf', fs')" "log_wf lf fs"
    and "length buf \<le> m" "max_bytes lf \<le> m" "length (content fs (log_path lf)) \<le> m" "length (content fs (rotated_path lf)) \<le> m"
    and "\<And>n. write_result env (length buf) = Inr n \<Longrightarrow> n \<le> length buf"
  shows "same_log lf lf' \<and> log_wf lf' fs' \<and> suffix (kept lf' fs') (kept lf fs @ written r buf) \<and>
    length (content fs' (log_path lf)) \<le> m \<and> length (content fs' (rotated_path lf)) \<le> m"
proof -
  obtain r1 lf1 fs1 where rot: "rotate_if_needed env (length buf) lf fs = (r1, lf1, fs1)" by (metis prod_cases3)
  note fr = rotate_frame [OF rot assms(2)]
  have m1: "length (content fs1 (log_path lf)) \<le> m" "length (content fs1 (rotated_path lf)) \<le> m" using fr assms(5,6) by auto
  show ?thesis
  proof (cases "\<exists>n. r1 = Inr () \<and> file_open lf1 \<and> write_result env (length buf) = Inr n")
    case False
    have "lf' = lf1 \<and> fs' = fs1 \<and> written r buf = []"
      using False assms(1) rot by (cases r1) (auto simp: log_write_def written_def split: if_splits sum.splits)
    with fr m1 show ?thesis by simp
  next
    case True
    then obtain n where n: "r1 = Inr ()" "file_open lf1" "write_result env (length buf) = Inr n" by blast
    have out: "r = Some (Inr n)" "lf' = lf1\<lparr>current_len := min (current_len lf1 + n) u64_max\<rparr>"
      "fs' = hm_insert (log_path lf1) (content fs1 (log_path lf1) @ take n buf) fs1"
      using assms(1) rot n by (auto simp: log_write_def)
    have q: "log_path lf1 = log_path lf" "rotated_path lf1 = rotated_path lf" "rotated_path lf \<noteq> log_path lf"
      using fr assms(2) by (auto simp: same_log_def log_wf_def)
    have "n \<le> length buf" using assms(7) n(3) by simp
    then have "length (content fs' (log_path lf)) \<le> m" using fr n(1,2) out(3) q m1 assms(3,4) by auto
    moreover have "kept lf' fs' = kept lf1 fs1 @ take n buf" using out q by (simp add: kept_def)
    moreover have "log_wf lf' fs'" using fr out q n \<open>n \<le> length buf\<close> by (auto simp: log_wf_def min_def split: if_splits)
    ultimately show ?thesis using fr out q m1 by (auto simp: same_log_def written_def suffix_def)
  qed
qed

fun write_all_to_log ::
    "(LogEnv \<times> string) list \<Rightarrow> RotatingLogFile \<Rightarrow> log_files \<Rightarrow> string \<times> RotatingLogFile \<times> log_files" where
  "write_all_to_log [] lf fs = ([], lf, fs)"
| "write_all_to_log ((env, buf) # ws) lf fs =
     (case log_write env buf lf fs of
        (r, lf1, fs1) \<Rightarrow>
          (case write_all_to_log ws lf1 fs1 of (h, lf2, fs2) \<Rightarrow> (written r buf @ h, lf2, fs2)))"

text \<open>No write takes more than it is given, and none is longer than \<open>m\<close>.\<close>

definition writes_within :: "nat \<Rightarrow> (LogEnv \<times> string) list \<Rightarrow> bool" where
  "writes_within m ws \<longleftrightarrow>
     list_all (\<lambda>(env, buf). length buf \<le> m \<and>
       (case write_result env (length buf) of Inl _ \<Rightarrow> True | Inr n \<Rightarrow> n \<le> length buf)) ws"

lemma writes_frame:
  assumes "write_all_to_log ws lf fs = (h, lf', fs')" "log_wf lf fs"
    and "length (content fs (log_path lf)) \<le> m" "length (content fs (rotated_path lf)) \<le> m" "max_bytes lf \<le> m"
    and "writes_within m ws"
  shows "suffix (kept lf' fs') (kept lf fs @ h) \<and> length (content fs' (log_path lf)) \<le> m \<and>
    length (content fs' (rotated_path lf)) \<le> m"
  using assms
proof (induction ws arbitrary: lf fs h)
  case (Cons w ws)
  obtain env buf where w: "w = (env, buf)" by fastforce
  obtain r lf1 fs1 where 1: "log_write env buf lf fs = (r, lf1, fs1)" by (metis prod_cases3)
  obtain h2 where 2: "write_all_to_log ws lf1 fs1 = (h2, lf', fs')" "h = written r buf @ h2"
    using Cons.prems(1) w 1 by (auto split: prod.splits)
  have buf: "length buf \<le> m" "\<And>n. write_result env (length buf) = Inr n \<Longrightarrow> n \<le> length buf"
    using Cons.prems(6) w by (auto simp: writes_within_def)
  note f1 = write_frame [OF 1 Cons.prems(2) buf(1) Cons.prems(5,3,4) buf(2)]
  then have eqs: "log_path lf1 = log_path lf" "rotated_path lf1 = rotated_path lf" "max_bytes lf1 = max_bytes lf" by (auto simp: same_log_def)
  have "suffix (kept lf' fs') (kept lf1 fs1 @ h2) \<and> length (content fs' (log_path lf1)) \<le> m \<and> length (content fs' (rotated_path lf1)) \<le> m"
    by (rule Cons.IH [OF 2(1)]) (use f1 eqs Cons.prems(5,6) in \<open>auto simp: writes_within_def\<close>)
  moreover have "suffix (kept lf1 fs1 @ h2) (kept lf fs @ h)" using f1 2(2) by (auto simp: suffix_def)
  ultimately show ?case using eqs by (auto intro: suffix_order.trans)
qed simp

text \<open>
  [C26] The log is bounded and loses only its oldest part. However often the system fails, the
  log file and the rotated file stay within the limit or the longest single write, if
  they were before; and what the two files hold is always the end of what was written.
\<close>

theorem log_is_bounded_and_ordered:
  assumes "write_all_to_log ws lf fs = (h, lf', fs')" "log_wf lf fs"
    and "length (content fs (log_path lf)) \<le> m" "length (content fs (rotated_path lf)) \<le> m" "max_bytes lf \<le> m"
    and "writes_within m ws"
  shows "suffix (kept lf' fs') (kept lf fs @ h) \<and> length (content fs' (log_path lf)) \<le> m \<and>
    length (content fs' (rotated_path lf)) \<le> m"
  using writes_frame [OF assms] .

definition demo_log_env :: LogEnv where
  "demo_log_env =
     \<lparr>mkdir_err = None, open_err = None, stat_err = None, flush_err = None, remove_err = None, rename_err = None,
      write_result = Inr, write_all_failure = None\<rparr>"

definition demo_log :: RotatingLogFile where
  "demo_log = \<lparr>log_path = ''a'', rotated_path = ''a.1'', max_bytes = 4, current_len = 0, file_open = True\<rparr>"

lemma demo_log_run:
  "write_all_to_log [(demo_log_env, ''abc''), (demo_log_env, ''de'')] demo_log [(''a'', [])] =
     (''abcde'', demo_log\<lparr>current_len := 2\<rparr>, [(''a.1'', ''abc''), (''a'', ''de'')])"
proof -
  have "path_parent ''a'' = Some []" by code_simp
  then show ?thesis
    by (simp add: demo_log_def demo_log_env_def log_write_def rotate_if_needed_def needs_rotation_def u64_max_def content_def
        written_def remove_rotated_def rename_file_def open_log_file_def create_parent_def open_append_def Let_def)
qed

theorem log_is_bounded_and_ordered_witness:
  "suffix (kept (demo_log\<lparr>current_len := 2\<rparr>) [(''a.1'', ''abc''), (''a'', ''de'')]) ''abcde''"
proof -
  have "log_wf demo_log [(''a'', [])]" by (simp add: log_wf_def demo_log_def content_def u64_max_def)
  moreover have "kept demo_log [(''a'', [])] = []" by (simp add: kept_def demo_log_def content_def)
  moreover have "writes_within 4 [(demo_log_env, ''abc''), (demo_log_env, ''de'')]" by (simp add: writes_within_def demo_log_env_def)
  ultimately show ?thesis
    using log_is_bounded_and_ordered [OF demo_log_run, of 4] by (simp add: demo_log_def content_def)
qed

subsection \<open>A failed rotation\<close>

text \<open>
  Once a rotation has failed the handle is gone: a later write that is small enough not
  to rotate, and every flush, panics.
\<close>

lemma closed_log_panics:
  assumes "rotate_if_needed env n lf fs = (Inl e, lf1, fs1)" "\<not> needs_rotation (length buf) lf1"
  shows "fst (log_write env' buf lf1 fs1) = None \<and> log_flush env' lf1 = None"
proof -
  have "\<not> file_open lf1"
    using assms(1) by (auto simp: rotate_if_needed_def Let_def split: if_splits option.splits sum.splits prod.splits)
  with assms(2) show ?thesis by (simp add: log_write_def rotate_if_needed_def log_flush_def)
qed

subsection \<open>Rotation in the sandbox\<close>

text \<open>
  The system calls that the standard library makes for a rotation on Linux, in order:
  closing the file, looking for the old rotated file, removing it, renaming, creating the
  directory, opening and inspecting the new file. A call whose verdict is \<open>KillProcess\<close>
  ends the process.
\<close>

definition rotation_calls :: "nat \<Rightarrow> RotatingLogFile \<Rightarrow> log_files \<Rightarrow> syscall list" where
  "rotation_calls n lf fs =
     (if \<not> needs_rotation n lf then []
      else [''close'', ''statx''] @ (if hm_get fs (rotated_path lf) \<noteq> None then [''unlink''] else []) @
           [''rename''] @ (if path_parent (log_path lf) \<in> {None, Some []} then [] else [''mkdir'']) @ [''openat'', ''statx''])"

fun issue_calls :: "filter_eval \<Rightarrow> action_stack \<Rightarrow> syscall list \<Rightarrow> Process \<Rightarrow> Process" where
  "issue_calls eval stack [] p = p"
| "issue_calls eval stack (c # cs) p =
     (if verdict eval stack (filters p) c = KillProcess then p\<lparr>killed := True\<rparr> else issue_calls eval stack cs p)"

lemma issue_calls_killed:
  "c \<in> set cs \<Longrightarrow> verdict eval stack (filters p) c = KillProcess \<Longrightarrow> killed (issue_calls eval stack cs p)"
  by (induction cs) auto



end
