(* ===== verification/Session_Launcher.thy ===== *)
theory Session_Launcher
  imports Config Rust_Io
begin

text \<open>
  The launcher of the packaged Windows version (\<open>src/src/bin/narrowd-session-launcher.rs\<close>):
  it finds its directories, writes a configuration file on the first start, and runs the
  daemon with it.

  Paths of the launcher are Windows paths, joined with a backslash. The file system is the
  set of files with their contents; the daemon and the set-up of the log are parameters.
\<close>

subsection \<open>Paths\<close>

record SessionPaths =
  narrowd_root :: path
  sp_config_path :: path
  host_key_path :: path
  log_dir :: path
  sp_log_file :: path
  authorized_keys_path :: path
  shell_path :: string

definition DEFAULT_PORT :: nat where
  "DEFAULT_PORT = 2223"

definition DEFAULT_LISTEN_ADDRESS :: string where
  "DEFAULT_LISTEN_ADDRESS = ''0.0.0.0''"

definition backslash :: char where
  "backslash = CHR 0x5C"

text \<open>Joining a relative path on Windows.\<close>

definition win_join :: "path \<Rightarrow> path \<Rightarrow> path" where
  "win_join b p = (if b \<noteq> [] \<and> last b \<noteq> backslash \<and> last b \<noteq> CHR ''/'' then b @ backslash # p else b @ p)"

definition default_shell_path :: "(path \<Rightarrow> bool) \<Rightarrow> string" where
  "default_shell_path is_file =
     (let default = foldl win_join ''C:'' [''Windows'', ''System32'', ''WindowsPowerShell'', ''v1.0'', ''powershell.exe''] in
      if is_file default then default else ''powershell.exe'')"

datatype LauncherError =
    NoUserHome
  | NoLocalAppData
  | CreateDirFailed path
  | WriteConfigFailed path
  | LoadConfigFailed ConfigError
  | LoggerFailed
  | RuntimeBuildFailed
  | DaemonEnded

definition resolve_paths ::
    "path option \<Rightarrow> path option \<Rightarrow> path option \<Rightarrow> (path \<Rightarrow> bool) \<Rightarrow> (LauncherError, SessionPaths) result" where
  "resolve_paths home data_local_dir local_app_data_var is_file =
     res_bind (ok_or NoUserHome home) (\<lambda>home_path.
     res_bind (ok_or NoLocalAppData (case data_local_dir of Some q \<Rightarrow> Some q | None \<Rightarrow> local_app_data_var)) (\<lambda>local_app_data.
       let root_path = win_join local_app_data ''narrowd'';
           log_path = win_join root_path ''log''
       in Inr \<lparr>narrowd_root = root_path, sp_config_path = win_join root_path ''narrowd.conf'',
               host_key_path = win_join root_path ''ssh_host_ed25519_key'', log_dir = log_path,
               sp_log_file = win_join log_path ''narrowd.log'',
               authorized_keys_path = win_join (win_join home_path ''.ssh'') ''authorized_keys'',
               shell_path = default_shell_path is_file\<rparr>))"

subsection \<open>The generated configuration\<close>

definition launcher_lines :: "SessionPaths \<Rightarrow> string list" where
  "launcher_lines paths = [
     ''# Generated by the narrowd MSIX session launcher.'',
     ''# Edit this file to customize the session-scoped SSH daemon.'',
     ''Port '' @ show_nat DEFAULT_PORT,
     ''ListenAddress '' @ DEFAULT_LISTEN_ADDRESS,
     [],
     ''HostKey '' @ host_key_path paths,
     ''AuthorizedKeysFile '' @ authorized_keys_path paths,
     [],
     ''Shell '' @ shell_path paths,
     ''ExecMode powershell'',
     ''PermitTTY yes'',
     ''PermitExec yes'',
     [],
     ''Subsystem sftp internal-sftp'',
     ''AllowTcpForwarding yes'',
     ''AllowRemoteForwarding yes'',
     ''GatewayPorts yes'',
     [],
     ''# Public exposure hardening defaults'',
     ''MaxUnauthConnectionsGlobal 16'',
     ''MaxUnauthConnectionsPerIp 3'',
     ''MaxUnauthConnectionsPerSubnet 8'',
     ''NewConnectionsPerMinutePerIp 12'',
     ''NewConnectionsBurstPerIp 4'',
     ''LoginGraceTime 15s'',
     ''ClientBannerTimeout 5s'',
     ''KexStartTimeout 5s'',
     ''MaxAuthAttempts 4'',
     ''AuthRejectionTime 2s'',
     ''AuthFailureBanThreshold 8'',
     ''AuthFailureBanWindow 10m'',
     ''AuthFailureBanDuration 15m'',
     ''InactivityTimeout 15m'',
     ''KeepaliveInterval 30s'',
     ''KeepaliveMax 3'',
     ''ChannelBufferSize 32'',
     ''EventBufferSize 16'',
     ''WindowSize 1048576'',
     ''MaximumPacketSize 32768'',
     ''NoDelay yes'',
     ''AuthorizedKeysMaxSize 256KiB'',
     ''AuthorizedKeysMaxEntries 128'',
     ''AuthorizedKeysReloadInterval 2s'',
     [],
     ''LogLevel info'']"

definition render_default_config :: "SessionPaths \<Rightarrow> string" where
  "render_default_config paths = concat (map (\<lambda>l. l @ [CHR 0x0A]) (launcher_lines paths))"

type_synonym file_table = "(path, string) hmap"

definition ensure_default_config :: "bool \<Rightarrow> SessionPaths \<Rightarrow> file_table \<Rightarrow> (LauncherError, unit) result \<times> file_table" where
  "ensure_default_config write_ok paths fs =
     (if hm_get fs (sp_config_path paths) \<noteq> None then (Inr (), fs)
      else if write_ok then (Inr (), hm_insert (sp_config_path paths) (render_default_config paths) fs)
      else (Inl (WriteConfigFailed (sp_config_path paths)), fs))"

text \<open>
  What the surroundings answer: whether directories can be made and the file written,
  how a configuration file loads, whether the log and the runtime come up, how the
  daemon ends.
\<close>

record LauncherEnv =
  mkdir_ok :: "path \<Rightarrow> bool"
  write_ok :: bool
  load_config :: "path \<Rightarrow> file_table \<Rightarrow> (ConfigError, AppConfig) result"
  log_ok :: "LogLevel \<Rightarrow> path \<Rightarrow> bool"
  tokio_ok :: bool
  daemon_ok :: "AppConfig \<Rightarrow> bool"

definition launcher_run :: "LauncherEnv \<Rightarrow> SessionPaths \<Rightarrow> file_table \<Rightarrow> (LauncherError, unit) result \<times> file_table" where
  "launcher_run env paths fs =
     (if \<not> mkdir_ok env (narrowd_root paths) then (Inl (CreateDirFailed (narrowd_root paths)), fs)
      else if \<not> mkdir_ok env (log_dir paths) then (Inl (CreateDirFailed (log_dir paths)), fs)
      else case ensure_default_config (write_ok env) paths fs of
          (Inl e, fs1) \<Rightarrow> (Inl e, fs1)
        | (Inr _, fs1) \<Rightarrow>
            ((case load_config env (sp_config_path paths) fs1 of
                Inl e \<Rightarrow> Inl (LoadConfigFailed e)
              | Inr c \<Rightarrow>
                  if \<not> log_ok env (log_level c) (sp_log_file paths) then Inl LoggerFailed
                  else if \<not> tokio_ok env then Inl RuntimeBuildFailed
                  else if daemon_ok env c then Inr () else Inl DaemonEnded), fs1))"

text \<open>A failure of the launcher is appended to the log file, by the path and the error.\<close>

definition launcher_main ::
    "LauncherEnv \<Rightarrow> (LauncherError, SessionPaths) result \<Rightarrow> file_table
       \<Rightarrow> (LauncherError, unit) result \<times> file_table \<times> (path \<times> LauncherError) list" where
  "launcher_main env resolved fs =
     (case resolved of
        Inl e \<Rightarrow> (Inl e, fs, [])
      | Inr paths \<Rightarrow>
          (case launcher_run env paths fs of
             (Inr _, fs1) \<Rightarrow> (Inr (), fs1, [])
           | (Inl e, fs1) \<Rightarrow> (Inl e, fs1, [(sp_log_file paths, e)])))"

subsection \<open>Values that survive the configuration syntax\<close>

text \<open>Printable bytes other than the space and the comment sign.\<close>

definition plain_byte :: "char \<Rightarrow> bool" where
  "plain_byte c \<longleftrightarrow> 33 \<le> (of_char c :: nat) \<and> (of_char c :: nat) \<le> 126 \<and> c \<noteq> CHR ''#''"

definition plain_words :: "string list \<Rightarrow> bool" where
  "plain_words ws \<longleftrightarrow> list_all (\<lambda>w. w \<noteq> [] \<and> list_all plain_byte w) ws"

definition plain_value :: "string \<Rightarrow> bool" where
  "plain_value v \<longleftrightarrow>
     split_whitespace v \<noteq> [] \<and> plain_words (split_whitespace v) \<and> join_with '' '' (split_whitespace v) = v"

lemma plain_byte_facts:
  assumes "plain_byte c"
  shows "\<not> ascii_ws c" "\<not> ws2 c b" "\<not> ws3 c b d" "\<not> ws2 b c" "\<not> ws3 b d c"
  using assms unfolding plain_byte_def ascii_ws_def ws2_def ws3_def by (safe; simp)+

lemma plain_byte_ws: "plain_byte c \<Longrightarrow> ws_len (c # s) = 0" "plain_byte c \<Longrightarrow> ws_len_back (c # s) = 0"
  by (auto simp: ws_len_def ws_len_back_def plain_byte_facts split: list.splits)

lemma words_plain: "list_all plain_byte u \<Longrightarrow> words_from w (u @ s) = words_from (w @ u) s"
  by (induction u arbitrary: w) (auto simp: words_from.simps [of _ "_ # _"] plain_byte_ws)

lemma words_space: "words_from w (CHR '' '' # s) = (if w = [] then [] else [w]) @ words_from [] s"
  by (simp add: words_from.simps [of w "_ # _"] ws_len_def ascii_ws_def)

lemma words_end: "words_from w [] = (if w = [] then [] else [w])"
  by (simp add: words_from.simps)

lemma join_Cons: "join_with sep (w # ws) = (if ws = [] then w else w @ sep @ join_with sep ws)"
  by (cases ws) simp_all

lemma split_join_plain: "plain_words ws \<Longrightarrow> split_whitespace (join_with '' '' ws) = ws"
  unfolding split_whitespace_def
proof (induction ws)
  case (Cons w ws)
  then show ?case
    using words_plain [of w "[]" "[]"] words_plain [of w "[]" "CHR '' '' # join_with '' '' ws"]
    by (auto simp: plain_words_def join_Cons words_space words_end)
qed (simp add: words_end)

lemma join_bytes: "plain_words ws \<Longrightarrow> c \<in> set (join_with '' '' ws) \<Longrightarrow> plain_byte c \<or> c = CHR '' ''"
  by (induction ws) (auto simp: plain_words_def join_Cons list_all_iff split: if_splits)

lemma join_hd: "plain_words (w # ws) \<Longrightarrow> \<exists>c s. join_with '' '' (w # ws) = c # s \<and> plain_byte c"
  by (cases w) (auto simp: plain_words_def join_Cons)

lemma join_last: "plain_words (w # ws) \<Longrightarrow> \<exists>s c. join_with '' '' (w # ws) = s @ [c] \<and> plain_byte c"
proof (induction ws arbitrary: w)
  case Nil
  then show ?case by (cases w rule: rev_cases) (auto simp: plain_words_def)
next
  case (Cons v ws)
  then have "plain_words (v # ws)" by (simp add: plain_words_def)
  from Cons.IH [OF this] obtain s c where "join_with '' '' (v # ws) = s @ [c]" "plain_byte c" by blast
  then show ?case by (intro exI [of _ "w @ '' '' @ s"]) (auto simp: join_Cons [of _ w])
qed

text \<open>A line made of plain words is read back as these words.\<close>

lemma line_of_plain_words:
  assumes "plain_words ws"
  shows "line_text (join_with '' '' ws) = join_with '' '' ws"
proof (cases ws)
  case (Cons w ws')
  have "takeWhile (\<lambda>ch. ch \<noteq> CHR ''#'') (join_with '' '' ws) = join_with '' '' ws"
    using join_bytes [OF assms] by (intro takeWhile_eq_all_conv [THEN iffD2]) (auto simp: plain_byte_def)
  moreover obtain c s where "join_with '' '' ws = c # s" "plain_byte c" using join_hd assms Cons by blast
  then have "ws_len (join_with '' '' ws) = 0" by (simp add: plain_byte_ws)
  moreover obtain d s' where "join_with '' '' ws = s' @ [d]" "plain_byte d" using join_last assms Cons by blast
  then have "ws_len_back (rev (join_with '' '' ws)) = 0" by (simp add: plain_byte_ws)
  ultimately show ?thesis unfolding line_text_def by (metis trim_id)
qed (simp add: line_text_def trim_id ws_len_def ws_len_back_def)

lemma line_words:
  assumes "plain_words ws"
  shows "split_whitespace (line_text (join_with '' '' ws)) = ws" "line_text (join_with '' '' ws) = [] \<longleftrightarrow> ws = []"
  using line_of_plain_words [OF assms] split_join_plain [OF assms] join_hd [of "hd ws" "tl ws"] assms
  by (cases ws; auto)+

subsection \<open>The generated configuration is read back\<close>

definition launcher_words :: "SessionPaths \<Rightarrow> string list list" where
  "launcher_words paths = [
     [],
     [],
     [''Port'', ''2223''],
     [''ListenAddress'', ''0.0.0.0''],
     [],
     ''HostKey'' # split_whitespace (host_key_path paths),
     ''AuthorizedKeysFile'' # split_whitespace (authorized_keys_path paths),
     [],
     ''Shell'' # split_whitespace (shell_path paths),
     [''ExecMode'', ''powershell'']] @ drop 10 sample_words"

lemma value_line:
  assumes "plain_value v" "plain_words [name]"
  shows "split_whitespace (line_text (name @ '' '' @ v)) = name # split_whitespace v" "line_text (name @ '' '' @ v) \<noteq> []"
proof -
  have j: "name @ '' '' @ v = join_with '' '' (name # split_whitespace v)" using assms(1) by (simp add: plain_value_def join_Cons)
  have "plain_words (name # split_whitespace v)" using assms by (simp add: plain_value_def plain_words_def)
  from line_words [OF this] show "split_whitespace (line_text (name @ '' '' @ v)) = name # split_whitespace v"
    "line_text (name @ '' '' @ v) \<noteq> []" unfolding j by simp_all
qed

lemma launcher_fixed_lines:
  "launcher_lines paths = take 2 (launcher_lines paths) @ [''Port 2223'', ''ListenAddress 0.0.0.0'', [],
     ''HostKey'' @ '' '' @ host_key_path paths, ''AuthorizedKeysFile'' @ '' '' @ authorized_keys_path paths, [],
     ''Shell'' @ '' '' @ shell_path paths, ''ExecMode powershell''] @ drop 10 sample_lines"
proof -
  have "show_nat DEFAULT_PORT = ''2223''" by code_simp
  then show ?thesis by (simp add: launcher_lines_def sample_lines_def DEFAULT_LISTEN_ADDRESS_def)
qed

lemma fixed_words:
  "map (\<lambda>raw. split_whitespace (line_text raw)) (drop 10 sample_lines) = drop 10 sample_words"
  by (simp only: drop_map [symmetric] sample_words)

definition plain_paths :: "SessionPaths \<Rightarrow> bool" where
  "plain_paths paths \<longleftrightarrow>
     plain_value (host_key_path paths) \<and> plain_value (authorized_keys_path paths) \<and> plain_value (shell_path paths)"

lemma launcher_head:
  "map (\<lambda>raw. split_whitespace (line_text raw)) (take 2 (launcher_lines paths)) = [[], []]"
  "list_all (\<lambda>raw. line_text raw = []) (take 2 (launcher_lines paths))"
proof -
  have c: "line_text ''# Generated by the narrowd MSIX session launcher.'' = []"
    "line_text ''# Edit this file to customize the session-scoped SSH daemon.'' = []" "split_whitespace [] = []" by code_simp+
  show "map (\<lambda>raw. split_whitespace (line_text raw)) (take 2 (launcher_lines paths)) = [[], []]"
    "list_all (\<lambda>raw. line_text raw = []) (take 2 (launcher_lines paths))"
    by (simp_all add: launcher_lines_def c)
qed

lemma launcher_names: "plain_words [''HostKey'']" "plain_words [''AuthorizedKeysFile'']" "plain_words [''Shell'']"
  by (simp_all add: plain_words_def plain_byte_def)

lemma launcher_middle:
  "split_whitespace (line_text ''Port 2223'') = [''Port'', ''2223'']"
  "split_whitespace (line_text ''ListenAddress 0.0.0.0'') = [''ListenAddress'', ''0.0.0.0'']"
  "split_whitespace (line_text ''ExecMode powershell'') = [''ExecMode'', ''powershell'']"
  "list_all (\<lambda>raw. split_whitespace (line_text raw) = [] \<longleftrightarrow> line_text raw = [])
     ([''Port 2223'', ''ListenAddress 0.0.0.0'', [], ''ExecMode powershell''] @ drop 10 sample_lines)"
  by code_simp+

lemma launcher_text_words:
  assumes "plain_paths paths"
  shows "map (\<lambda>raw. split_whitespace (line_text raw)) (launcher_lines paths) = launcher_words paths"
    and "list_all (\<lambda>raw. split_whitespace (line_text raw) = [] \<longleftrightarrow> line_text raw = []) (launcher_lines paths)"
proof -
  have p: "plain_value (host_key_path paths)" "plain_value (authorized_keys_path paths)" "plain_value (shell_path paths)"
    using assms by (simp_all add: plain_paths_def)
  note v = value_line [OF p(1) launcher_names(1)] value_line [OF p(2) launcher_names(2)] value_line [OF p(3) launcher_names(3)]
  have e: "split_whitespace (line_text []) = []" "split_whitespace [] = []" "line_text [] = []" by code_simp+
  show "map (\<lambda>raw. split_whitespace (line_text raw)) (launcher_lines paths) = launcher_words paths"
    unfolding launcher_words_def
    by (subst launcher_fixed_lines)
      (use v launcher_middle(1-3) e in \<open>simp only: map_append launcher_head(1) fixed_words list.map append.simps\<close>)
  show "list_all (\<lambda>raw. split_whitespace (line_text raw) = [] \<longleftrightarrow> line_text raw = []) (launcher_lines paths)"
    using v launcher_middle(4) launcher_head(2) [of paths] e
    by (subst launcher_fixed_lines) (auto simp: list_all_iff)
qed

lemma launcher_values: "parse_int u16_max ''2223'' = Inr 2223" "exec_mode_parse ''powershell'' = Inr PowerShell"
  by (simp_all add: parser_eval to_ascii_lowercase_def to_lower_def)

lemma drop_sample:
  "drop 10 sample_words =
    [[''PermitTTY'', ''yes''], [''PermitExec'', ''yes''], [], [''Subsystem'', ''sftp'', ''internal-sftp''],
     [''AllowTcpForwarding'', ''yes''], [''AllowRemoteForwarding'', ''yes''], [''GatewayPorts'', ''yes''], [], [],
     [''MaxUnauthConnectionsGlobal'', ''16''], [''MaxUnauthConnectionsPerIp'', ''3''], [''MaxUnauthConnectionsPerSubnet'', ''8''],
     [''NewConnectionsPerMinutePerIp'', ''12''], [''NewConnectionsBurstPerIp'', ''4''], [''LoginGraceTime'', ''15s''],
     [''ClientBannerTimeout'', ''5s''], [''KexStartTimeout'', ''5s''], [''MaxAuthAttempts'', ''4''], [''AuthRejectionTime'', ''2s''],
     [''AuthFailureBanThreshold'', ''8''], [''AuthFailureBanWindow'', ''10m''], [''AuthFailureBanDuration'', ''15m''],
     [''InactivityTimeout'', ''15m''], [''KeepaliveInterval'', ''30s''], [''KeepaliveMax'', ''3''], [''ChannelBufferSize'', ''32''],
     [''EventBufferSize'', ''16''], [''WindowSize'', ''1048576''], [''MaximumPacketSize'', ''32768''], [''NoDelay'', ''yes''],
     [''AuthorizedKeysMaxSize'', ''256KiB''], [''AuthorizedKeysMaxEntries'', ''128''], [''AuthorizedKeysReloadInterval'', ''2s''],
     [], [''LogLevel'', ''info'']]"
  by (simp add: sample_words_def)

lemma launcher_applies:
  assumes "plain_paths paths" "resolve_config_path d (host_key_path paths) base = Inr hk"
    and "resolve_config_path d (authorized_keys_path paths) base = Inr ak"
    and "resolve_shell_command_or_path d (shell_path paths) base = Inr sh"
  shows "apply_word_lines d base 1 (launcher_words paths) (default_config Windows home root') =
    Inr ((default_config Windows home root')\<lparr>port := 2223, host_key := hk, authorized_keys_file := ak, shell := sh\<rparr>)"
proof -
  have j: "join_with '' '' (split_whitespace v) = v" "split_whitespace v \<noteq> []"
    if "v \<in> {host_key_path paths, authorized_keys_path paths, shell_path paths}" for v
    using that assms(1) by (auto simp: plain_paths_def plain_value_def)
  show ?thesis
    unfolding launcher_words_def drop_sample
    by (simp add: apply_words_def apply_directive_def directive_arms sample_keys set_value_def invalid_def
        sample_values launcher_values sample_value_2s sample_value_256KiB j assms(2-4))
      (simp add: default_config_def)
qed


definition demo_paths :: SessionPaths where
  "demo_paths =
     \<lparr>narrowd_root = ''/r'', sp_config_path = ''/r/c'', host_key_path = ''/r/host key'', log_dir = ''/r/log'', sp_log_file = ''/r/log/l'',
      authorized_keys_path = ''/h/keys'', shell_path = ''powershell.exe''\<rparr>"


text \<open>A comment sign in a path cuts the value off: the directive is read with the part before it.\<close>

lemma comment_sign_truncates: "split_whitespace (line_text ''HostKey /u/c#dev/narrowd/key'') = [''HostKey'', ''/u/c'']"
  by code_simp

text \<open>An existing configuration is never overwritten.\<close>

lemma launcher_keeps_config:
  assumes "launcher_run env paths fs = (r, fs')" "hm_get fs (sp_config_path paths) = Some body"
  shows "fs' = fs"
  using assms by (auto simp: launcher_run_def ensure_default_config_def split: if_splits)

end
